(* ===== verification/Sesa_Prelude.thy ===== *)
theory Sesa_Prelude
  imports Main "HOL-Library.Word"
begin

unbundle bit_operations_syntax

text \<open>
  Shared vocabulary of the development.  Go's fixed-width integers are words
  (\<open>+\<close>, \<open>-\<close>, \<open>*\<close> wrap exactly as in Go); \<open>int\<close> values that only ever hold
  slice lengths, offsets and bit counts are \<open>nat\<close>.  A call that can return an error or
  panic has a result of type \<open>outcome\<close>, and stateful code is a function from the state to
  an outcome holding the result and the new state.
\<close>

type_synonym byte = "8 word"
type_synonym u16 = "16 word"
type_synonym u32 = "32 word"
type_synonym u64 = "64 word"
type_synonym hash = "byte list"
type_synonym address = "byte list"

named_theorems codec_intros \<open>rules of the read/write calculus, applied backwards\<close>
named_theorems outcome_simps \<open>unfolding of the sequencing combinators\<close>

subsection \<open>Outcomes: a value, a returned error, or a panic\<close>

text \<open>
  The sentinel errors of the modelled packages: the \<^verbatim>\<open>errors.New\<close> variables that the code
  compares and returns. An error of package
  \<^verbatim>\<open>rlp\<close> that carries a message is a \<open>decodeError\<close>.
\<close>

datatype error =
    ErrNonCanonicalEncoding | ErrMalformedEncoding | ErrTooLargeAlloc
  | ErrSerMalformedEvent | ErrTooLowEpoch | ErrUnknownVersion
  | ErrUnknownTxType | ErrLegacyGasLimit
  | EOL | EOF | ErrUnexpectedEOF | ErrExpectedString | ErrExpectedList | ErrCanonInt | ErrCanonSize
  | ErrElemTooLarge | ErrValueTooLarge | ErrMoreThanOneValue | errNotInList | errNotAtEOL | errUintOverflow
  | ErrNegativeBigInt | ErrInvalidBoolean | decodeError string
  | errEmptyTypedTx | ErrTxTypeNotSupported

datatype 'a outcome = Ok 'a | Fail error | Panic

type_synonym ('s, 'a) action = "'s \<Rightarrow> ('a \<times> 's) outcome"

fun bind_outcome :: "'a outcome \<Rightarrow> ('a \<Rightarrow> 'b outcome) \<Rightarrow> 'b outcome" where
  "bind_outcome (Ok a) k = k a"
| "bind_outcome (Fail e) k = Fail e"
| "bind_outcome Panic k = Panic"

definition ret :: "'a \<Rightarrow> ('s, 'a) action" where
  "ret a = (\<lambda>s. Ok (a, s))"

definition throw :: "error \<Rightarrow> ('s, 'a) action" where
  "throw e = (\<lambda>s. Fail e)"

definition panic :: "('s, 'a) action" where
  "panic = (\<lambda>s. Panic)"

definition andThen :: "('s, 'a) action \<Rightarrow> ('a \<Rightarrow> ('s, 'b) action) \<Rightarrow> ('s, 'b) action" where
  "andThen m k = (\<lambda>s. bind_outcome (m s) (\<lambda>(a, s'). k a s'))"

fun seqs :: "('s, unit) action list \<Rightarrow> ('s, unit) action" where
  "seqs [] = ret ()"
| "seqs (m # ms) = andThen m (\<lambda>_. seqs ms)"

text \<open>Run an action once per element, stopping at the first error or panic.\<close>

definition for_each :: "('a \<Rightarrow> ('s, unit) action) \<Rightarrow> 'a list \<Rightarrow> ('s, unit) action" where
  "for_each f xs = seqs (map f xs)"

text \<open>Collect \<open>n\<close> results of the same action, in order.\<close>

fun repeat_action :: "nat \<Rightarrow> ('s, 'a) action \<Rightarrow> ('s, 'a list) action" where
  "repeat_action 0 m = ret []"
| "repeat_action (Suc n) m = andThen m (\<lambda>x. andThen (repeat_action n m) (\<lambda>xs. ret (x # xs)))"

lemma bind_outcome_cong [fundef_cong]:
  "m = m' \<Longrightarrow> (\<And>a. m' = Ok a \<Longrightarrow> k a = k' a) \<Longrightarrow> bind_outcome m k = bind_outcome m' k'"
  by (cases m') auto

lemma bind_outcome_eq_Ok:
  "bind_outcome m k = Ok b \<longleftrightarrow> (\<exists>a. m = Ok a \<and> k a = Ok b)"
  by (cases m) auto

lemma bind_outcome_assoc:
  "bind_outcome (bind_outcome m k) l = bind_outcome m (\<lambda>a. bind_outcome (k a) l)"
  by (cases m) auto

lemma andThen_eq_Ok:
  "andThen m k s = Ok (b, s'') \<longleftrightarrow> (\<exists>a s'. m s = Ok (a, s') \<and> k a s' = Ok (b, s''))"
  by (auto simp: andThen_def bind_outcome_eq_Ok)

lemma andThen_assoc: "andThen (andThen m k) l = andThen m (\<lambda>a. andThen (k a) l)"
  by (auto simp: andThen_def bind_outcome_assoc fun_eq_iff split: prod.splits intro!: arg_cong2 [where f = bind_outcome])

lemma andThen_ret [simp]: "andThen (ret a) k = k a"
  by (simp add: andThen_def ret_def)

lemma andThen_ret_right [simp]: "andThen m ret = m"
proof
  fix s show "andThen m ret s = m s"
    by (cases "m s") (auto simp: andThen_def ret_def)
qed

lemma andThen_apply_Ok: "m s = Ok (a, s') \<Longrightarrow> andThen m k s = k a s'"
  by (simp add: andThen_def)

lemma seqs_append: "seqs (xs @ ys) = andThen (seqs xs) (\<lambda>_. seqs ys)"
  by (induction xs) (simp_all add: andThen_assoc)

lemmas [outcome_simps] = andThen_def ret_def throw_def panic_def

subsection \<open>Bytes as bit lists, least significant bit first\<close>

definition byte_bits :: "byte \<Rightarrow> bool list" where
  "byte_bits b = map (bit b) [0..<8]"

definition bytes_bits :: "byte list \<Rightarrow> bool list" where
  "bytes_bits bs = concat (map byte_bits bs)"

text \<open>The first \<open>n\<close> bits of a number, and the number a bit list denotes.\<close>

definition num_bits :: "nat \<Rightarrow> u64 \<Rightarrow> bool list" where
  "num_bits n v = map (bit v) [0..<n]"

definition bits_num :: "bool list \<Rightarrow> u64" where
  "bits_num bs = horner_sum of_bool 2 bs"

lemma length_byte_bits [simp]: "length (byte_bits b) = 8"
  by (simp add: byte_bits_def)

lemma nth_byte_bits [simp]: "i < 8 \<Longrightarrow> byte_bits b ! i = bit b i"
  by (simp add: byte_bits_def)

lemma bytes_bits_Nil [simp]: "bytes_bits [] = []"
  and bytes_bits_Cons [simp]: "bytes_bits (b # bs) = byte_bits b @ bytes_bits bs"
  and bytes_bits_append [simp]: "bytes_bits (bs @ cs) = bytes_bits bs @ bytes_bits cs"
  by (simp_all add: bytes_bits_def)

lemma length_bytes_bits [simp]: "length (bytes_bits bs) = 8 * length bs"
  by (induction bs) simp_all

lemma length_num_bits [simp]: "length (num_bits n v) = n"
  by (simp add: num_bits_def)

lemma nth_num_bits [simp]: "i < n \<Longrightarrow> num_bits n v ! i = bit v i"
  by (simp add: num_bits_def)

lemma num_bits_0 [simp]: "num_bits 0 v = []"
  by (simp add: num_bits_def)

lemma byte_bits_inject [simp]: "byte_bits a = byte_bits b \<longleftrightarrow> a = b"
proof
  assume eq: "byte_bits a = byte_bits b"
  show "a = b"
  proof (rule bit_word_eqI)
    fix n assume "n < LENGTH(8)"
    then show "bit a n = bit b n"
      using arg_cong [OF eq, of "\<lambda>l. l ! n"] by simp
  qed
qed simp

lemma bytes_bits_inject: "bytes_bits as = bytes_bits bs \<longleftrightarrow> as = bs"
proof
  show "bytes_bits as = bytes_bits bs \<Longrightarrow> as = bs"
  proof (induction as arbitrary: bs)
    case Nil
    then have "length (bytes_bits bs) = 0" by simp
    then show ?case by simp
  next
    case (Cons a as)
    then obtain b bs' where bs: "bs = b # bs'"
      by (cases bs) (auto dest: arg_cong [of _ _ length])
    with Cons.prems have "byte_bits a = byte_bits b \<and> bytes_bits as = bytes_bits bs'"
      by (intro append_eq_append_conv [THEN iffD1]) auto
    with Cons.IH bs show ?case by simp
  qed
qed simp

lemma bit_bits_num: "bit (bits_num bs) i \<longleftrightarrow> i < 64 \<and> i < length bs \<and> bs ! i"
  by (simp add: bits_num_def bit_horner_sum_bit_word_iff)

lemma num_bits_split: "num_bits (m + n) v = num_bits m v @ num_bits n (drop_bit m v)"
  by (rule nth_equalityI) (auto simp: nth_append bit_drop_bit_eq)

lemma num_bits_take: "m \<le> n \<Longrightarrow> take m (num_bits n v) = num_bits m v"
  by (rule nth_equalityI) auto

lemma bits_num_num_bits:
  "n \<le> 64 \<Longrightarrow> bits_num (num_bits n v) = take_bit n v"
  by (rule bit_word_eqI) (auto simp: bit_bits_num bit_take_bit_iff)

lemma take_bit_of_small: "unat v < 2 ^ n \<Longrightarrow> take_bit n (v :: u64) = v"
  by (simp add: word_unat_eq_iff unsigned_take_bit_eq take_bit_nat_eq_self)

lemma bits_num_split:
  assumes "m \<le> n" and "n \<le> length xs"
  shows "bits_num (take m xs) OR push_bit m (bits_num (take (n - m) (drop m xs))) = bits_num (take n xs)"
proof (rule bit_word_eqI)
  fix i
  show "bit (bits_num (take m xs) OR push_bit m (bits_num (take (n - m) (drop m xs)))) i =
      bit (bits_num (take n xs)) i"
    by (cases "i < m") (use assms in \<open>auto simp: bit_or_iff bit_push_bit_iff bit_bits_num\<close>)
qed

lemma unat_drop_bit_less: "v \<noteq> 0 \<Longrightarrow> 0 < k \<Longrightarrow> unat (drop_bit k v) < unat (v :: 'a::len word)"
proof -
  assume v: "v \<noteq> 0" and k: "0 < k"
  from k have "1 < (2 :: nat) ^ k" by (rule one_less_power [rotated]) simp
  then have "unat v div 2 ^ k < unat v"
    using v by (intro div_less_dividend) (auto simp: unat_gt_0)
  then show ?thesis unfolding unat_drop_bit_eq by (simp add: drop_bit_eq_div)
qed

lemma drop_bit_zero_mono:
  assumes "drop_bit i v = 0" and "i \<le> j"
  shows "drop_bit j (v :: 'a::len word) = 0"
proof (rule bit_word_eqI)
  fix n
  have "bit (drop_bit j v) n = bit (drop_bit i v) (j - i + n)"
    using assms(2) by (simp add: bit_drop_bit_eq)
  then show "bit (drop_bit j v) n = bit 0 n" using assms(1) by simp
qed

lemma word_nonzero_bit: "(x :: 'a::len word) \<noteq> 0 \<longleftrightarrow> (\<exists>i. bit x i)"
  using bit_word_eqI [of x 0] by auto

lemma ucast_ucast_u16 [simp]: "ucast (ucast (v :: u16) :: u64) = v"
  and ucast_ucast_u32 [simp]: "ucast (ucast (w :: u32) :: u64) = w"
  by (rule bit_word_eqI; auto simp: bit_ucast_iff)+

subsection \<open>Big-endian numbers (\<^verbatim>\<open>math/big\<close>)\<close>

text \<open>
  \<open>be_bytes\<close> is \<^verbatim>\<open>big.Int.Bytes\<close> on a magnitude (no leading zero byte) and
  \<open>be_num\<close> is \<^verbatim>\<open>big.Int.SetBytes\<close>.
\<close>

fun be_bytes :: "nat \<Rightarrow> byte list" where
  "be_bytes n = (if n = 0 then [] else be_bytes (n div 256) @ [word_of_nat (n mod 256)])"

definition be_num :: "byte list \<Rightarrow> nat" where
  "be_num bs = foldl (\<lambda>a b. a * 256 + unat b) 0 bs"

declare be_bytes.simps [simp del]

lemma be_bytes_0 [simp]: "be_bytes 0 = []"
  by (simp add: be_bytes.simps)

lemma be_num_Nil [simp]: "be_num [] = 0"
  and be_num_snoc [simp]: "be_num (bs @ [b]) = be_num bs * 256 + unat b"
  by (simp_all add: be_num_def)

lemma be_num_be_bytes [simp]: "be_num (be_bytes n) = n"
proof (induction n rule: be_bytes.induct)
  case (1 n)
  show ?case
  proof (cases "n = 0")
    case False
    with 1 have "be_num (be_bytes n) = (n div 256) * 256 + unat (word_of_nat (n mod 256) :: byte)"
      by (simp add: be_bytes.simps [of n])
    also have "unat (word_of_nat (n mod 256) :: byte) = n mod 256"
      by (simp add: unat_of_nat)
    finally show ?thesis by simp
  qed simp
qed

lemma be_num_bound: "be_num bs < 256 ^ length bs"
proof (induction bs rule: rev_induct)
  case (snoc b bs)
  have "unat b < 256" using unsigned_less [of b, where ?'a = nat] by simp
  with snoc show ?case by simp
qed simp

lemma length_be_bytes: "n < 256 ^ k \<Longrightarrow> length (be_bytes n) \<le> k"
proof (induction k arbitrary: n)
  case (Suc k)
  then have "n div 256 < 256 ^ k" by (simp add: less_mult_imp_div_less mult.commute)
  with Suc.IH [of "n div 256"] show ?case by (simp add: be_bytes.simps [of n])
qed simp

lemma be_bytes_eq_Nil [simp]: "be_bytes n = [] \<longleftrightarrow> n = 0"
  by (simp add: be_bytes.simps [of n])

lemma be_num_Cons: "be_num (b # bs) = unat b * 256 ^ length bs + be_num bs"
proof (induction bs rule: rev_induct)
  case (snoc c bs)
  then show ?case
    using be_num_snoc [of "b # bs" c] by (simp add: algebra_simps)
qed (simp add: be_num_def)

lemma be_num_zeros [simp]: "be_num (replicate n 0 @ bs) = be_num bs"
  by (induction n) (simp_all add: be_num_Cons)

text \<open>The \<open>k\<close> low bytes of a number, most significant first.\<close>

definition be_pad :: "nat \<Rightarrow> nat \<Rightarrow> byte list" where
  "be_pad k n = map (\<lambda>j. word_of_nat (n div 256 ^ j)) (rev [0..<k])"

lemma length_be_pad [simp]: "length (be_pad k n) = k"
  and be_pad_0 [simp]: "be_pad 0 n = []"
  by (simp_all add: be_pad_def)

lemma be_pad_append: "be_pad (a + b) n = be_pad a (n div 256 ^ b) @ be_pad b n"
proof -
  have "[0..<b + a] = [0..<b] @ map (\<lambda>j. j + b) [0..<a]"
    using map_add_upt [of b a] upt_add_eq_append [of 0 b a] by (simp add: add.commute)
  then show ?thesis
    by (simp add: be_pad_def rev_map add.commute [of a b] power_add div_mult2_eq [symmetric] mult.commute cong: map_cong)
qed

lemma be_pad_Suc: "be_pad (Suc k) n = be_pad k (n div 256) @ [word_of_nat n]"
  using be_pad_append [of k 1 n] by (simp add: be_pad_def)

lemma word_of_nat_mod_256: "(word_of_nat (n mod 256) :: byte) = word_of_nat n"
  using word_of_nat_eq_iff [of "n mod 256" n, where ?'a = 8] by (simp add: take_bit_eq_mod)

lemma be_pad_eq: "n < 256 ^ k \<Longrightarrow> be_pad k n = replicate (k - length (be_bytes n)) 0 @ be_bytes n"
proof (induction k arbitrary: n)
  case (Suc k)
  then have "n div 256 < 256 ^ k" by (simp add: less_mult_imp_div_less mult.commute)
  with Suc.IH have "be_pad (Suc k) n = replicate (k - length (be_bytes (n div 256))) 0 @ be_bytes (n div 256) @ [word_of_nat n]"
    by (simp add: be_pad_Suc)
  then show ?case
    by (cases "n = 0") (simp_all add: be_bytes.simps [of n] word_of_nat_mod_256 replicate_append_same)
qed simp

lemma length_be_bytes_ge:
  assumes "256 ^ k \<le> n"
  shows "k < length (be_bytes n)"
proof (rule ccontr)
  assume "\<not> k < length (be_bytes n)"
  then have "(256 :: nat) ^ length (be_bytes n) \<le> 256 ^ k" by (intro power_increasing) auto
  with assms be_num_bound [of "be_bytes n"] show False by simp
qed

lemma be_pad_be_bytes:
  assumes "n < 256 ^ k" and "k = 0 \<or> 256 ^ (k - 1) \<le> n"
  shows "be_pad k n = be_bytes n"
proof -
  have "length (be_bytes n) = k"
    using assms length_be_bytes [of n k] length_be_bytes_ge [of "k - 1" n] by auto
  with be_pad_eq [OF assms(1)] show ?thesis by simp
qed

lemma be_pad_be_num: "be_pad (length bs) (be_num bs) = bs"
proof (induction bs rule: rev_induct)
  case (snoc b bs)
  have "unat b < 256" using unsigned_less [of b, where ?'a = nat] by simp
  moreover have "(word_of_nat (be_num bs * 256 + unat b) :: byte) = b"
    using word_of_nat_mod_256 [of "be_num bs * 256 + unat b"] word_of_nat_mod_256 [of "unat b"] by simp
  ultimately show ?case using snoc by (simp add: be_pad_Suc)
qed simp

lemma be_bytes_be_num: "bs = [] \<or> hd bs \<noteq> 0 \<Longrightarrow> be_bytes (be_num bs) = bs"
proof (cases bs)
  case (Cons b bs')
  assume "bs = [] \<or> hd bs \<noteq> 0"
  with Cons have "0 < unat b" by (simp add: unat_gt_0)
  then have "1 * 256 ^ length bs' \<le> unat b * 256 ^ length bs'" by (intro mult_right_mono) auto
  then have "256 ^ length bs' \<le> be_num bs" unfolding Cons be_num_Cons by linarith
  then have "be_pad (length bs) (be_num bs) = be_bytes (be_num bs)"
    using be_num_bound [of bs] Cons by (intro be_pad_be_bytes) auto
  then show ?thesis by (simp add: be_pad_be_num)
qed simp

lemma hd_be_bytes: "n \<noteq> 0 \<Longrightarrow> hd (be_bytes n) \<noteq> 0"
proof (induction n rule: be_bytes.induct)
  case (1 n)
  show ?case
  proof (cases "n div 256 = 0")
    case True
    with 1 have "n < 256" "n \<noteq> 0" by auto
    then have "(word_of_nat n :: byte) \<noteq> 0" by (auto simp: word_of_nat_eq_0_iff dest: dvd_imp_le)
    with True 1 show ?thesis by (simp add: be_bytes.simps [of n])
  next
    case False
    with 1 show ?thesis by (simp add: be_bytes.simps [of n])
  qed
qed

lemma seqs_skip [simp]: "seqs (ret () # ms) = seqs ms"
  by simp

declare seqs.simps [simp del]

end
