(* ===== verification/Transaction.thy ===== *)
theory Transaction
  imports Sesa_Prelude
begin

text \<open>
  Transactions as package \<^verbatim>\<open>core/types\<close> holds them: the three kinds of transaction data with
  their fields, and the accessors every other component reads them through.  A \<open>*big.Int\<close> is an
  \<open>int\<close> (\<open>copy\<close> replaces a nil one by 0), a fixed-size byte array is a byte list of that
  length, and the cached hash, size and sender are left out: they are functions of the rest.
\<close>

record access_tuple =
  at_Address :: address
  at_StorageKeys :: "hash list"

record LegacyTx =
  lt_Nonce :: u64
  lt_GasPrice :: int
  lt_Gas :: u64
  lt_To :: "address option"
  lt_Value :: int
  lt_Data :: "byte list"
  lt_V :: int
  lt_R :: int
  lt_S :: int

record AccessListTx =
  al_ChainID :: int
  al_Nonce :: u64
  al_GasPrice :: int
  al_Gas :: u64
  al_To :: "address option"
  al_Value :: int
  al_Data :: "byte list"
  al_AccessList :: "access_tuple list"
  al_V :: int
  al_R :: int
  al_S :: int

record DynamicFeeTx =
  df_ChainID :: int
  df_Nonce :: u64
  df_GasTipCap :: int
  df_GasFeeCap :: int
  df_Gas :: u64
  df_To :: "address option"
  df_Value :: int
  df_Data :: "byte list"
  df_AccessList :: "access_tuple list"
  df_V :: int
  df_R :: int
  df_S :: int

datatype transaction = Legacy LegacyTx | AccessList AccessListTx | DynamicFee DynamicFeeTx

definition LegacyTxType :: byte where "LegacyTxType = 0"

definition AccessListTxType :: byte where "AccessListTxType = 1"

definition DynamicFeeTxType :: byte where "DynamicFeeTxType = 2"

definition deriveChainId :: "int \<Rightarrow> int" where
  "deriveChainId v =
     (if \<bar>v\<bar> < 2 ^ 64 then
        let v64 = word_of_int \<bar>v\<bar> :: u64
        in if v64 = 27 \<or> v64 = 28 then 0 else uint ((v64 - 35) div 2)
      else (v - 35) div 2)"

fun tx_Type :: "transaction \<Rightarrow> byte" where
  "tx_Type (Legacy t) = LegacyTxType"
| "tx_Type (AccessList t) = AccessListTxType"
| "tx_Type (DynamicFee t) = DynamicFeeTxType"

fun tx_ChainId :: "transaction \<Rightarrow> int" where
  "tx_ChainId (Legacy t) = deriveChainId (lt_V t)"
| "tx_ChainId (AccessList t) = al_ChainID t"
| "tx_ChainId (DynamicFee t) = df_ChainID t"

fun tx_AccessList :: "transaction \<Rightarrow> access_tuple list" where
  "tx_AccessList (Legacy t) = []"
| "tx_AccessList (AccessList t) = al_AccessList t"
| "tx_AccessList (DynamicFee t) = df_AccessList t"

fun tx_Data :: "transaction \<Rightarrow> byte list" where
  "tx_Data (Legacy t) = lt_Data t"
| "tx_Data (AccessList t) = al_Data t"
| "tx_Data (DynamicFee t) = df_Data t"

fun tx_Gas :: "transaction \<Rightarrow> u64" where
  "tx_Gas (Legacy t) = lt_Gas t"
| "tx_Gas (AccessList t) = al_Gas t"
| "tx_Gas (DynamicFee t) = df_Gas t"

fun tx_GasPrice :: "transaction \<Rightarrow> int" where
  "tx_GasPrice (Legacy t) = lt_GasPrice t"
| "tx_GasPrice (AccessList t) = al_GasPrice t"
| "tx_GasPrice (DynamicFee t) = df_GasFeeCap t"

fun tx_GasTipCap :: "transaction \<Rightarrow> int" where
  "tx_GasTipCap (Legacy t) = lt_GasPrice t"
| "tx_GasTipCap (AccessList t) = al_GasPrice t"
| "tx_GasTipCap (DynamicFee t) = df_GasTipCap t"

fun tx_GasFeeCap :: "transaction \<Rightarrow> int" where
  "tx_GasFeeCap (Legacy t) = lt_GasPrice t"
| "tx_GasFeeCap (AccessList t) = al_GasPrice t"
| "tx_GasFeeCap (DynamicFee t) = df_GasFeeCap t"

fun tx_Value :: "transaction \<Rightarrow> int" where
  "tx_Value (Legacy t) = lt_Value t"
| "tx_Value (AccessList t) = al_Value t"
| "tx_Value (DynamicFee t) = df_Value t"

fun tx_Nonce :: "transaction \<Rightarrow> u64" where
  "tx_Nonce (Legacy t) = lt_Nonce t"
| "tx_Nonce (AccessList t) = al_Nonce t"
| "tx_Nonce (DynamicFee t) = df_Nonce t"

fun tx_To :: "transaction \<Rightarrow> address option" where
  "tx_To (Legacy t) = lt_To t"
| "tx_To (AccessList t) = al_To t"
| "tx_To (DynamicFee t) = df_To t"

fun tx_RawSignatureValues :: "transaction \<Rightarrow> int \<times> int \<times> int" where
  "tx_RawSignatureValues (Legacy t) = (lt_V t, lt_R t, lt_S t)"
| "tx_RawSignatureValues (AccessList t) = (al_V t, al_R t, al_S t)"
| "tx_RawSignatureValues (DynamicFee t) = (df_V t, df_R t, df_S t)"

definition tx_Cost :: "transaction \<Rightarrow> int" where
  "tx_Cost tx = tx_GasPrice tx * uint (tx_Gas tx) + tx_Value tx"

text \<open>\<^verbatim>\<open>big.Int.Cmp\<close>: -1, 0 or 1.\<close>

definition big_Cmp :: "int \<Rightarrow> int \<Rightarrow> int" where
  "big_Cmp x y = sgn (x - y)"

definition tx_GasFeeCapIntCmp :: "transaction \<Rightarrow> int \<Rightarrow> int" where
  "tx_GasFeeCapIntCmp tx other = big_Cmp (tx_GasFeeCap tx) other"

definition tx_GasTipCapIntCmp :: "transaction \<Rightarrow> int \<Rightarrow> int" where
  "tx_GasTipCapIntCmp tx other = big_Cmp (tx_GasTipCap tx) other"

lemmas tx_type_simps = LegacyTxType_def AccessListTxType_def DynamicFeeTxType_def

end
