(* ===== verification/NativeEvent.thy ===== *)
theory NativeEvent
  imports Transaction
begin

text \<open>
  The data of the package \<^verbatim>\<open>native\<close>: events and their locators (\<^verbatim>\<open>event.go\<close>), the
  low-latency-record votes (\<^verbatim>\<open>native_llr.go\<close>), misbehaviour proofs (\<^verbatim>\<open>native_mps.go\<close>), gas
  power (\<^verbatim>\<open>gas_power_left.go\<close>) and timestamps (\<^verbatim>\<open>time.go\<close>).
\<close>

section \<open>Signatures, gas power, timestamps\<close>

definition SigSize :: nat where "SigSize = 64"

definition BytesToSignature :: "byte list \<Rightarrow> byte list outcome" where
  "BytesToSignature b = (if length b \<noteq> SigSize then Panic else Ok b)"

record GasPowerLeft =
  shortTermGas :: u64
  longTermGas :: u64

definition Gas :: "GasPowerLeft \<Rightarrow> u64 list" where
  "Gas g = [shortTermGas g, longTermGas g]"

text \<open>\<^verbatim>\<open>Add\<close> has a value receiver: the caller's record is the one it had before.\<close>

definition GasPowerLeft_Add :: "u64 \<Rightarrow> GasPowerLeft \<Rightarrow> GasPowerLeft" where
  "GasPowerLeft_Add diff g = (let copy = \<lparr>shortTermGas = shortTermGas g + diff, longTermGas = longTermGas g + diff\<rparr> in g)"

definition GasPowerLeft_Min :: "GasPowerLeft \<Rightarrow> u64" where
  "GasPowerLeft_Min g = foldl (\<lambda>m gas. if m > gas then gas else m) (shortTermGas g) (Gas g)"

definition GasPowerLeft_Max :: "GasPowerLeft \<Rightarrow> u64" where
  "GasPowerLeft_Max g = foldl (\<lambda>m gas. if m < gas then gas else m) (shortTermGas g) (Gas g)"

definition GasPowerLeft_Sub :: "GasPowerLeft \<Rightarrow> u64 \<Rightarrow> GasPowerLeft" where
  "GasPowerLeft_Sub g diff = \<lparr>shortTermGas = shortTermGas g - diff, longTermGas = longTermGas g - diff\<rparr>"

lemma GasPowerLeft_Min_eq: "GasPowerLeft_Min g = min (shortTermGas g) (longTermGas g)"
  and GasPowerLeft_Max_eq: "GasPowerLeft_Max g = max (shortTermGas g) (longTermGas g)"
  by (auto simp: GasPowerLeft_Min_def GasPowerLeft_Max_def Gas_def)

text \<open>Nanoseconds; \<^verbatim>\<open>int64\<close> products wrap and quotients round towards zero.\<close>

definition FromUnix :: "u64 \<Rightarrow> u64" where "FromUnix t = t * 1000000000"

definition Timestamp_Unix :: "u64 \<Rightarrow> u64" where
  "Timestamp_Unix t = word_of_int (sgn (sint t) * (\<bar>sint t\<bar> div 1000000000))"

definition MaxTimestamp :: "u64 \<Rightarrow> u64 \<Rightarrow> u64" where
  "MaxTimestamp x y = (if x > y then x else y)"

lemma MaxTimestamp_max: "MaxTimestamp x y = max x y"
  by (auto simp: MaxTimestamp_def)

section \<open>Votes and misbehaviour proofs\<close>

record LlrBlockVotes =
  bv_Start :: u64
  bv_Epoch :: u32
  bv_Votes :: "hash list"

record LlrEpochVote =
  ev_Epoch :: u32
  ev_Vote :: hash

definition LastBlock :: "LlrBlockVotes \<Rightarrow> u64" where
  "LastBlock bvs = bv_Start bvs + word_of_nat (length (bv_Votes bvs)) - 1"

record EventLocator =
  lo_BaseHash :: hash
  lo_NetForkID :: u16
  lo_Epoch :: u32
  lo_Seq :: u32
  lo_Lamport :: u32
  lo_Creator :: u32
  lo_PayloadHash :: hash

record SignedEventLocator =
  sl_Locator :: EventLocator
  sl_Sig :: "byte list"

record LlrSignedBlockVotes =
  sbv_Signed :: SignedEventLocator
  sbv_TxsAndMisbehaviourProofsHash :: hash
  sbv_EpochVoteHash :: hash
  sbv_Val :: LlrBlockVotes

record LlrSignedEpochVote =
  sev_Signed :: SignedEventLocator
  sev_TxsAndMisbehaviourProofsHash :: hash
  sev_BlockVotesHash :: hash
  sev_Val :: LlrEpochVote

definition MinAccomplicesForProof :: nat where "MinAccomplicesForProof = 2"

text \<open>The two-element arrays of the proofs are pairs.\<close>

record BlockVoteDoublesign =
  bvd_Block :: u64
  bvd_Pair :: "LlrSignedBlockVotes \<times> LlrSignedBlockVotes"

record WrongBlockVote =
  wbv_Block :: u64
  wbv_Pals :: "LlrSignedBlockVotes \<times> LlrSignedBlockVotes"
  wbv_WrongEpoch :: bool

record MisbehaviourProof =
  mp_EventsDoublesign :: "(SignedEventLocator \<times> SignedEventLocator) option"
  mp_BlockVoteDoublesign :: "BlockVoteDoublesign option"
  mp_WrongBlockVote :: "WrongBlockVote option"
  mp_EpochVoteDoublesign :: "(LlrSignedEpochVote \<times> LlrSignedEpochVote) option"
  mp_WrongEpochVote :: "(LlrSignedEpochVote \<times> LlrSignedEpochVote) option"

text \<open>Indexing \<^verbatim>\<open>Votes[Block - Start]\<close>: the difference wraps, an index past the end panics.\<close>

definition vote_at :: "u64 \<Rightarrow> LlrBlockVotes \<Rightarrow> hash outcome" where
  "vote_at b bvs = (let i = unat (b - bv_Start bvs) in
     if i < length (bv_Votes bvs) then Ok (bv_Votes bvs ! i) else Panic)"

definition BlockVoteDoublesign_GetVote :: "BlockVoteDoublesign \<Rightarrow> bool \<Rightarrow> hash outcome" where
  "BlockVoteDoublesign_GetVote p second =
     vote_at (bvd_Block p) (sbv_Val (if second then snd (bvd_Pair p) else fst (bvd_Pair p)))"

definition WrongBlockVote_GetVote :: "WrongBlockVote \<Rightarrow> bool \<Rightarrow> hash outcome" where
  "WrongBlockVote_GetVote p second =
     vote_at (wbv_Block p) (sbv_Val (if second then snd (wbv_Pals p) else fst (wbv_Pals p)))"

definition SignedEventLocator_Size :: "SignedEventLocator \<Rightarrow> u64" where
  "SignedEventLocator_Size r = word_of_nat (length (sl_Sig r)) + 3 * 32 + 4 * 4"

definition LlrSignedBlockVotes_Size :: "LlrSignedBlockVotes \<Rightarrow> u64" where
  "LlrSignedBlockVotes_Size bvs = SignedEventLocator_Size (sbv_Signed bvs)
     + word_of_nat (length (bv_Votes (sbv_Val bvs))) * 32 + 32 * 2 + 8 + 4"

definition LlrSignedEpochVote_Size :: "LlrSignedEpochVote \<Rightarrow> u64" where
  "LlrSignedEpochVote_Size ev = SignedEventLocator_Size (sev_Signed ev) + 32 + 32 * 2 + 4 + 4"

section \<open>Events\<close>

text \<open>
  \<open>event_data\<close> is \<^verbatim>\<open>dag.MutableBaseEvent\<close> without the identifier, together with
  \<^verbatim>\<open>extEventData\<close>; \<open>event_payload\<close> adds \<^verbatim>\<open>sigData\<close> and \<^verbatim>\<open>payloadData\<close> and is
  \<^verbatim>\<open>MutableEventPayload\<close>; \<open>built_event\<close> is \<^verbatim>\<open>EventPayload\<close>, with the caches.
\<close>

record event_data =
  e_Epoch :: u32
  e_Seq :: u32
  e_Frame :: u32
  e_Creator :: u32
  e_Parents :: "hash list"
  e_Lamport :: u32
  e_version :: byte
  e_netForkID :: u16
  e_creationTime :: u64
  e_medianTime :: u64
  e_prevEpochHash :: "hash option"
  e_gasPowerLeft :: GasPowerLeft
  e_gasPowerUsed :: u64
  e_extra :: "byte list"
  e_anyTxs :: bool
  e_anyBlockVotes :: bool
  e_anyEpochVote :: bool
  e_anyMisbehaviourProofs :: bool
  e_payloadHash :: hash

record event_payload = event_data +
  e_sig :: "byte list"
  e_txs :: "transaction list"
  e_misbehaviourProofs :: "MisbehaviourProof list"
  e_epochVote :: LlrEpochVote
  e_blockVotes :: LlrBlockVotes

record built_event =
  b_event :: event_payload
  b_id :: hash
  b_baseHash :: hash
  b_locatorHash :: hash
  b_size :: nat

definition Zero_hash :: hash where "Zero_hash = replicate 32 0"

text \<open>The zero values a Go variable of these types starts with.\<close>

definition LlrEpochVote_zero :: LlrEpochVote where
  "LlrEpochVote_zero = \<lparr>ev_Epoch = 0, ev_Vote = Zero_hash\<rparr>"

definition LlrBlockVotes_zero :: LlrBlockVotes where
  "LlrBlockVotes_zero = \<lparr>bv_Start = 0, bv_Epoch = 0, bv_Votes = []\<rparr>"

definition MutableEventPayload_zero :: event_payload where
  "MutableEventPayload_zero = \<lparr>e_Epoch = 0, e_Seq = 0, e_Frame = 0, e_Creator = 0, e_Parents = [],
     e_Lamport = 0, e_version = 0, e_netForkID = 0, e_creationTime = 0, e_medianTime = 0,
     e_prevEpochHash = None, e_gasPowerLeft = \<lparr>shortTermGas = 0, longTermGas = 0\<rparr>,
     e_gasPowerUsed = 0, e_extra = [], e_anyTxs = False, e_anyBlockVotes = False,
     e_anyEpochVote = False, e_anyMisbehaviourProofs = False, e_payloadHash = Zero_hash,
     e_sig = replicate 64 0, e_txs = [], e_misbehaviourProofs = [],
     e_epochVote = LlrEpochVote_zero, e_blockVotes = LlrBlockVotes_zero\<rparr>"

end
