(* ===== verification/RlpDecode.thy ===== *)
theory RlpDecode
  imports RlpEncode
begin

text \<open>
  \<^verbatim>\<open>rlp/decode.go\<close>: the decoding stream and the decoders that the package makes for a Go type.
  The stream holds the unread bytes, how many of them may still be read in total and in each
  enclosing list (innermost first), and the header of the value ahead once it has been read.
  Every decoder returns at the first error except for \<open>EOL\<close>, which the stream reports before it
  changes, so an error carries no state; the message of a \<^verbatim>\<open>decodeError\<close> is kept, its Go type is not.
\<close>

section \<open>The stream\<close>

record rlp_stream =
  st_r :: "byte list"
  st_remaining :: u64
  st_size :: u64
  st_stack :: "u64 list"
  st_kind :: "Kind option"
  st_byteval :: byte
  st_limited :: bool

text \<open>\<^verbatim>\<open>Reset\<close> on a reader over the bytes \<open>b\<close>: the limit is their number in both branches.\<close>

definition stream_Reset :: "byte list \<Rightarrow> rlp_stream" where
  "stream_Reset b = \<lparr>st_r = b, st_remaining = word_of_nat (length b), st_size = 0, st_stack = [],
     st_kind = None, st_byteval = 0, st_limited = True\<rparr>"

definition listLimit :: "rlp_stream \<Rightarrow> bool \<times> u64" where
  "listLimit s = (case st_stack s of [] \<Rightarrow> (False, 0) | l # _ \<Rightarrow> (True, l))"

definition willRead :: "u64 \<Rightarrow> (rlp_stream, unit) action" where
  "willRead n s =
     (let s0 = s\<lparr>st_kind := None\<rparr>; (inList, limit) = listLimit s0 in
        if inList \<and> n > limit then Fail ErrElemTooLarge
        else let s1 = (if inList then s0\<lparr>st_stack := (limit - n) # tl (st_stack s0)\<rparr> else s0) in
          if st_limited s1 then
            if n > st_remaining s1 then Fail ErrValueTooLarge
            else Ok ((), s1\<lparr>st_remaining := st_remaining s1 - n\<rparr>)
          else Ok ((), s1))"

definition stream_readByte :: "(rlp_stream, byte) action" where
  "stream_readByte = andThen (willRead 1) (\<lambda>_ s. case st_r s of
     [] \<Rightarrow> Fail ErrUnexpectedEOF | b # r \<Rightarrow> Ok (b, s\<lparr>st_r := r\<rparr>))"

definition readFull :: "nat \<Rightarrow> (rlp_stream, byte list) action" where
  "readFull n = andThen (willRead (word_of_nat n)) (\<lambda>_ s.
     if length (st_r s) < n then Fail ErrUnexpectedEOF
     else Ok (take n (st_r s), s\<lparr>st_r := drop n (st_r s)\<rparr>))"

definition readUint :: "byte \<Rightarrow> (rlp_stream, u64) action" where
  "readUint sz =
     (if sz = 0 then (\<lambda>s. Ok (0, s\<lparr>st_kind := None\<rparr>))
      else if sz = 1 then andThen stream_readByte (\<lambda>b. ret (ucast b))
      else if sz > 8 then panic
      else andThen (readFull (unat sz)) (\<lambda>buffer.
        if hd buffer = 0 then throw ErrCanonSize else ret (word_of_nat (be_num buffer))))"

text \<open>At the top level the end of the input is \<^verbatim>\<open>io.EOF\<close>.\<close>

definition adjust_eof :: "('a \<times> rlp_stream) outcome \<Rightarrow> rlp_stream \<Rightarrow> ('a \<times> rlp_stream) outcome" where
  "adjust_eof x s = (case x of
     Fail e \<Rightarrow> Fail (if st_stack s = [] \<and> (e = ErrUnexpectedEOF \<or> e = ErrValueTooLarge) then EOF else e)
   | _ \<Rightarrow> x)"

definition stream_readKind :: "(rlp_stream, Kind \<times> u64) action" where
  "stream_readKind s =
     bind_outcome (adjust_eof (stream_readByte s) s) (\<lambda>(b, s0).
       let s1 = s0\<lparr>st_byteval := 0\<rparr> in
       if b < 0x80 then Ok ((Byte, 0), s1\<lparr>st_byteval := b\<rparr>)
       else if b < 0xB8 then Ok ((String, ucast (b - 0x80)), s1)
       else if b < 0xC0 then
         andThen (readUint (b - 0xB7)) (\<lambda>sz. if sz < 56 then throw ErrCanonSize else ret (String, sz)) s1
       else if b < 0xF8 then Ok ((List, ucast (b - 0xC0)), s1)
       else andThen (readUint (b - 0xF7)) (\<lambda>sz. if sz < 56 then throw ErrCanonSize else ret (List, sz)) s1)"

text \<open>The limit of the list is the one from before the header was read.\<close>

definition stream_Kind :: "(rlp_stream, Kind \<times> u64) action" where
  "stream_Kind s = (case st_kind s of
     Some k \<Rightarrow> Ok ((k, st_size s), s)
   | None \<Rightarrow>
       (let (inList, limit) = listLimit s in
        if inList \<and> limit = 0 then Fail EOL
        else bind_outcome (stream_readKind s) (\<lambda>((k, sz), s1).
          let s2 = s1\<lparr>st_kind := Some k, st_size := sz\<rparr> in
          if inList \<and> sz > limit then Fail ErrElemTooLarge
          else if st_limited s2 \<and> sz > st_remaining s2 then Fail ErrValueTooLarge
          else Ok ((k, sz), s2))))"

definition rearm :: "(rlp_stream, unit) action" where
  "rearm s = Ok ((), s\<lparr>st_kind := None\<rparr>)"

definition stream_Bytes :: "(rlp_stream, byte list) action" where
  "stream_Bytes = andThen stream_Kind (\<lambda>(kind, sz).
     case kind of
       Byte \<Rightarrow> andThen rearm (\<lambda>_ s. Ok ([st_byteval s], s))
     | String \<Rightarrow> andThen (readFull (unat sz)) (\<lambda>b.
         if sz = 1 \<and> hd b < 128 then throw ErrCanonSize else ret b)
     | List \<Rightarrow> throw ErrExpectedString)"

definition stream_Raw :: "(rlp_stream, byte list) action" where
  "stream_Raw = andThen stream_Kind (\<lambda>(kind, sz).
     if kind = Byte then andThen rearm (\<lambda>_ s. Ok ([st_byteval s], s))
     else andThen (readFull (unat sz)) (\<lambda>b.
       ret ((if kind = String then puthead 0x80 0xB7 sz else puthead 0xC0 0xF7 sz) @ b)))"

definition stream_uint :: "nat \<Rightarrow> (rlp_stream, u64) action" where
  "stream_uint maxbits = andThen stream_Kind (\<lambda>(kind, sz).
     case kind of
       Byte \<Rightarrow> (\<lambda>s. if st_byteval s = 0 then Fail ErrCanonInt
                   else Ok (ucast (st_byteval s), s\<lparr>st_kind := None\<rparr>))
     | String \<Rightarrow>
         if sz > word_of_nat (maxbits div 8) then throw errUintOverflow
         else (\<lambda>s. case readUint (ucast sz) s of
             Fail e \<Rightarrow> Fail (if e = ErrCanonSize then ErrCanonInt else e)
           | Panic \<Rightarrow> Panic
           | Ok (v, s') \<Rightarrow> if sz > 0 \<and> v < 128 then Fail ErrCanonSize else Ok (v, s'))
     | List \<Rightarrow> throw ErrExpectedString)"

definition stream_Uint :: "(rlp_stream, u64) action" where
  "stream_Uint = stream_uint 64"

definition stream_Bool :: "(rlp_stream, bool) action" where
  "stream_Bool = andThen (stream_uint 8) (\<lambda>num.
     if num = 0 then ret False else if num = 1 then ret True else throw ErrInvalidBoolean)"

definition stream_List :: "(rlp_stream, u64) action" where
  "stream_List = andThen stream_Kind (\<lambda>(kind, sz) s.
     if kind \<noteq> List then Fail ErrExpectedList
     else let (inList, limit) = listLimit s;
              st = (if inList then (limit - sz) # tl (st_stack s) else st_stack s)
          in Ok (sz, s\<lparr>st_stack := sz # st, st_kind := None, st_size := 0\<rparr>))"

definition stream_ListEnd :: "(rlp_stream, unit) action" where
  "stream_ListEnd s =
     (let (inList, limit) = listLimit s in
      if \<not> inList then Fail errNotInList
      else if limit > 0 then Fail errNotAtEOL
      else Ok ((), s\<lparr>st_stack := tl (st_stack s), st_kind := None, st_size := 0\<rparr>))"

section \<open>Decoders for the Go types\<close>

definition wrapStreamError :: "error \<Rightarrow> error" where
  "wrapStreamError e =
     (if e = ErrCanonInt then decodeError ''non-canonical integer (leading zero bytes)''
      else if e = ErrCanonSize then decodeError ''non-canonical size information''
      else if e = ErrExpectedList then decodeError ''expected input list''
      else if e = ErrExpectedString then decodeError ''expected input string or byte''
      else if e = errUintOverflow then decodeError ''input string too long''
      else if e = errNotAtEOL then decodeError ''input list has too many elements''
      else e)"

definition wrapped :: "(rlp_stream, 'a) action \<Rightarrow> (rlp_stream, 'a) action" where
  "wrapped d s = (case d s of Fail e \<Rightarrow> Fail (wrapStreamError e) | x \<Rightarrow> x)"

definition decodeUint :: "nat \<Rightarrow> (rlp_stream, u64) action" where
  "decodeUint bits = wrapped (stream_uint bits)"

definition decodeBool :: "(rlp_stream, bool) action" where
  "decodeBool = wrapped stream_Bool"

definition decodeByteSlice :: "(rlp_stream, byte list) action" where
  "decodeByteSlice = wrapped stream_Bytes"

text \<open>The bytes of the integer ahead, which \<^verbatim>\<open>decodeBigInt\<close> reads into one buffer or another.\<close>

definition bigInt_buffer :: "(rlp_stream, byte list) action" where
  "bigInt_buffer = andThen stream_Kind (\<lambda>(kind, sz).
     if kind = List then throw ErrExpectedString
     else if kind = Byte then andThen rearm (\<lambda>_ s. Ok ([st_byteval s], s))
     else if sz = 0 then andThen rearm (\<lambda>_. ret [])
     else if sz \<le> 32 then andThen (readFull (unat sz)) (\<lambda>buffer.
       if sz = 1 \<and> hd buffer < 128 then throw ErrCanonSize else ret buffer)
     else readFull (unat sz))"

definition decodeBigInt :: "(rlp_stream, int) action" where
  "decodeBigInt = wrapped (andThen bigInt_buffer (\<lambda>buffer.
     if length buffer > 0 \<and> hd buffer = 0 then throw ErrCanonInt else ret (int (be_num buffer))))"

definition decodeByteArray :: "nat \<Rightarrow> (rlp_stream, byte list) action" where
  "decodeByteArray n = andThen stream_Kind (\<lambda>(kind, sz).
     case kind of
       Byte \<Rightarrow> if n = 0 then throw (decodeError ''input string too long'')
         else if n > 1 then throw (decodeError ''input string too short'')
         else andThen rearm (\<lambda>_ s. Ok ([st_byteval s], s))
     | String \<Rightarrow> if n < unat sz then throw (decodeError ''input string too long'')
         else if n > unat sz then throw (decodeError ''input string too short'')
         else andThen (readFull n) (\<lambda>slice.
           if sz = 1 \<and> hd slice < 128 then throw (wrapStreamError ErrCanonSize) else ret slice)
     | List \<Rightarrow> throw (wrapStreamError ErrExpectedString))"

text \<open>
  The loop over list elements ends when the element decoder meets the end of the list.  The
  first argument bounds the number of rounds; the number of unread bytes is enough, since every
  element takes at least one.
\<close>

primrec decodeSliceElems :: "nat \<Rightarrow> (rlp_stream, 'a) action \<Rightarrow> (rlp_stream, 'a list) action" where
  "decodeSliceElems 0 elemdec s = Panic"
| "decodeSliceElems (Suc n) elemdec s = (case elemdec s of
     Fail e \<Rightarrow> if e = EOL then Ok ([], s) else Fail e
   | Panic \<Rightarrow> Panic
   | Ok (v, s') \<Rightarrow> bind_outcome (decodeSliceElems n elemdec s') (\<lambda>(vs, s''). Ok (v # vs, s'')))"

definition decodeListSlice :: "(rlp_stream, 'a) action \<Rightarrow> (rlp_stream, 'a list) action" where
  "decodeListSlice elemdec = andThen (wrapped stream_List) (\<lambda>sz.
     if sz = 0 then andThen stream_ListEnd (\<lambda>_. ret [])
     else andThen (\<lambda>s. decodeSliceElems (Suc (length (st_r s))) elemdec s) (\<lambda>vs.
       andThen stream_ListEnd (\<lambda>_. ret vs)))"

definition array_elem :: "(rlp_stream, 'a) action \<Rightarrow> (rlp_stream, 'a) action" where
  "array_elem elemdec s = (case elemdec s of
     Fail e \<Rightarrow> Fail (if e = EOL then decodeError ''input list has too few elements'' else e) | x \<Rightarrow> x)"

definition decodeListArray :: "nat \<Rightarrow> (rlp_stream, 'a) action \<Rightarrow> (rlp_stream, 'a list) action" where
  "decodeListArray vlen elemdec = andThen (wrapped stream_List) (\<lambda>_.
     andThen (repeat_action vlen (array_elem elemdec)) (\<lambda>vs.
       andThen (wrapped stream_ListEnd) (\<lambda>_. ret vs)))"

text \<open>A struct: the list header, the fields in order (none of them optional), the end of the list.\<close>

definition struct_field :: "(rlp_stream, 'a) action \<Rightarrow> (rlp_stream, 'a) action" where
  "struct_field d s = (case d s of
     Fail e \<Rightarrow> Fail (if e = EOL then decodeError ''too few elements'' else e) | x \<Rightarrow> x)"

definition makeStructDecoder :: "(rlp_stream, 'a) action \<Rightarrow> (rlp_stream, 'a) action" where
  "makeStructDecoder body = andThen (wrapped stream_List) (\<lambda>_.
     andThen body (\<lambda>v. andThen (wrapped stream_ListEnd) (\<lambda>_. ret v)))"

definition makeNilPtrDecoder :: "Kind \<Rightarrow> (rlp_stream, 'a) action \<Rightarrow> (rlp_stream, 'a option) action" where
  "makeNilPtrDecoder nilKind d = andThen (wrapped stream_Kind) (\<lambda>(kind, sz).
     if kind \<noteq> Byte \<and> sz = 0 then
       if kind \<noteq> nilKind then throw (decodeError ''wrong kind of empty value'')
       else andThen rearm (\<lambda>_. ret None)
     else andThen d (\<lambda>v. ret (Some v)))"

definition DecodeBytes :: "byte list \<Rightarrow> (rlp_stream, 'a) action \<Rightarrow> 'a outcome" where
  "DecodeBytes b d = bind_outcome (d (stream_Reset b)) (\<lambda>(v, s).
     if length (st_r s) > 0 then Fail ErrMoreThanOneValue else Ok v)"

end
