(* ===== verification/RlpItem.thy ===== *)
theory RlpItem
  imports RlpEncode
begin

unbundle bit_operations_syntax

text \<open>
  What the encoder of theory \<open>RlpEncode\<close> produces.  \<open>rlp_str\<close> and \<open>rlp_list\<close> define the
  encoding directly; \<open>emits W bs\<close> says that the writer \<open>W\<close> appends to the buffer of string data
  and deferred list headers a fragment that merges to \<open>bs\<close>, whatever the buffer held before.
\<close>

section \<open>Sizes and integers\<close>

definition rlp_head :: "byte \<Rightarrow> byte \<Rightarrow> nat \<Rightarrow> byte list" where
  "rlp_head smalltag largetag n =
     (if n < 56 then [smalltag + word_of_nat n]
      else (largetag + word_of_nat (length (be_bytes n))) # be_bytes n)"

definition rlp_str :: "byte list \<Rightarrow> byte list" where
  "rlp_str b = (if length b = 1 \<and> hd b \<le> 0x7F then b else rlp_head 0x80 0xB7 (length b) @ b)"

definition rlp_list :: "byte list \<Rightarrow> byte list" where
  "rlp_list c = rlp_head 0xC0 0xF7 (length c) @ c"

lemma word_of_nat_unat: "(word_of_nat (unat (i :: u64)) :: byte) = ucast i"
  by (simp add: unsigned_word_eqI word_of_nat_eq_iff unsigned_ucast_eq)

lemma word_of_nat_unat_div: "(word_of_nat (unat i div 256 ^ j) :: byte) = ucast (drop_bit (8 * j) (i :: u64))"
proof -
  have "unat i div 256 ^ j = unat (drop_bit (8 * j) i)"
    unfolding unat_drop_bit_eq by (simp add: drop_bit_eq_div power_mult)
  then show ?thesis by (simp only: word_of_nat_unat)
qed

lemma be_pad_word: "be_pad k (unat (i :: u64)) = map (\<lambda>j. ucast (drop_bit (8 * j) i)) (rev [0..<k])"
  by (simp add: be_pad_def word_of_nat_unat_div)

lemma putint_be_pad:
  "putint i = be_pad (if i < 2 ^ 8 then 1 else if i < 2 ^ 16 then 2 else if i < 2 ^ 24 then 3
     else if i < 2 ^ 32 then 4 else if i < 2 ^ 40 then 5 else if i < 2 ^ 48 then 6
     else if i < 2 ^ 56 then 7 else 8) (unat i)"
  by (simp add: putint_def be_pad_word upt_rec numeral_eq_Suc del: upt_Suc)

lemma putint_be_bytes:
  assumes "i \<noteq> 0"
  shows "putint i = be_bytes (unat i)"
proof -
  have pos: "0 < unat i" using assms by (simp add: unat_gt_0)
  have bound: "unat i < 256 ^ 8" using unsigned_less [of i, where ?'a = nat] by simp
  have "be_pad k (unat i) = be_bytes (unat i)" if "unat i < 256 ^ k" "0 < k" "256 ^ (k - 1) \<le> unat i" for k
    using that by (intro be_pad_be_bytes) auto
  then show ?thesis
    unfolding putint_be_pad using pos bound by (simp add: word_less_nat_alt)
qed

lemma putint_size:
  assumes "0 < n" and "n < 2 ^ 64"
  shows "putint (word_of_nat n) = be_bytes n"
proof -
  have u: "unat (word_of_nat n :: u64) = n" using assms by (simp add: unat_of_nat)
  with assms have "(word_of_nat n :: u64) \<noteq> 0" by (metis less_numeral_extra(3) unsigned_0)
  then show ?thesis by (simp add: putint_be_bytes u)
qed

lemma intsize_loop_eq: "intsize_loop n i = n + length (be_bytes (unat i div 256))"
proof (induction n i rule: intsize_loop.induct)
  case (1 n i)
  have d: "unat (drop_bit 8 i) = unat i div 256"
    unfolding unat_drop_bit_eq by (simp add: drop_bit_eq_div)
  show ?case
  proof (cases "drop_bit 8 i = 0")
    case True
    with d have "unat i div 256 = 0" by (metis unsigned_0)
    with True show ?thesis by (subst intsize_loop.simps) (simp only: Let_def if_True be_bytes_0, simp)
  next
    case False
    with d have "unat i div 256 \<noteq> 0" by (metis unsigned_eq_0_iff)
    then have "length (be_bytes (unat i div 256)) = Suc (length (be_bytes (unat i div 256 div 256)))"
      by (subst be_bytes.simps) simp
    moreover from False have "intsize_loop n i = intsize_loop (n + 1) (drop_bit 8 i)"
      by (subst intsize_loop.simps) (simp only: Let_def if_False)
    ultimately show ?thesis using 1 [OF refl False] d by simp
  qed
qed

lemma intsize_eq: "i \<noteq> 0 \<Longrightarrow> intsize i = length (be_bytes (unat i))"
  using be_bytes.simps [of "unat i"] by (simp add: intsize_def intsize_loop_eq unsigned_eq_0_iff)

lemma length_rlp_head:
  assumes "n < 2 ^ 64"
  shows "length (rlp_head s l n) = (if n < 56 then 1 else 1 + intsize (word_of_nat n))"
proof -
  have u: "unat (word_of_nat n :: u64) = n" using assms by (simp add: unat_of_nat)
  then have "\<not> n < 56 \<Longrightarrow> (word_of_nat n :: u64) \<noteq> 0" by (metis unsigned_0 zero_less_numeral)
  then show ?thesis by (simp add: rlp_head_def intsize_eq u)
qed

lemma listhead_encode_eq:
  assumes "lh_size h < 2 ^ 64"
  shows "listhead_encode h = rlp_head 0xC0 0xF7 (lh_size h)"
proof -
  have u: "unat (word_of_nat (lh_size h) :: u64) = lh_size h" using assms by (simp add: unat_of_nat)
  then have "(word_of_nat (lh_size h) :: u64) < 56 \<longleftrightarrow> lh_size h < 56" by (simp add: word_less_nat_alt)
  then show ?thesis using assms word_of_nat_unat [of "word_of_nat (lh_size h)"] u
    by (simp add: listhead_encode_def puthead_def rlp_head_def Let_def putint_size)
qed

section \<open>Fragments\<close>

primrec render :: "listhead list \<Rightarrow> byte list \<Rightarrow> nat \<Rightarrow> byte list" where
  "render [] str p = drop p str"
| "render (h # hs) str p =
     take (lh_offset h - p) (drop p str) @ rlp_head 0xC0 0xF7 (lh_size h) @ render hs str (lh_offset h)"

definition shift_heads :: "nat \<Rightarrow> listhead list \<Rightarrow> listhead list" where
  "shift_heads k hs = map (\<lambda>h. h\<lparr>lh_offset := lh_offset h + k\<rparr>) hs"

primrec heads_ok :: "listhead list \<Rightarrow> nat \<Rightarrow> nat \<Rightarrow> bool" where
  "heads_ok [] p n \<longleftrightarrow> p \<le> n"
| "heads_ok (h # hs) p n \<longleftrightarrow> p \<le> lh_offset h \<and> heads_ok hs (lh_offset h) n"

lemma shift_heads_simps [simp]: "shift_heads k [] = []"
  "shift_heads k (h # hs) = h\<lparr>lh_offset := lh_offset h + k\<rparr> # shift_heads k hs"
  by (simp_all add: shift_heads_def)

lemma heads_ok_le: "heads_ok hs p n \<Longrightarrow> p \<le> n"
  by (induction hs arbitrary: p) (simp, fastforce)

lemma heads_ok_append:
  "heads_ok hs p m \<Longrightarrow> heads_ok hs' 0 n \<Longrightarrow> heads_ok (hs @ shift_heads m hs') p (m + n)"
proof (induction hs arbitrary: p)
  case Nil
  have "heads_ok hs' q n \<Longrightarrow> p \<le> q + m \<Longrightarrow> heads_ok (shift_heads m hs') p (m + n)" for q
    by (induction hs' arbitrary: p q) auto
  with Nil show ?case by fastforce
qed auto

lemma render_shift: "render (shift_heads (length s) hs) (s @ t) (p + length s) = render hs t p"
  by (induction hs arbitrary: p) auto

lemma render_append:
  "heads_ok hs p (length s) \<Longrightarrow> render (hs @ shift_heads (length s) hs') (s @ t) p = render hs s p @ render hs' t 0"
proof (induction hs arbitrary: p)
  case Nil
  then show ?case
    using render_shift [of s] by (cases hs') (auto simp: drop_append)
next
  case (Cons h hs)
  have "lh_offset h \<le> length s" using heads_ok_le Cons.prems by auto
  with Cons show ?case by simp
qed

text \<open>A fragment: string data, headers in order and inside it, and what the two merge to.\<close>

definition frag :: "byte list \<Rightarrow> listhead list \<Rightarrow> byte list \<Rightarrow> bool" where
  "frag s hs bs \<longleftrightarrow> heads_ok hs 0 (length s) \<and> render hs s 0 = bs \<and>
     (\<forall>h \<in> set hs. lh_size h \<le> length bs)"

lemma frag_Nil: "frag s [] s"
  by (simp add: frag_def)

lemma frag_append: "frag s hs bs \<Longrightarrow> frag t hs' cs \<Longrightarrow> frag (s @ t) (hs @ shift_heads (length s) hs') (bs @ cs)"
  unfolding frag_def by (auto simp: heads_ok_append render_append) (auto simp: shift_heads_def)

lemma frag_list: "frag s hs bs \<Longrightarrow> frag s (\<lparr>lh_offset = 0, lh_size = length bs\<rparr> # hs) (rlp_list bs)"
  by (auto simp: frag_def rlp_list_def)

definition emits :: "(encbuf, unit) action \<Rightarrow> byte list \<Rightarrow> bool" where
  "emits W bs \<longleftrightarrow> (length bs < 2 ^ 64 \<longrightarrow> (\<exists>s hs. frag s hs bs \<and> length s \<le> length bs \<and>
     (\<forall>eb. W eb = Ok ((), eb\<lparr>eb_str := eb_str eb @ s,
        eb_lheads := eb_lheads eb @ shift_heads (length (eb_str eb)) hs,
        eb_lhsize := eb_lhsize eb + (length bs - length s)\<rparr>))))"

named_theorems rlp_intros \<open>what the writers emit\<close>

lemma emits_Write: "b = bs \<Longrightarrow> emits (eb_Write b) bs"
  unfolding emits_def using frag_Nil [of b]
  by (intro impI exI [of _ b] exI [of _ "[]"]) (simp add: eb_Write_def)

lemma emits_Nil: "emits (seqs []) []"
  unfolding emits_def by (auto intro!: exI [of _ "[]"] frag_Nil simp: seqs.simps ret_def)

lemma shift_heads_append [simp]: "shift_heads k (hs @ hs') = shift_heads k hs @ shift_heads k hs'"
  and shift_heads_add [simp]: "shift_heads k (shift_heads j hs) = shift_heads (j + k) hs"
  by (auto simp: shift_heads_def)

lemma emits_andThen:
  assumes "emits W bs" and "emits V cs"
  shows "emits (andThen W (\<lambda>_. V)) (bs @ cs)"
  unfolding emits_def
proof
  assume len: "length (bs @ cs) < 2 ^ 64"
  with assms(1) obtain s hs where 1: "frag s hs bs" "length s \<le> length bs"
    "\<And>eb. W eb = Ok ((), eb\<lparr>eb_str := eb_str eb @ s, eb_lheads := eb_lheads eb @ shift_heads (length (eb_str eb)) hs,
        eb_lhsize := eb_lhsize eb + (length bs - length s)\<rparr>)"
    unfolding emits_def by auto
  from len assms(2) obtain t hs' where 2: "frag t hs' cs" "length t \<le> length cs"
    "\<And>eb. V eb = Ok ((), eb\<lparr>eb_str := eb_str eb @ t, eb_lheads := eb_lheads eb @ shift_heads (length (eb_str eb)) hs',
        eb_lhsize := eb_lhsize eb + (length cs - length t)\<rparr>)"
    unfolding emits_def by auto
  show "\<exists>u gs. frag u gs (bs @ cs) \<and> length u \<le> length (bs @ cs) \<and>
     (\<forall>eb. andThen W (\<lambda>_. V) eb = Ok ((), eb\<lparr>eb_str := eb_str eb @ u,
        eb_lheads := eb_lheads eb @ shift_heads (length (eb_str eb)) gs,
        eb_lhsize := eb_lhsize eb + (length (bs @ cs) - length u)\<rparr>))"
    using 1 2 by (intro exI [of _ "s @ t"] exI [of _ "hs @ shift_heads (length s) hs'"])
      (auto simp: frag_append andThen_def add.commute)
qed

lemma emits_Cons: "emits W bs \<Longrightarrow> emits (seqs Ws) cs \<Longrightarrow> emits (seqs (W # Ws)) (bs @ cs)"
  by (simp add: seqs.simps emits_andThen)

lemma emits_for_each:
  "(\<And>v. v \<in> set vs \<Longrightarrow> emits (W v) (enc v)) \<Longrightarrow> emits (for_each W vs) (concat (map enc vs))"
  unfolding for_each_def by (induction vs) (auto intro: emits_Nil emits_Cons)

lemma emits_list:
  assumes "emits W bs"
  shows "emits (andThen eb_list (\<lambda>lh. andThen W (\<lambda>_. eb_listEnd lh))) (rlp_list bs)"
  unfolding emits_def
proof
  assume "length (rlp_list bs) < 2 ^ 64"
  then have len: "length bs < 2 ^ 64" by (simp add: rlp_list_def)
  with assms obtain s hs where 1: "frag s hs bs" "length s \<le> length bs"
    "\<And>eb. W eb = Ok ((), eb\<lparr>eb_str := eb_str eb @ s, eb_lheads := eb_lheads eb @ shift_heads (length (eb_str eb)) hs,
        eb_lhsize := eb_lhsize eb + (length bs - length s)\<rparr>)"
    unfolding emits_def by auto
  let ?hs = "\<lparr>lh_offset = 0, lh_size = length bs\<rparr> # hs"
  have "andThen eb_list (\<lambda>lh. andThen W (\<lambda>_. eb_listEnd lh)) eb = Ok ((), eb\<lparr>eb_str := eb_str eb @ s,
        eb_lheads := eb_lheads eb @ shift_heads (length (eb_str eb)) ?hs,
        eb_lhsize := eb_lhsize eb + (length (rlp_list bs) - length s)\<rparr>)" for eb
    using 1(2) length_rlp_head [OF len, of "0xC0" "0xF7"]
    by (simp add: andThen_def 1(3) eb_list_def eb_listEnd_def eb_size_def Let_def nth_append rlp_list_def)
  moreover have "length s \<le> length (rlp_list bs)" using 1(2) by (simp add: rlp_list_def)
  ultimately show "\<exists>s hs. frag s hs (rlp_list bs) \<and> length s \<le> length (rlp_list bs) \<and>
     (\<forall>eb. andThen eb_list (\<lambda>lh. andThen W (\<lambda>_. eb_listEnd lh)) eb = Ok ((), eb\<lparr>eb_str := eb_str eb @ s,
        eb_lheads := eb_lheads eb @ shift_heads (length (eb_str eb)) hs,
        eb_lhsize := eb_lhsize eb + (length (rlp_list bs) - length s)\<rparr>))"
    using frag_list [OF 1(1)] by blast
qed

lemma emits_struct: "emits (seqs Ws) bs \<Longrightarrow> emits (makeStructWriter Ws) (rlp_list bs)"
  unfolding makeStructWriter_def by (rule emits_list)

lemma emits_slice:
  "(\<And>v. v \<in> set vs \<Longrightarrow> emits (W v) (enc v)) \<Longrightarrow> emits (makeSliceWriter W vs) (rlp_list (concat (map enc vs)))"
  unfolding makeSliceWriter_def by (intro emits_list emits_for_each)

section \<open>Merging\<close>

lemma toWriter_render:
  assumes "heads_ok hs p (length str)" and "\<forall>h \<in> set hs. lh_size h < 2 ^ 64"
  shows "toWriter_loop str hs p = render hs str p"
  using assms
proof (induction hs arbitrary: p)
  case (Cons h hs)
  then show ?case by (cases "lh_offset h = p") (auto simp: listhead_encode_eq)
qed auto

lemma copy_at_fresh: "copy_at (length a) b (a @ replicate (length b + k) 0) = (a @ b) @ replicate k 0"
  by (simp add: copy_at_def)

lemma toBytes_render:
  assumes "heads_ok hs p (length str)" and "\<forall>h \<in> set hs. lh_size h < 2 ^ 64"
    and "out = a @ replicate (length (render hs str p)) 0"
  shows "\<exists>q pos out'. toBytes_loop str hs p (length a) out = Ok (q, pos, out') \<and>
    copy_at pos (drop q str) out' = a @ render hs str p"
  using assms
proof (induction hs arbitrary: p a out)
  case Nil
  then show ?case by (simp add: copy_at_def)
next
  case (Cons h hs)
  let ?b = "take (lh_offset h - p) (drop p str)" and ?e = "listhead_encode h"
  have off: "p \<le> lh_offset h" "lh_offset h \<le> length str" using Cons.prems(1) heads_ok_le by auto
  have e: "?e = rlp_head 0xC0 0xF7 (lh_size h)" using Cons.prems(2) by (simp add: listhead_encode_eq)
  have lb: "length ?b = lh_offset h - p" using off by simp
  let ?r = "length (render hs str (lh_offset h))"
  have out: "out = a @ replicate (length ?b + (length ?e + ?r)) 0" using Cons.prems(3) e by simp
  have c1: "copy_at (length a) ?b out = (a @ ?b) @ replicate (length ?e + ?r) 0"
    unfolding out by (rule copy_at_fresh)
  have c2: "copy_at (length (a @ ?b)) ?e ((a @ ?b) @ replicate (length ?e + ?r) 0) = ((a @ ?b) @ ?e) @ replicate ?r 0"
    by (rule copy_at_fresh)
  obtain q pos out' where IH: "toBytes_loop str hs (lh_offset h) (length (a @ ?b @ ?e)) ((a @ ?b @ ?e) @ replicate ?r 0) = Ok (q, pos, out')"
      "copy_at pos (drop q str) out' = (a @ ?b @ ?e) @ render hs str (lh_offset h)"
    using Cons.IH [of "lh_offset h" _ "a @ ?b @ ?e"] Cons.prems by fastforce
  have "toBytes_loop str (h # hs) p (length a) out =
      toBytes_loop str hs (p + length ?b) (length a + length ?b + length ?e)
        (copy_at (length a + length ?b) ?e (copy_at (length a) ?b out))"
  proof -
    have lo: "length out = length a + (length ?b + (length ?e + ?r))" using out by simp
    then have "min (length ?b) (length out - length a) = length ?b"
      "(lh_offset h < p \<or> lh_offset h > length str \<or> length a > length out) = False"
      "(length a + length ?b + length ?e > length out) = False"
      using off by simp_all
    then show ?thesis by (simp only: toBytes_loop.simps Let_def if_False)
  qed
  also have "\<dots> = Ok (q, pos, out')"
    using IH(1) c1 c2 off lb by (simp add: add.assoc)
  finally show ?case using IH(2) e by simp
qed

lemma emits_encoded:
  assumes "emits W bs" and "length bs < 2 ^ 64"
  shows "EncodeToBytes W = Ok bs" and "rlp_Encode W = Ok bs"
proof -
  from assms obtain s hs where 1: "frag s hs bs" "length s \<le> length bs"
    "\<And>eb. W eb = Ok ((), eb\<lparr>eb_str := eb_str eb @ s, eb_lheads := eb_lheads eb @ shift_heads (length (eb_str eb)) hs,
        eb_lhsize := eb_lhsize eb + (length bs - length s)\<rparr>)"
    unfolding emits_def by auto
  have W: "W eb_reset = Ok ((), \<lparr>eb_str = s, eb_lheads = hs, eb_lhsize = length bs - length s\<rparr>)"
    using 1(3) by (simp add: eb_reset_def shift_heads_def)
  have f: "heads_ok hs 0 (length s)" "\<forall>h \<in> set hs. lh_size h < 2 ^ 64" "render hs s 0 = bs"
    using 1(1) assms(2) by (auto simp: frag_def)
  show "rlp_Encode W = Ok bs"
    using f W by (simp add: rlp_Encode_def eb_toWriter_def toWriter_render)
  show "EncodeToBytes W = Ok bs"
    using toBytes_render [OF f(1,2), of "replicate (length bs) 0" "[]"] f(3) 1(2) W
    by (auto simp: EncodeToBytes_def eb_toBytes_def eb_size_def)
qed

section \<open>What the writers emit\<close>

lemma emits_encodeStringHeader: "n < 2 ^ 64 \<Longrightarrow> emits (encodeStringHeader n) (rlp_head 0x80 0xB7 n)"
  unfolding encodeStringHeader_def rlp_head_def by (auto intro!: emits_Write simp: putint_size Let_def)

lemma emits_weaken: "(length bs < 2 ^ 64 \<Longrightarrow> emits W bs) \<Longrightarrow> emits W bs"
  unfolding emits_def by blast

lemma emits_header_bytes: "emits (seqs [encodeStringHeader (length b), eb_Write b]) (rlp_head 0x80 0xB7 (length b) @ b)"
proof (rule emits_weaken)
  assume "length (rlp_head 0x80 0xB7 (length b) @ b) < 2 ^ 64"
  then have "length b < 2 ^ 64" by simp
  then show ?thesis
    using emits_Cons [OF emits_encodeStringHeader emits_Cons [OF emits_Write [OF refl] emits_Nil]] by simp
qed

lemma emits_encodeString: "emits (encodeString b) (rlp_str b)"
  unfolding encodeString_def rlp_str_def
  by (auto intro!: emits_Write emits_header_bytes simp: length_Suc_conv)

lemma rlp_str_small: "length (be_bytes n) \<le> 8 \<Longrightarrow> 128 \<le> n \<Longrightarrow>
    rlp_str (be_bytes n) = (0x80 + word_of_nat (length (be_bytes n))) # be_bytes n"
proof -
  assume len: "length (be_bytes n) \<le> 8" and n: "128 \<le> n"
  have "\<not> (length (be_bytes n) = 1 \<and> hd (be_bytes n) \<le> 0x7F)"
  proof
    assume a: "length (be_bytes n) = 1 \<and> hd (be_bytes n) \<le> 0x7F"
    then obtain b where b: "be_bytes n = [b]" by (auto simp: length_Suc_conv)
    then have "n = unat b" using be_num_be_bytes [of n] by (simp add: be_num_Cons)
    moreover have "unat b \<le> 127" using a b by (simp add: word_le_nat_alt)
    ultimately show False using n by simp
  qed
  with len show ?thesis by (simp add: rlp_str_def rlp_head_def)
qed

lemma be_bytes_byte: "0 < n \<Longrightarrow> n < 256 \<Longrightarrow> be_bytes n = [word_of_nat n]"
  by (simp add: be_bytes.simps [of n])

lemma emits_encodeUint: "emits (encodeUint i) (rlp_str (be_bytes (unat i)))"
proof -
  have lt: "i < 128 \<longleftrightarrow> unat i < 128" by (simp add: word_less_nat_alt)
  consider (zero) "i = 0" | (one) "i \<noteq> 0" "unat i < 128" | (more) "i \<noteq> 0" "128 \<le> unat i" by linarith
  then show ?thesis
  proof cases
    case zero
    then show ?thesis by (auto intro!: emits_Write simp: encodeUint_def rlp_str_def rlp_head_def)
  next
    case one
    then have "unat (ucast i :: byte) = unat i"
      by (simp add: unsigned_ucast_eq take_bit_nat_eq_self)
    with one have "(ucast i :: byte) \<le> 0x7F" by (simp add: word_le_nat_alt)
    moreover have "be_bytes (unat i) = [ucast i]"
      using one be_bytes_byte [of "unat i"] by (simp add: word_of_nat_unat unat_gt_0)
    ultimately show ?thesis
      using one lt by (auto intro!: emits_Write simp: encodeUint_def rlp_str_def)
  next
    case more
    have "length (be_bytes (unat i)) \<le> 8"
      using unsigned_less [of i, where ?'a = nat] by (intro length_be_bytes) simp
    with more lt show ?thesis
      by (auto intro!: emits_Write simp: encodeUint_def Let_def putint_be_bytes rlp_str_small)
  qed
qed

lemma BitLen_bounds: "n < 2 ^ big_BitLen n" "n \<noteq> 0 \<Longrightarrow> 2 ^ (big_BitLen n - 1) \<le> n"
proof (induction n rule: big_BitLen.induct)
  case (1 n)
  {
    case 1
    show ?case using "1.IH"(1) by (subst big_BitLen.simps) auto
  next
    case 2
    have "2 ^ big_BitLen (n div 2) \<le> n"
    proof (cases "n div 2 = 0")
      case True
      then show ?thesis using 2 by (simp add: big_BitLen.simps)
    next
      case False
      then have "0 < big_BitLen (n div 2)" by (simp add: big_BitLen.simps)
      with False "1.IH"(2) [OF 2] show ?thesis
        by (cases "big_BitLen (n div 2)") auto
    qed
    with 2 show ?case by (subst big_BitLen.simps) simp
  }
qed

lemma length_be_bytes_BitLen: "length (be_bytes n) = (big_BitLen n + 7) div 8"
proof (cases "n = 0")
  case True
  then show ?thesis by (simp add: big_BitLen.simps)
next
  case False
  let ?k = "(big_BitLen n + 7) div 8"
  have b: "0 < big_BitLen n" using False by (simp add: big_BitLen.simps)
  have "n < 2 ^ (8 * ?k)"
    by (rule less_le_trans [OF BitLen_bounds(1)], rule power_increasing) auto
  then have "length (be_bytes n) \<le> ?k" by (intro length_be_bytes) (simp add: power_mult)
  moreover have "(2 :: nat) ^ (8 * (?k - 1)) \<le> n"
    by (rule order_trans [OF power_increasing BitLen_bounds(2) [OF False]]) (use b in auto)
  then have "?k - 1 < length (be_bytes n)" by (intro length_be_bytes_ge) (simp add: power_mult)
  moreover have "0 < ?k" using b by auto
  ultimately show ?thesis by linarith
qed

lemma fill_word_eq:
  "fill_word j d k (replicate k 0 @ suf) =
    (k - min j k, replicate (k - min j k) 0 @ be_pad (min j k) (unat d) @ suf)"
proof (induction j arbitrary: d k suf)
  case (Suc j)
  show ?case
  proof (cases k)
    case (Suc k')
    have "(replicate k 0 @ suf)[k - 1 := ucast d] = replicate k' 0 @ ucast d # suf"
      using Suc by (simp add: list_update_append replicate_append_same [symmetric])
    moreover have "be_pad (min (Suc j) k) (unat d) = be_pad (min j k') (unat (drop_bit 8 d)) @ [ucast d]"
      unfolding unat_drop_bit_eq using Suc by (simp add: be_pad_Suc word_of_nat_unat drop_bit_eq_div)
    ultimately show ?thesis using Suc Suc.IH [of "drop_bit 8 d" k' "ucast d # suf"] by simp
  qed simp
qed simp

lemma be_pad_low: "be_pad k (n mod 256 ^ m) = be_pad k n" if "k \<le> m"
proof -
  have "(word_of_nat (n mod 256 ^ m div 256 ^ j) :: byte) = word_of_nat (n div 256 ^ j)" if "j < k" for j
  proof -
    have "n mod 256 ^ m div 256 ^ j mod 256 = n div 256 ^ j mod 256"
    proof -
      have "m = j + Suc (m - j - 1)" using that \<open>k \<le> m\<close> by simp
      then have "(256 :: nat) ^ m = 256 ^ j * (256 * 256 ^ (m - j - 1))" by (metis power_Suc power_add)
      then have "n mod 256 ^ m div 256 ^ j = n div 256 ^ j mod (256 * 256 ^ (m - j - 1))"
        by (simp add: mod_mult2_eq)
      then show ?thesis by (simp add: mod_mod_cancel)
    qed
    then show ?thesis by (metis word_of_nat_mod_256)
  qed
  then show ?thesis by (simp add: be_pad_def)
qed

lemma fill_words_eq: "n < 256 ^ k \<Longrightarrow> fill_words (big_Bits n) k (replicate k 0 @ suf) = be_pad k n @ suf"
proof (induction n arbitrary: k suf rule: big_Bits.induct)
  case (1 n)
  show ?case
  proof (cases "n = 0")
    case True
    then show ?thesis by (simp add: big_Bits.simps be_pad_eq)
  next
    case False
    let ?m = "min 8 k" and ?d = "word_of_nat n :: u64"
    have d: "be_pad ?m (unat ?d) = be_pad ?m n"
      using be_pad_low [of ?m 8 n] by (simp add: unat_of_nat)
    have "n < 256 ^ (8 + (k - ?m))"
      by (rule less_le_trans [OF "1.prems"], rule power_increasing) auto
    then have "n < 256 ^ 8 * 256 ^ (k - ?m)" by (simp only: power_add)
    then have "n div 2 ^ 64 < 256 ^ (k - ?m)" by (simp add: less_mult_imp_div_less mult.commute)
    from "1.IH" [OF False this] have IH: "fill_words (big_Bits (n div 2 ^ 64)) (k - ?m) (replicate (k - ?m) 0 @ be_pad ?m n @ suf)
        = be_pad (k - ?m) (n div 2 ^ 64) @ be_pad ?m n @ suf" .
    have "be_pad (k - ?m) (n div 2 ^ 64) @ be_pad ?m n = be_pad k n"
      using be_pad_append [of "k - 8" 8 n] by (cases "k \<le> 8") simp_all
    moreover have "fill_words (big_Bits n) k (replicate k 0 @ suf) =
        fill_words (big_Bits (n div 2 ^ 64)) (k - ?m) (replicate (k - ?m) 0 @ be_pad ?m n @ suf)"
      using False d by (subst big_Bits.simps) (simp only: if_False fill_words.simps fill_word_eq Let_def prod.case)
    ultimately show ?thesis using IH by (metis append_assoc)
  qed
qed

lemma emits_writeBigInt:
  assumes "0 \<le> i"
  shows "emits (writeBigInt i) (rlp_str (be_bytes (nat i)))"
proof -
  let ?n = "nat i" and ?l = "(big_BitLen (nat i) + 7) div 8"
  have len: "length (be_bytes ?n) = ?l" by (rule length_be_bytes_BitLen)
  show ?thesis
  proof (cases "big_BitLen ?n \<le> 64")
    case True
    have "?n < 2 ^ 64" by (rule less_le_trans [OF BitLen_bounds(1)], rule power_increasing) (use True in auto)
    then have "unat (word_of_nat ?n :: u64) = ?n" by (simp add: unat_of_nat)
    then show ?thesis
      using emits_encodeUint [of "word_of_nat ?n"] True assms by (simp add: writeBigInt_def Let_def)
  next
    case False
    have lt: "?n < 256 ^ ?l" using be_num_bound [of "be_bytes ?n"] len by simp
    then have "fill_words (big_Bits ?n) ?l (replicate ?l 0) = be_bytes ?n"
      using fill_words_eq [OF lt, of "[]"] len by (simp add: be_pad_eq)
    moreover have "rlp_str (be_bytes ?n) = rlp_head 0x80 0xB7 (length (be_bytes ?n)) @ be_bytes ?n"
    proof -
      have "?l \<noteq> 1" using False by auto
      then show ?thesis using len by (simp add: rlp_str_def)
    qed
    ultimately show ?thesis
      using emits_header_bytes [of "be_bytes ?n"] False assms len by (simp add: writeBigInt_def Let_def)
  qed
qed

lemma emits_writeUint: "emits (writeUint i) (rlp_str (be_bytes (unat i)))"
  unfolding writeUint_def by (rule emits_encodeUint)

lemma emits_writeBool: "emits (writeBool b) (rlp_str (if b then [1] else []))"
  by (auto intro!: emits_Write simp: writeBool_def rlp_str_def rlp_head_def)

lemma emits_writeBytes: "emits (writeBytes b) (rlp_str b)"
  unfolding writeBytes_def by (rule emits_encodeString)

lemma emits_writeByteArray: "emits (writeByteArray b) (rlp_str b)"
proof -
  consider "b = []" | c where "b = [c]" | "1 < length b" by (cases b; cases "tl b") auto
  then show ?thesis
  proof cases
    case 3
    then show ?thesis using emits_header_bytes [of b] by (auto simp: writeByteArray_def rlp_str_def)
  qed (auto intro!: emits_Write simp: writeByteArray_def rlp_str_def rlp_head_def)
qed

lemma emits_nil_list: "emits (andThen eb_list eb_listEnd) (rlp_list [])"
  using emits_list [OF emits_Nil] by (simp add: seqs.simps andThen_ret)

lemma emits_ptr:
  "(\<And>v. x = Some v \<Longrightarrow> emits (W v) (enc v)) \<Longrightarrow>
    emits (makePtrWriter k W x) (case x of None \<Rightarrow> (if k = String then rlp_str [] else rlp_list []) | Some v \<Rightarrow> enc v)"
  unfolding makePtrWriter_def
  by (cases x) (auto intro!: emits_Write emits_nil_list simp: rlp_str_def rlp_head_def)

lemmas [rlp_intros] = emits_Nil emits_Cons emits_struct emits_slice emits_writeUint emits_writeBool emits_writeBytes
  emits_writeByteArray emits_writeBigInt emits_ptr

end
