(* ===== verification/RlpCodec.thy ===== *)
theory RlpCodec
  imports RlpDecode RlpItem
begin

text \<open>
  The decoding stream against the encoding of theory \<open>RlpItem\<close>.  \<open>decodes D bs v\<close>: on input that
  starts with \<open>bs\<close> the decoder \<open>D\<close> returns \<open>v\<close> and stops behind \<open>bs\<close>.  \<open>exact D enc\<close>: whenever
  \<open>D\<close> returns a value \<open>v\<close>, what it has consumed is \<open>enc v\<close>; such a decoder accepts no second
  encoding of a value.
\<close>

section \<open>Positions in the stream\<close>

definition fits :: "nat \<Rightarrow> u64 list \<Rightarrow> bool" where
  "fits n ls \<longleftrightarrow> (case ls of [] \<Rightarrow> True | l # _ \<Rightarrow> n \<le> unat l)"

text \<open>
  The limit of a list after \<open>n\<close> bytes, in the arithmetic of the code: the check of a list header
  against the enclosing list uses the limit from before the header, so the subtraction may wrap.
\<close>

definition sub_top :: "nat \<Rightarrow> u64 list \<Rightarrow> u64 list" where
  "sub_top n ls = (case ls of [] \<Rightarrow> [] | l # ls' \<Rightarrow> (l - word_of_nat n) # ls')"

definition base :: "rlp_stream \<Rightarrow> byte list \<Rightarrow> u64 list \<Rightarrow> bool" where
  "base s ys ls \<longleftrightarrow> st_r s = ys \<and> st_limited s \<and> unat (st_remaining s) = length ys \<and> st_stack s = ls"

definition at :: "rlp_stream \<Rightarrow> byte list \<Rightarrow> u64 list \<Rightarrow> bool" where
  "at s ys ls \<longleftrightarrow> st_kind s = None \<and> base s ys ls"

definition consume :: "nat \<Rightarrow> rlp_stream \<Rightarrow> rlp_stream" where
  "consume n s = s\<lparr>st_kind := None, st_r := drop n (st_r s), st_remaining := st_remaining s - word_of_nat n,
     st_stack := sub_top n (st_stack s)\<rparr>"

lemma fits_simps [simp]: "fits n []" "fits n (l # ls) \<longleftrightarrow> n \<le> unat l" "fits 0 ls"
  and sub_top_simps [simp]: "sub_top n [] = []" "sub_top n (l # ls) = (l - word_of_nat n) # ls" "sub_top 0 ls = ls"
    "sub_top n (sub_top m ls) = sub_top (m + n) ls"
  by (simp_all add: fits_def sub_top_def algebra_simps split: list.split)

lemma unat_sub_word: "n \<le> unat x \<Longrightarrow> unat (x - word_of_nat n :: u64) = unat x - n"
proof -
  assume n: "n \<le> unat x"
  then have u: "unat (word_of_nat n :: u64) = n"
    using unsigned_less [of x, where ?'a = nat] by (simp add: unat_of_nat)
  with n have "(word_of_nat n :: u64) \<le> x" by (simp add: word_le_nat_alt)
  then show ?thesis using u by (simp add: unat_sub)
qed

lemma fits_add: "fits (m + n) ls \<longleftrightarrow> fits m ls \<and> fits n (sub_top m ls)"
  by (auto simp: fits_def sub_top_def unat_sub_word split: list.split)

lemma base_length: "base s ys ls \<Longrightarrow> length ys < 2 ^ 64"
  using unsigned_less [of "st_remaining s", where ?'a = nat] by (simp add: base_def)

lemma at_consume:
  assumes "base s ys ls" and "n \<le> length ys"
  shows "at (consume n s) (drop n ys) (sub_top n ls)"
  using assms unfolding at_def base_def consume_def by (auto simp: unat_sub_word)

lemma consume_consume: "consume n (consume m s) = consume (m + n) s"
  by (simp add: consume_def algebra_simps)

lemma consume_byteval: "(consume n s)\<lparr>st_byteval := b\<rparr> = consume n (s\<lparr>st_byteval := b\<rparr>)"
  by (simp add: consume_def)

lemma willRead_eq:
  assumes "base s ys ls" and "n < 2 ^ 64"
  shows "willRead (word_of_nat n) s =
    (if \<not> fits n ls then Fail ErrElemTooLarge
     else if length ys < n then Fail ErrValueTooLarge
     else Ok ((), (consume n s)\<lparr>st_r := st_r s\<rparr>))"
proof -
  have u: "unat (word_of_nat n :: u64) = n" using assms(2) by (simp add: unat_of_nat)
  show ?thesis
    using assms(1) u unfolding base_def
    by (cases ls) (auto simp: willRead_def listLimit_def consume_def Let_def word_less_nat_alt)
qed

lemma readFull_eq:
  assumes "base s ys ls" and "n < 2 ^ 64"
  shows "readFull n s =
    (if \<not> fits n ls then Fail ErrElemTooLarge
     else if length ys < n then Fail ErrValueTooLarge
     else Ok (take n ys, consume n s))"
  using assms(1) willRead_eq [OF assms]
  by (auto simp: readFull_def andThen_def base_def consume_def)

lemma readByte_eq:
  assumes "base s ys ls"
  shows "stream_readByte s =
    (if \<not> fits 1 ls then Fail ErrElemTooLarge
     else if ys = [] then Fail ErrValueTooLarge
     else Ok (hd ys, consume 1 s))"
  using assms willRead_eq [OF assms, of 1]
  by (cases ys) (auto simp: stream_readByte_def andThen_def base_def consume_def)

lemma readUint_Ok:
  assumes "base s ys ls" and "1 \<le> unat m" and "unat m \<le> 8"
  shows "readUint m s = Ok (v, s') \<longleftrightarrow> fits (unat m) ls \<and> unat m \<le> length ys \<and>
    v = word_of_nat (be_num (take (unat m) ys)) \<and> s' = consume (unat m) s \<and> (unat m = 1 \<or> hd ys \<noteq> 0)"
proof (cases "m = 1")
  case True
  then show ?thesis
    using readByte_eq [OF assms(1)]
    by (cases ys) (auto simp: readUint_def andThen_def ret_def be_num_Cons)
next
  case False
  have "m \<noteq> 0" using assms(2) by auto
  moreover have "\<not> m > 8" using assms(3) by (simp add: word_less_nat_alt)
  moreover have "unat m \<noteq> 1" using False by (metis unsigned_1 unsigned_word_eqI)
  moreover have "hd (take (unat m) ys) = hd ys" using assms(2) by (cases ys; cases "unat m") auto
  ultimately show ?thesis
    using False readFull_eq [OF assms(1), of "unat m"] assms(3)
    by (auto simp: readUint_def andThen_def ret_def throw_def)
qed

section \<open>Headers\<close>

fun small_tag :: "Kind \<Rightarrow> byte" where "small_tag List = 0xC0" | "small_tag _ = 0x80"

fun large_tag :: "Kind \<Rightarrow> byte" where "large_tag List = 0xF7" | "large_tag _ = 0xB7"

abbreviation head_of :: "Kind \<Rightarrow> nat \<Rightarrow> byte list" where
  "head_of k n \<equiv> rlp_head (small_tag k) (large_tag k) n"

lemma unat_byte_add: "unat c + n < 256 \<Longrightarrow> unat (c + word_of_nat n :: byte) = unat c + n"
proof -
  assume "unat c + n < 256"
  moreover have "c + word_of_nat n = word_of_nat (unat c + n)" by simp
  ultimately show ?thesis by (simp only:) (simp add: unat_of_nat del: of_nat_add)
qed

lemma byte_diff: "c \<le> b \<Longrightarrow> (c :: byte) + word_of_nat (unat b - unat c) = b"
  by (simp add: word_le_nat_alt of_nat_diff)

lemma unat_ucast_byte: "unat (ucast (b :: byte) :: u64) = unat b"
  using unsigned_less [of b, where ?'a = nat] by (simp add: unsigned_ucast_eq take_bit_nat_eq_self)

text \<open>A long header, read after its first byte.\<close>

lemma long_size_Ok:
  assumes "base s ys ls" and "1 \<le> unat m" and "unat m \<le> 8"
  shows "andThen (readUint m) (\<lambda>sz. if sz < 56 then throw ErrCanonSize else ret (k, sz)) s = Ok ((k', sz), s') \<longleftrightarrow>
    k' = k \<and> 56 \<le> unat sz \<and> length (be_bytes (unat sz)) = unat m \<and> fits (unat m) ls \<and>
    (\<exists>r. ys = be_bytes (unat sz) @ r) \<and> s' = consume (unat m) s"
  (is "?L \<longleftrightarrow> ?R")
proof
  assume ?L
  then have *: "readUint m s = Ok (sz, s')" "k' = k" "\<not> sz < 56"
    by (auto simp: andThen_eq_Ok throw_def ret_def split: if_splits)
  let ?b = "take (unat m) ys"
  from * have b: "fits (unat m) ls" "unat m \<le> length ys" "sz = word_of_nat (be_num ?b)" "s' = consume (unat m) s"
    "unat m = 1 \<or> hd ys \<noteq> 0"
    using readUint_Ok [OF assms] by auto
  have len: "length ?b = unat m" using b(2) by simp
  have "be_num ?b < 256 ^ unat m" using be_num_bound [of ?b] len by simp
  also have "\<dots> \<le> 256 ^ 8" by (rule power_increasing) (use assms(3) in auto)
  finally have u: "unat sz = be_num ?b" using b(3) by (simp add: unat_of_nat)
  have big: "56 \<le> unat sz" using *(3) by (simp add: word_less_nat_alt)
  have "hd ?b \<noteq> 0"
  proof
    assume z: "hd ?b = 0"
    have "hd ?b = hd ys" using assms(2) by (cases ys; cases "unat m") auto
    with z b(5) len have "length ?b = 1" by simp
    then obtain c where "?b = [c]" by (cases ?b) auto
    with z u big show False by (simp add: be_num_Cons)
  qed
  then have bb: "be_bytes (unat sz) = ?b" by (simp add: u be_bytes_be_num)
  then have "ys = be_bytes (unat sz) @ drop (unat m) ys" by simp
  then have "\<exists>r. ys = be_bytes (unat sz) @ r" by blast
  then show ?R using *(2) b(1,4) bb len big by simp
next
  assume R: ?R
  then obtain r where ys: "ys = be_bytes (unat sz) @ r" by blast
  have "take (unat m) ys = be_bytes (unat sz)" using R ys by simp
  moreover have "hd ys \<noteq> 0" using hd_be_bytes [of "unat sz"] R ys by (cases "be_bytes (unat sz)") auto
  ultimately have "readUint m s = Ok (sz, s')"
    using readUint_Ok [OF assms, of sz s'] R ys by simp
  with R show ?L by (simp add: andThen_def ret_def word_less_nat_alt)
qed

lemma head_of_short: "n < 56 \<Longrightarrow> head_of k n = [small_tag k + word_of_nat n]"
  and head_of_long: "56 \<le> n \<Longrightarrow> head_of k n = (large_tag k + word_of_nat (length (be_bytes n))) # be_bytes n"
  by (simp_all add: rlp_head_def)

lemma length_be_bytes_size: "length (be_bytes (unat (sz :: u64))) \<le> 8"
  using unsigned_less [of sz, where ?'a = nat] by (intro length_be_bytes) simp

lemma length_be_bytes_pos: "0 < n \<Longrightarrow> 1 \<le> length (be_bytes n)"
  by (cases "be_bytes n") auto

text \<open>The first byte of a header, by the range it falls in.\<close>

lemma tag_ranges:
  assumes "k \<noteq> Byte"
  shows "n < 56 \<Longrightarrow> unat (small_tag k + word_of_nat n) = unat (small_tag k) + n"
    and "m \<le> 8 \<Longrightarrow> unat (large_tag k + word_of_nat m) = unat (large_tag k) + m"
  using assms by (cases k; simp add: unat_byte_add)+

lemma readKind_byte:
  assumes "base s ys ls" and "ys = b # r" and "b < 0x80" and "fits 1 ls"
  shows "stream_readKind s = Ok ((Byte, 0), (consume 1 s)\<lparr>st_byteval := b\<rparr>)"
  using assms readByte_eq [OF assms(1)]
  by (simp add: stream_readKind_def adjust_eof_def Let_def)

lemma readKind_head:
  assumes "base s ys ls" and "k \<noteq> Byte" and "ys = head_of k (unat sz) @ r"
    and "fits (length (head_of k (unat sz))) ls"
  shows "stream_readKind s = Ok ((k, sz), (consume (length (head_of k (unat sz))) s)\<lparr>st_byteval := 0\<rparr>)"
proof -
  let ?n = "unat sz"
  have "1 \<le> length (head_of k ?n)" by (simp add: rlp_head_def)
  then have f1: "fits 1 ls" using assms(4) by (auto simp: fits_def split: list.splits)
  have rb: "stream_readByte s = Ok (hd ys, consume 1 s)" "ys \<noteq> []"
    using readByte_eq [OF assms(1)] f1 assms(3) by (auto simp: rlp_head_def)
  show ?thesis
  proof (cases "?n < 56")
    case True
    then have hd: "hd ys = small_tag k + word_of_nat ?n" using assms(3) by (simp add: head_of_short)
    then have u: "unat (hd ys) = unat (small_tag k) + ?n" using tag_ranges(1) [OF assms(2) True] by simp
    have "unat (ucast sz :: byte) = unat sz" using True by (simp add: unsigned_ucast_eq take_bit_nat_eq_self)
    then have "unat (ucast (hd ys - small_tag k) :: u64) = unat sz" by (simp add: hd unat_ucast_byte)
    then have "ucast (hd ys - small_tag k) = sz" by (rule unsigned_word_eqI)
    with True u assms(2) rb show ?thesis
      by (cases k) (simp_all add: stream_readKind_def adjust_eof_def Let_def word_less_nat_alt rlp_head_def)
  next
    case False
    let ?m = "length (be_bytes ?n)"
    have m: "1 \<le> ?m" "?m \<le> 8" using False length_be_bytes_pos [of ?n] length_be_bytes_size [of sz] by auto
    have hd: "hd ys = large_tag k + word_of_nat ?m" and tl: "tl ys = be_bytes ?n @ r" using False assms(3) by (simp_all add: head_of_long)
    then have u: "unat (hd ys) = unat (large_tag k) + ?m" using tag_ranges(2) [OF assms(2) m(2)] by simp
    have um: "unat (hd ys - large_tag k) = ?m" using m by (simp add: hd unat_of_nat)
    have b1: "base ((consume 1 s)\<lparr>st_byteval := 0\<rparr>) (tl ys) (sub_top 1 ls)"
      using at_consume [OF assms(1), of 1] rb(2) by (cases ys) (auto simp: at_def base_def)
    have f: "fits ?m (sub_top 1 ls)" using assms(4) False fits_add [of 1 ?m ls] by (simp add: head_of_long)
    have "andThen (readUint (hd ys - large_tag k)) (\<lambda>sz. if sz < 56 then throw ErrCanonSize else ret (k, sz))
        ((consume 1 s)\<lparr>st_byteval := 0\<rparr>) = Ok ((k, sz), consume ?m ((consume 1 s)\<lparr>st_byteval := 0\<rparr>))"
    proof -
      have m': "1 \<le> unat (hd ys - large_tag k)" "unat (hd ys - large_tag k) \<le> 8" using m um by simp_all
      show ?thesis unfolding long_size_Ok [OF b1 m'] um using f tl False by auto
    qed
    moreover have "consume ?m ((consume 1 s)\<lparr>st_byteval := 0\<rparr>) = (consume (Suc ?m) s)\<lparr>st_byteval := 0\<rparr>"
      by (simp add: consume_byteval consume_consume)
    moreover have "stream_readKind s = andThen (readUint (hd ys - large_tag k))
        (\<lambda>sz. if sz < 56 then throw ErrCanonSize else ret (k, sz)) ((consume 1 s)\<lparr>st_byteval := 0\<rparr>)"
      using False u m assms(2) rb
      by (cases k) (auto simp add: stream_readKind_def adjust_eof_def Let_def word_less_nat_alt cong del: if_weak_cong)
    moreover have "length (head_of k ?n) = Suc ?m" using False by (simp add: head_of_long)
    ultimately show ?thesis by metis
  qed
qed

lemma readKind_Ok:
  assumes "base s ys ls" and "stream_readKind s = Ok ((k, sz), s')"
  shows "(k = Byte \<and> sz = 0 \<and> (\<exists>b r. ys = b # r \<and> b < 0x80 \<and> fits 1 ls \<and> s' = (consume 1 s)\<lparr>st_byteval := b\<rparr>)) \<or>
    (k \<noteq> Byte \<and> (\<exists>r. ys = head_of k (unat sz) @ r) \<and> fits (length (head_of k (unat sz))) ls \<and>
      s' = (consume (length (head_of k (unat sz))) s)\<lparr>st_byteval := 0\<rparr>)"
proof -
  from assms(2) obtain b s0 where b: "stream_readByte s = Ok (b, s0)"
    by (cases "stream_readByte s") (auto simp: stream_readKind_def adjust_eof_def split: if_splits)
  then have f1: "fits 1 ls" and s0: "s0 = consume 1 s" and "ys \<noteq> []" "hd ys = b"
    using readByte_eq [OF assms(1)] by (auto split: if_splits)
  then obtain yt where ys: "ys = b # yt" by (cases ys) auto
  let ?s1 = "s0\<lparr>st_byteval := 0\<rparr>"
  note rk = assms(2) [unfolded stream_readKind_def b adjust_eof_def outcome.case bind_outcome.simps prod.case Let_def]
  have short: "k \<noteq> Byte \<and> ys = head_of k (unat sz) @ yt \<and> length (head_of k (unat sz)) = 1"
    if "k \<noteq> Byte" "small_tag k \<le> b" "unat b < unat (small_tag k) + 56" "sz = ucast (b - small_tag k)"
  proof -
    have d: "unat (b - small_tag k) = unat b - unat (small_tag k)" using that(2) by (rule unat_sub)
    then have n: "unat sz = unat b - unat (small_tag k)" using that by (simp add: unat_ucast_byte)
    then have "unat sz < 56" using that(3) by linarith
    moreover have "small_tag k + word_of_nat (unat sz) = b" using n byte_diff [OF that(2)] by simp
    ultimately show ?thesis using ys that(1) by (simp add: head_of_short)
  qed
  have "1 \<le> length ys" using ys by simp
  from at_consume [OF assms(1) this] have b1: "base ?s1 yt (sub_top 1 ls)"
    by (simp add: at_def base_def s0 ys)
  have long: "k = K \<and> (\<exists>r. ys = head_of K (unat sz) @ r) \<and> fits (length (head_of K (unat sz))) ls \<and>
      s' = (consume (length (head_of K (unat sz))) s)\<lparr>st_byteval := 0\<rparr>"
    if "K \<noteq> Byte" "large_tag K < b" "unat b \<le> unat (large_tag K) + 8"
      "andThen (readUint (b - large_tag K)) (\<lambda>sz. if sz < 56 then throw ErrCanonSize else ret (K, sz)) ?s1 = Ok ((k, sz), s')" for K
  proof -
    have le: "large_tag K \<le> b" using that(2) by simp
    have um: "unat (b - large_tag K) = unat b - unat (large_tag K)" using le by (rule unat_sub)
    have "1 \<le> unat (b - large_tag K)" "unat (b - large_tag K) \<le> 8"
      using that(2,3) um by (auto simp: word_less_nat_alt)
    from that(4) [unfolded long_size_Ok [OF b1 this]]
    have l: "k = K" "56 \<le> unat sz" "length (be_bytes (unat sz)) = unat b - unat (large_tag K)"
        "fits (unat b - unat (large_tag K)) (sub_top 1 ls)" "\<exists>r. yt = be_bytes (unat sz) @ r"
        "s' = consume (unat b - unat (large_tag K)) ?s1"
      unfolding um by auto
    have "large_tag K + word_of_nat (length (be_bytes (unat sz))) = b" using l(3) byte_diff [OF le] by simp
    then have hd: "head_of K (unat sz) = b # be_bytes (unat sz)" using l(2) by (simp add: head_of_long)
    have "fits (1 + (unat b - unat (large_tag K))) ls" unfolding fits_add using l(4) f1 by blast
    then have "fits (length (head_of K (unat sz))) ls" using hd l(3) by simp
    moreover have "s' = (consume (length (head_of K (unat sz))) s)\<lparr>st_byteval := 0\<rparr>"
      using l(3,6) hd s0 by (simp add: consume_byteval consume_consume)
    moreover have "\<exists>r. ys = head_of K (unat sz) @ r" using l(5) ys hd by auto
    ultimately show ?thesis using l(1) by blast
  qed
  have lts: "b < 0x80 \<longleftrightarrow> unat b < 0x80" "b < 0xB8 \<longleftrightarrow> unat b < 0xB8" "b < 0xC0 \<longleftrightarrow> unat b < 0xC0"
      "b < 0xF8 \<longleftrightarrow> unat b < 0xF8"
    by (simp_all add: word_less_nat_alt)
  have max: "unat b < 256" using unsigned_less [of b, where ?'a = nat] by simp
  consider (one) "unat b < 0x80" | (str) "0x80 \<le> unat b" "unat b < 0xB8" | (strs) "0xB8 \<le> unat b" "unat b < 0xC0"
    | (lst) "0xC0 \<le> unat b" "unat b < 0xF8" | (lsts) "0xF8 \<le> unat b" by linarith
  then show ?thesis
  proof cases
    case one
    then have "k = Byte" "sz = 0" "s' = (consume 1 s)\<lparr>st_byteval := b\<rparr>" using rk by (simp_all add: lts s0)
    moreover have "b < 0x80" using one lts(1) by blast
    ultimately show ?thesis using f1 ys by blast
  next
    case str
    then have k: "k = String" "sz = ucast (b - small_tag String)" "s' = ?s1" using rk by (simp_all add: lts)
    have "ys = head_of k (unat sz) @ yt \<and> length (head_of k (unat sz)) = 1"
      using short str unfolding k(1,2) by (simp add: word_le_nat_alt)
    moreover have "k \<noteq> Byte" using k(1) by simp
    ultimately show ?thesis using f1 k(3) s0 by metis
  next
    case strs
    then have "andThen (readUint (b - large_tag String)) (\<lambda>sz. if sz < 56 then throw ErrCanonSize else ret (String, sz)) ?s1
        = Ok ((k, sz), s')" using rk by (simp add: lts)
    from long [OF _ _ _ this] strs have "k = String \<and> (\<exists>r. ys = head_of String (unat sz) @ r) \<and>
        fits (length (head_of String (unat sz))) ls \<and> s' = (consume (length (head_of String (unat sz))) s)\<lparr>st_byteval := 0\<rparr>"
      by (simp add: word_less_nat_alt)
    then show ?thesis by blast
  next
    case lst
    then have k: "k = List" "sz = ucast (b - small_tag List)" "s' = ?s1" using rk by (simp_all add: lts)
    have "ys = head_of k (unat sz) @ yt \<and> length (head_of k (unat sz)) = 1"
      using short lst unfolding k(1,2) by (simp add: word_le_nat_alt)
    moreover have "k \<noteq> Byte" using k(1) by simp
    ultimately show ?thesis using f1 k(3) s0 by metis
  next
    case lsts
    then have "andThen (readUint (b - large_tag List)) (\<lambda>sz. if sz < 56 then throw ErrCanonSize else ret (List, sz)) ?s1
        = Ok ((k, sz), s')" using rk by (simp add: lts)
    from long [OF _ _ _ this] lsts max have "k = List \<and> (\<exists>r. ys = head_of List (unat sz) @ r) \<and>
        fits (length (head_of List (unat sz))) ls \<and> s' = (consume (length (head_of List (unat sz))) s)\<lparr>st_byteval := 0\<rparr>"
      by (simp add: word_less_nat_alt)
    then show ?thesis by blast
  qed
qed

section \<open>The value ahead\<close>

definition peeked :: "rlp_stream \<Rightarrow> Kind \<Rightarrow> u64 \<Rightarrow> byte list \<Rightarrow> u64 list \<Rightarrow> bool" where
  "peeked s k sz ys ls \<longleftrightarrow> st_kind s = Some k \<and> st_size s = sz \<and> base s ys ls"

lemma Kind_cached: "stream_Kind s = Ok (x, s1) \<Longrightarrow> stream_Kind s1 = Ok (x, s1)"
  by (auto simp: stream_Kind_def bind_outcome_eq_Ok Let_def split: option.splits prod.splits if_splits)

lemma Kind_eol: "at s ys (0 # ls) \<Longrightarrow> stream_Kind s = Fail EOL"
  by (simp add: stream_Kind_def at_def base_def listLimit_def)

lemma base_peek: "base (s\<lparr>st_kind := k, st_size := n\<rparr>) ys ls \<longleftrightarrow> base s ys ls"
  "base (s\<lparr>st_byteval := b\<rparr>) ys ls \<longleftrightarrow> base s ys ls"
  by (simp_all add: base_def)

lemma Kind_byte:
  assumes "at s (b # r) ls" and "b < 0x80" and "fits 1 ls"
  shows "\<exists>s'. stream_Kind s = Ok ((Byte, 0), s') \<and> peeked s' Byte 0 r (sub_top 1 ls) \<and> st_byteval s' = b"
proof -
  have bs: "base s (b # r) ls" and k: "st_kind s = None" using assms(1) by (simp_all add: at_def)
  let ?s1 = "(consume 1 s)\<lparr>st_byteval := b\<rparr>"
  have rk: "stream_readKind s = Ok ((Byte, 0), ?s1)" by (rule readKind_byte [OF bs refl assms(2,3)])
  have "base ?s1 r (sub_top 1 ls)" using at_consume [OF bs, of 1] by (simp add: at_def base_peek)
  moreover have "\<not> (fst (listLimit s) \<and> snd (listLimit s) = 0)"
    using assms(3) bs by (cases ls) (auto simp: listLimit_def base_def)
  ultimately show ?thesis
    using k rk by (auto simp: stream_Kind_def Let_def peeked_def base_peek split: prod.split)
qed

lemma Kind_head:
  assumes "at s (head_of k n @ c @ ys) ls" and "k \<noteq> Byte" and "length c = n" and "fits (length (head_of k n) + n) ls"
  shows "\<exists>s'. stream_Kind s = Ok ((k, word_of_nat n), s') \<and>
    peeked s' k (word_of_nat n) (c @ ys) (sub_top (length (head_of k n)) ls)"
proof -
  have bs: "base s (head_of k n @ c @ ys) ls" and kn: "st_kind s = None" using assms(1) by (simp_all add: at_def)
  have u: "unat (word_of_nat n :: u64) = n" using base_length [OF bs] assms(3) by (simp add: unat_of_nat)
  let ?sz = "word_of_nat n :: u64" and ?h = "length (head_of k n)"
  let ?s1 = "(consume ?h s)\<lparr>st_byteval := 0\<rparr>"
  have f: "fits ?h ls" using assms(4) fits_add by blast
  have rk: "stream_readKind s = Ok ((k, ?sz), ?s1)"
    using readKind_head [OF bs assms(2), of ?sz "c @ ys"] f u by simp
  have b1: "base ?s1 (c @ ys) (sub_top ?h ls)" using at_consume [OF bs, of ?h] by (simp add: at_def base_peek)
  have "\<not> (fst (listLimit s) \<and> snd (listLimit s) = 0)" "\<not> (fst (listLimit s) \<and> snd (listLimit s) < ?sz)"
  proof -
    have "0 < ?h" by (simp add: rlp_head_def)
    then show "\<not> (fst (listLimit s) \<and> snd (listLimit s) = 0)" "\<not> (fst (listLimit s) \<and> snd (listLimit s) < ?sz)"
      using assms(4) bs u by (cases ls; auto simp: listLimit_def base_def word_less_nat_alt)+
  qed
  moreover have "\<not> st_remaining ?s1 < ?sz" "st_limited ?s1"
    using b1 u assms(3) by (auto simp: base_def word_less_nat_alt)
  ultimately show ?thesis
    using kn rk b1 by (auto simp: stream_Kind_def Let_def peeked_def base_peek split: prod.split)
qed

lemma Kind_Ok:
  assumes "at s ys ls" and "stream_Kind s = Ok ((k, sz), s')"
  shows "(k = Byte \<and> sz = 0 \<and> (\<exists>b r. ys = b # r \<and> b < 0x80 \<and> peeked s' Byte 0 r (sub_top 1 ls) \<and> st_byteval s' = b)) \<or>
    (k \<noteq> Byte \<and> (\<exists>r. ys = head_of k (unat sz) @ r \<and> unat sz \<le> length r \<and>
      peeked s' k sz r (sub_top (length (head_of k (unat sz))) ls)))"
proof -
  have bs: "base s ys ls" and kn: "st_kind s = None" using assms(1) by (simp_all add: at_def)
  from assms(2) kn obtain s1 where rk: "stream_readKind s = Ok ((k, sz), s1)"
    and s': "s' = s1\<lparr>st_kind := Some k, st_size := sz\<rparr>" and rem: "st_limited s' \<Longrightarrow> \<not> sz > st_remaining s'"
    by (auto simp: stream_Kind_def bind_outcome_eq_Ok Let_def split: prod.splits if_splits)
  from readKind_Ok [OF bs rk] show ?thesis
  proof
    assume "k = Byte \<and> sz = 0 \<and> (\<exists>b r. ys = b # r \<and> b < 0x80 \<and> fits 1 ls \<and> s1 = (consume 1 s)\<lparr>st_byteval := b\<rparr>)"
    then obtain b r where *: "k = Byte" "sz = 0" "ys = b # r" "b < 0x80" "s1 = (consume 1 s)\<lparr>st_byteval := b\<rparr>" by blast
    have "base s1 r (sub_top 1 ls)" using at_consume [OF bs, of 1] *(3,5) by (simp add: at_def base_peek)
    with * s' show ?thesis by (simp add: peeked_def base_peek)
  next
    let ?h = "length (head_of k (unat sz))"
    assume "k \<noteq> Byte \<and> (\<exists>r. ys = head_of k (unat sz) @ r) \<and> fits ?h ls \<and> s1 = (consume ?h s)\<lparr>st_byteval := 0\<rparr>"
    then obtain r where *: "k \<noteq> Byte" "ys = head_of k (unat sz) @ r" "s1 = (consume ?h s)\<lparr>st_byteval := 0\<rparr>" by blast
    have b1: "base s1 r (sub_top ?h ls)" using at_consume [OF bs, of ?h] *(2,3) by (simp add: at_def base_peek)
    then have "unat sz \<le> length r" using rem s' by (simp add: base_def word_less_nat_alt)
    with * b1 s' show ?thesis by (simp add: peeked_def base_peek)
  qed
qed

end
