(* ===== verification/RlpRound.thy ===== *)
theory RlpRound
  imports RlpCodec
begin

text \<open>
  Round trips and exactness of the decoders, composed along the structure of the types: byte
  strings, integers, booleans, byte arrays, structs, slices and nil-able pointers.  The interface
  \<open>rlp_codec\<close> collects what a type promises; its consequences hold for every type that meets it.
\<close>

section \<open>The two contracts\<close>

definition decodes :: "(rlp_stream, 'a) action \<Rightarrow> byte list \<Rightarrow> 'a \<Rightarrow> bool" where
  "decodes D bs v \<longleftrightarrow> (\<forall>s ys ls. at s (bs @ ys) ls \<longrightarrow> fits (length bs) ls \<longrightarrow>
     (\<exists>s'. D s = Ok (v, s') \<and> at s' ys (sub_top (length bs) ls)))"

definition exact :: "(rlp_stream, 'a) action \<Rightarrow> ('a \<Rightarrow> byte list) \<Rightarrow> bool" where
  "exact D enc \<longleftrightarrow> (\<forall>s ys ls v s'. at s ys ls \<longrightarrow> D s = Ok (v, s') \<longrightarrow>
     (\<exists>r. ys = enc v @ r \<and> at s' r (sub_top (length (enc v)) ls)))"

text \<open>A decoder that starts by looking at the value ahead.\<close>

definition peeks :: "(rlp_stream, 'a) action \<Rightarrow> bool" where
  "peeks D \<longleftrightarrow> (\<forall>s x s1. stream_Kind s = Ok (x, s1) \<longrightarrow> D s1 = D s) \<and>
     (\<forall>s. stream_Kind s = Fail EOL \<longrightarrow> D s = Fail EOL)"

named_theorems decodes_intros \<open>round trips of the decoders\<close>
named_theorems exact_intros \<open>exactness of the decoders\<close>

lemma wrapped_Ok [simp]: "wrapped d s = Ok x \<longleftrightarrow> d s = Ok x"
  by (auto simp: wrapped_def split: outcome.splits)

lemma decodes_wrapped [decodes_intros]: "decodes d bs v \<Longrightarrow> decodes (wrapped d) bs v"
  and exact_wrapped [exact_intros]: "exact d enc \<Longrightarrow> exact (wrapped d) enc"
  by (simp_all add: decodes_def exact_def)

lemma peeks_Kind: "peeks (andThen stream_Kind f)"
  unfolding peeks_def by (auto simp: andThen_def dest: Kind_cached)

lemma peeks_wrapped: "peeks d \<Longrightarrow> peeks (wrapped d)"
  unfolding peeks_def wrapped_def by (auto simp: wrapStreamError_def)

lemma peeks_andThen: "peeks d \<Longrightarrow> peeks (andThen d f)"
  unfolding peeks_def by (auto simp: andThen_def)

lemma decodes_ret: "u = v \<Longrightarrow> decodes (ret u) [] v"
  by (auto simp: decodes_def ret_def)

lemma decodes_andThen:
  assumes "decodes D bs u" and "decodes (K u) cs v"
  shows "decodes (andThen D K) (bs @ cs) v"
  unfolding decodes_def
proof (intro allI impI)
  fix s ys ls assume a: "at s ((bs @ cs) @ ys) ls" and "fits (length (bs @ cs)) ls"
  then have f: "fits (length bs) ls" "fits (length cs) (sub_top (length bs) ls)"
    using fits_add [of "length bs" "length cs" ls] by simp_all
  from assms(1) a f(1) obtain s1 where s1: "D s = Ok (u, s1)" "at s1 (cs @ ys) (sub_top (length bs) ls)"
    unfolding decodes_def append_assoc by blast
  with assms(2) f(2) obtain s2 where "K u s1 = Ok (v, s2)" "at s2 ys (sub_top (length cs) (sub_top (length bs) ls))"
    unfolding decodes_def by blast
  with s1 show "\<exists>s'. andThen D K s = Ok (v, s') \<and> at s' ys (sub_top (length (bs @ cs)) ls)"
    by (auto simp: andThen_apply_Ok)
qed

lemma exact_andThen:
  assumes "exact D enc" and "\<And>u. exact (K u) (encK u)" and "\<And>u s v s'. K u s = Ok (v, s') \<Longrightarrow> enc' v = enc u @ encK u v"
  shows "exact (andThen D K) enc'"
  unfolding exact_def
proof (intro allI impI)
  fix s ys ls v s' assume a: "at s ys ls" and "andThen D K s = Ok (v, s')"
  then obtain u s1 where u: "D s = Ok (u, s1)" "K u s1 = Ok (v, s')" by (auto simp: andThen_eq_Ok)
  from assms(1) a u(1) obtain r where r: "ys = enc u @ r" "at s1 r (sub_top (length (enc u)) ls)"
    unfolding exact_def by blast
  from assms(2) r(2) u(2) obtain r' where "r = encK u v @ r'"
      "at s' r' (sub_top (length (encK u v)) (sub_top (length (enc u)) ls))"
    unfolding exact_def by blast
  with r assms(3) [OF u(2)] show "\<exists>r. ys = enc' v @ r \<and> at s' r (sub_top (length (enc' v)) ls)" by auto
qed

section \<open>Byte strings\<close>

lemma rlp_str_cases:
  obtains (one) c where "b = [c]" "c < 0x80" "rlp_str b = [c]"
  | (more) "\<not> (length b = 1 \<and> hd b < 0x80)" "rlp_str b = head_of String (length b) @ b"
proof -
  have le: "c \<le> 0x7F \<longleftrightarrow> c < 0x80" for c :: byte
    unfolding word_le_nat_alt word_less_nat_alt by simp linarith
  show thesis
  proof (cases "length b = 1 \<and> hd b \<le> 0x7F")
    case True
    then obtain c where "b = [c]" by (auto simp: length_Suc_conv)
    with True le one show ?thesis by (simp add: rlp_str_def)
  next
    case False
    then have "rlp_str b = head_of String (length b) @ b" by (simp only: rlp_str_def if_False small_tag.simps large_tag.simps)
    moreover have "\<not> (length b = 1 \<and> hd b < 0x80)" using False le by blast
    ultimately show ?thesis by (rule more [rotated])
  qed
qed

lemma at_rearm: "peeked s k sz ys ls \<Longrightarrow> rearm s = Ok ((), s\<lparr>st_kind := None\<rparr>) \<and> at (s\<lparr>st_kind := None\<rparr>) ys ls"
  by (simp add: rearm_def at_def peeked_def base_def)

lemma readFull_peeked:
  assumes "peeked s k sz ys ls" and "n < 2 ^ 64"
  shows "readFull n s = Ok (b, s') \<longleftrightarrow> fits n ls \<and> n \<le> length ys \<and> b = take n ys \<and> s' = consume n s"
  using assms readFull_eq [of s ys ls n] by (auto simp: peeked_def)

lemma at_consume_peeked: "peeked s k sz ys ls \<Longrightarrow> n \<le> length ys \<Longrightarrow> at (consume n s) (drop n ys) (sub_top n ls)"
  by (auto simp: peeked_def intro: at_consume)

lemma decodes_Bytes [decodes_intros]: "decodes stream_Bytes (rlp_str b) b"
  unfolding decodes_def
proof (intro allI impI)
  fix s ys ls assume a: "at s (rlp_str b @ ys) ls" and f: "fits (length (rlp_str b)) ls"
  show "\<exists>s'. stream_Bytes s = Ok (b, s') \<and> at s' ys (sub_top (length (rlp_str b)) ls)"
  proof (cases b rule: rlp_str_cases)
    case (one c)
    with a f obtain s1 where "stream_Kind s = Ok ((Byte, 0), s1)" "peeked s1 Byte 0 ys (sub_top 1 ls)" "st_byteval s1 = c"
      using Kind_byte [of s c ys ls] by auto
    with one at_rearm [of s1] show ?thesis by (auto simp: stream_Bytes_def andThen_apply_Ok)
  next
    case more
    let ?h = "length (head_of String (length b))"
    have lim: "length b < 2 ^ 64" using base_length a more(2) unfolding at_def by fastforce
    then have u: "unat (word_of_nat (length b) :: u64) = length b" by (simp add: unat_of_nat)
    obtain s1 where s1: "stream_Kind s = Ok ((String, word_of_nat (length b)), s1)"
        "peeked s1 String (word_of_nat (length b)) (b @ ys) (sub_top ?h ls)"
      using Kind_head [of s String "length b" b ys ls] a f more(2) by auto
    have "fits (length b) (sub_top ?h ls)" using f more(2) fits_add [of ?h "length b" ls] by simp
    then have rd: "readFull (length b) s1 = Ok (b, consume (length b) s1)"
      using readFull_peeked [OF s1(2) lim] by simp
    have "at (consume (length b) s1) ys (sub_top (?h + length b) ls)"
      using at_consume_peeked [OF s1(2), of "length b"] by simp
    moreover have "\<not> ((word_of_nat (length b) :: u64) = 1 \<and> hd b < 128)"
      using more(1) u by (metis One_nat_def unsigned_1)
    ultimately show ?thesis
      using s1(1) rd more(2) u by (auto simp: stream_Bytes_def andThen_apply_Ok ret_def)
  qed
qed

text \<open>The content of a string, read behind its header.\<close>

lemma read_string_exact:
  assumes "ys = head_of String (unat sz) @ r" and "unat sz \<le> length r" and "b = take (unat sz) r"
    and "\<not> (sz = 1 \<and> hd b < 128)"
  shows "ys = rlp_str b @ drop (unat sz) r" and "length (rlp_str b) = length (head_of String (unat sz)) + unat sz"
proof -
  have len: "length b = unat sz" using assms(2,3) by simp
  have "\<not> (length b = 1 \<and> hd b < 0x80)"
    using assms(4) len by (metis unsigned_1 unsigned_word_eqI)
  then have "rlp_str b = head_of String (unat sz) @ b"
    using len by (cases b rule: rlp_str_cases) auto
  then show "ys = rlp_str b @ drop (unat sz) r" "length (rlp_str b) = length (head_of String (unat sz)) + unat sz"
    using assms(1,3) len by simp_all
qed

lemma exact_Bytes [exact_intros]: "exact stream_Bytes rlp_str"
  unfolding exact_def
proof (intro allI impI)
  fix s ys ls v s' assume a: "at s ys ls" and o: "stream_Bytes s = Ok (v, s')"
  then obtain k sz s1 where k: "stream_Kind s = Ok ((k, sz), s1)"
    by (auto simp: stream_Bytes_def andThen_eq_Ok)
  from Kind_Ok [OF a k] show "\<exists>r. ys = rlp_str v @ r \<and> at s' r (sub_top (length (rlp_str v)) ls)"
  proof
    assume "k = Byte \<and> sz = 0 \<and> (\<exists>b r. ys = b # r \<and> b < 0x80 \<and> peeked s1 Byte 0 r (sub_top 1 ls) \<and> st_byteval s1 = b)"
    then obtain b r where *: "k = Byte" "ys = b # r" "b < 0x80" "peeked s1 Byte 0 r (sub_top 1 ls)" "st_byteval s1 = b" by blast
    have "v = [b]" "s' = s1\<lparr>st_kind := None\<rparr>"
      using o k * by (auto simp: stream_Bytes_def andThen_apply_Ok rearm_def andThen_def)
    moreover have "rlp_str [b] = [b]" using *(3) by (cases "[b]" rule: rlp_str_cases) auto
    ultimately show ?thesis using * at_rearm [OF *(4)] by auto
  next
    let ?h = "length (head_of k (unat sz))"
    assume "k \<noteq> Byte \<and> (\<exists>r. ys = head_of k (unat sz) @ r \<and> unat sz \<le> length r \<and> peeked s1 k sz r (sub_top ?h ls))"
    then obtain r where *: "k \<noteq> Byte" "ys = head_of k (unat sz) @ r" "unat sz \<le> length r" "peeked s1 k sz r (sub_top ?h ls)" by blast
    have ks: "k = String" using o k *(1) by (cases k) (auto simp: stream_Bytes_def andThen_def throw_def)
    have lim: "unat sz < 2 ^ 64" using unsigned_less [of sz, where ?'a = nat] by simp
    have v: "v = take (unat sz) r" "s' = consume (unat sz) s1" "\<not> (sz = 1 \<and> hd v < 128)"
      using o k ks readFull_peeked [OF *(4) lim]
      by (auto simp: stream_Bytes_def andThen_eq_Ok throw_def ret_def split: if_splits)
    note ex = read_string_exact [OF *(2) [unfolded ks] *(3) v(1) v(3)]
    have "at s' (drop (unat sz) r) (sub_top (length (rlp_str v)) ls)"
      using at_consume_peeked [OF *(4) *(3)] ex(2) v(2) ks by simp
    with ex(1) show ?thesis by blast
  qed
qed

lemma peeks_Bytes: "peeks stream_Bytes"
  unfolding stream_Bytes_def by (rule peeks_Kind)

section \<open>Integers\<close>

lemma bigInt_buffer_Bytes:
  assumes "at s ys ls"
  shows "bigInt_buffer s = stream_Bytes s"
proof (cases "stream_Kind s")
  case (Ok x)
  then obtain k sz s1 where k: "stream_Kind s = Ok ((k, sz), s1)" by (cases x) auto
  have lim: "unat sz < 2 ^ 64" using unsigned_less [of sz, where ?'a = nat] by simp
  show ?thesis
  proof (cases k)
    case String
    with Kind_Ok [OF assms k] obtain r ls' where p: "peeked s1 String sz r ls'" by auto
    have "sz = 0 \<Longrightarrow> readFull 0 s1 = Ok ([], s1\<lparr>st_kind := None\<rparr>)"
      using readFull_peeked [OF p, of 0] by (simp add: consume_def)
    moreover have "\<not> sz \<le> 32 \<Longrightarrow> sz \<noteq> 1" by auto
    ultimately show ?thesis using String k
      by (cases "readFull (unat sz) s1")
        (auto simp: bigInt_buffer_def stream_Bytes_def andThen_def rearm_def ret_def throw_def)
  qed (use k in \<open>auto simp: bigInt_buffer_def stream_Bytes_def andThen_apply_Ok\<close>)
qed (auto simp: bigInt_buffer_def stream_Bytes_def andThen_def)

definition rlp_int :: "int \<Rightarrow> byte list" where "rlp_int i = rlp_str (be_bytes (nat i))"

definition rlp_uint :: "u64 \<Rightarrow> byte list" where "rlp_uint v = rlp_str (be_bytes (unat v))"

lemma hd_be_bytes_or_Nil: "\<not> (length (be_bytes n) > 0 \<and> hd (be_bytes n) = 0)"
  using hd_be_bytes [of n] by (cases "n = 0") auto

lemma decodes_BigInt [decodes_intros]: "0 \<le> i \<Longrightarrow> decodes decodeBigInt (rlp_int i) i"
  unfolding decodes_def decodeBigInt_def rlp_int_def
proof (intro allI impI)
  fix s ys ls assume i: "0 \<le> i" and a: "at s (rlp_str (be_bytes (nat i)) @ ys) ls" and f: "fits (length (rlp_str (be_bytes (nat i)))) ls"
  then obtain s' where "stream_Bytes s = Ok (be_bytes (nat i), s')" "at s' ys (sub_top (length (rlp_str (be_bytes (nat i)))) ls)"
    using decodes_Bytes [of "be_bytes (nat i)"] unfolding decodes_def by blast
  then show "\<exists>s'. wrapped (andThen bigInt_buffer (\<lambda>buffer. if length buffer > 0 \<and> hd buffer = 0 then throw ErrCanonInt
      else ret (int (be_num buffer)))) s = Ok (i, s') \<and> at s' ys (sub_top (length (rlp_str (be_bytes (nat i)))) ls)"
    using i hd_be_bytes_or_Nil [of "nat i"] bigInt_buffer_Bytes [OF a] by (auto simp: andThen_def ret_def)
qed

lemma exact_BigInt [exact_intros]: "exact decodeBigInt rlp_int"
  unfolding exact_def decodeBigInt_def
proof (intro allI impI)
  fix s ys ls v s'
  assume a: "at s ys ls" and "wrapped (andThen bigInt_buffer (\<lambda>buffer. if length buffer > 0 \<and> hd buffer = 0 then throw ErrCanonInt
      else ret (int (be_num buffer)))) s = Ok (v, s')"
  then obtain b where b: "stream_Bytes s = Ok (b, s')" "b = [] \<or> hd b \<noteq> 0" "v = int (be_num b)"
    using bigInt_buffer_Bytes [OF a] by (auto simp: andThen_eq_Ok ret_def throw_def split: if_splits)
  then have "rlp_int v = rlp_str b" by (auto simp: rlp_int_def be_bytes_be_num)
  then show "\<exists>r. ys = rlp_int v @ r \<and> at s' r (sub_top (length (rlp_int v)) ls)"
    using exact_Bytes a b(1) unfolding exact_def by metis
qed

lemma peeks_BigInt: "peeks decodeBigInt"
  unfolding decodeBigInt_def bigInt_buffer_def by (intro peeks_wrapped peeks_andThen peeks_Kind)

lemma BigInt_nonneg: "decodeBigInt s = Ok (v, s') \<Longrightarrow> 0 \<le> v"
  by (auto simp: decodeBigInt_def andThen_eq_Ok ret_def throw_def split: if_splits)

text \<open>Unsigned integers of at most 64 bits.\<close>

lemma uint_string_Ok:
  assumes "peeked s1 String sz r ls" and "1 \<le> unat sz" and "unat sz \<le> 8"
  shows "readUint (ucast sz) s1 = Ok (v, s') \<longleftrightarrow> fits (unat sz) ls \<and> unat sz \<le> length r \<and>
    v = word_of_nat (be_num (take (unat sz) r)) \<and> s' = consume (unat sz) s1 \<and> (unat sz = 1 \<or> hd r \<noteq> 0)"
proof -
  have u: "unat (ucast sz :: byte) = unat sz" using assms(3) by (simp add: unsigned_ucast_eq take_bit_nat_eq_self)
  show ?thesis using readUint_Ok [of s1 r ls "ucast sz" v s'] assms u by (simp add: peeked_def)
qed

lemma be_num_take_word: "n \<le> 8 \<Longrightarrow> unat (word_of_nat (be_num (take n r)) :: u64) = be_num (take n r)"
proof -
  assume n: "n \<le> 8"
  have "be_num (take n r) < 256 ^ length (take n r)" by (rule be_num_bound)
  also have "\<dots> \<le> 256 ^ 8" by (rule power_increasing) (use n in auto)
  finally show ?thesis by (simp add: unat_of_nat)
qed

lemma exact_uint:
  assumes "bits \<le> 64"
  shows "exact (stream_uint bits) rlp_uint"
  unfolding exact_def
proof (intro allI impI)
  fix s ys ls v s' assume a: "at s ys ls" and o: "stream_uint bits s = Ok (v, s')"
  then obtain k sz s1 where k: "stream_Kind s = Ok ((k, sz), s1)"
    by (auto simp: stream_uint_def andThen_eq_Ok)
  from Kind_Ok [OF a k] show "\<exists>r. ys = rlp_uint v @ r \<and> at s' r (sub_top (length (rlp_uint v)) ls)"
  proof
    assume "k = Byte \<and> sz = 0 \<and> (\<exists>b r. ys = b # r \<and> b < 0x80 \<and> peeked s1 Byte 0 r (sub_top 1 ls) \<and> st_byteval s1 = b)"
    then obtain b r where *: "k = Byte" "ys = b # r" "b < 0x80" "peeked s1 Byte 0 r (sub_top 1 ls)" "st_byteval s1 = b" by blast
    have v: "v = ucast b" "s' = s1\<lparr>st_kind := None\<rparr>" "b \<noteq> 0"
      using o k * by (auto simp: stream_uint_def andThen_apply_Ok split: if_splits)
    have "be_bytes (unat v) = [b]"
      using be_bytes_byte [of "unat b"] v(1,3) unsigned_less [of b, where ?'a = nat] by (simp add: unat_ucast_byte unat_gt_0)
    moreover have "rlp_str [b] = [b]" using *(3) by (cases "[b]" rule: rlp_str_cases) auto
    ultimately show ?thesis using * at_rearm [OF *(4)] v(2) by (auto simp: rlp_uint_def)
  next
    let ?h = "length (head_of k (unat sz))"
    assume "k \<noteq> Byte \<and> (\<exists>r. ys = head_of k (unat sz) @ r \<and> unat sz \<le> length r \<and> peeked s1 k sz r (sub_top ?h ls))"
    then obtain r where *: "k \<noteq> Byte" "ys = head_of k (unat sz) @ r" "unat sz \<le> length r" "peeked s1 k sz r (sub_top ?h ls)" by blast
    have ks: "k = String" using o k *(1) by (cases k) (auto simp: stream_uint_def andThen_def throw_def)
    have "\<not> sz > word_of_nat (bits div 8)" using o k ks by (auto simp: stream_uint_def andThen_def throw_def)
    moreover have "unat (word_of_nat (bits div 8) :: u64) = bits div 8" using assms by (simp add: unat_of_nat)
    ultimately have sz8: "unat sz \<le> 8" using assms by (simp add: word_less_nat_alt)
    have ru: "readUint (ucast sz) s1 = Ok (v, s')" "\<not> (sz > 0 \<and> v < 128)"
      using o k ks by (auto simp: stream_uint_def andThen_def throw_def split: if_splits outcome.splits)
    show ?thesis
    proof (cases "sz = 0")
      case True
      then have "v = 0" "s' = s1\<lparr>st_kind := None\<rparr>" using ru(1) by (auto simp: readUint_def)
      then show ?thesis
        using True * ks at_rearm [OF *(4)] by (auto simp: rlp_uint_def rlp_str_def)
    next
      case False
      then have sz1: "1 \<le> unat sz" by (metis One_nat_def Suc_leI unat_gt_0)
      let ?b = "take (unat sz) r"
      from ru(1) have v: "v = word_of_nat (be_num ?b)" "s' = consume (unat sz) s1" "unat sz = 1 \<or> hd r \<noteq> 0"
        using uint_string_Ok [OF *(4) [unfolded ks] sz1 sz8] ks by auto
      have uv: "unat v = be_num ?b" using v(1) be_num_take_word [OF sz8] by simp
      have big: "128 \<le> unat v" using ru(2) False by (auto simp: word_gt_0 not_less word_le_nat_alt)
      have one: "unat (hd ?b) = unat v" if "sz = 1"
      proof -
        have "unat sz = 1" using that by simp
        with *(3) obtain c where "?b = [c]" by (cases r) auto
        then show ?thesis using uv by (simp add: be_num_Cons)
      qed
      have hd: "hd ?b = hd r" using sz1 by (cases r; cases "unat sz") auto
      have "hd ?b \<noteq> 0"
      proof (cases "unat sz = 1")
        case True
        then have "sz = 1" by (metis unsigned_1 unsigned_word_eqI)
        from one [OF this] big show ?thesis by auto
      next
        case False
        with v(3) hd show ?thesis by simp
      qed
      then have bb: "be_bytes (unat v) = ?b" by (simp add: uv be_bytes_be_num)
      have "\<not> (sz = 1 \<and> hd ?b < 128)" using one big by (auto simp: word_less_nat_alt)
      note ex = read_string_exact [OF *(2) [unfolded ks] *(3) refl this]
      have "at s' (drop (unat sz) r) (sub_top (length (rlp_str ?b)) ls)"
        using at_consume_peeked [OF *(4) *(3)] ex(2) v(2) ks by simp
      with ex(1) bb show ?thesis by (auto simp: rlp_uint_def)
    qed
  qed
qed

lemma decodes_uint:
  assumes "unat v < 2 ^ (8 * m)" and "m \<le> 8"
  shows "decodes (stream_uint (8 * m)) (rlp_uint v) v"
  unfolding decodes_def
proof (intro allI impI)
  fix s ys ls assume a: "at s (rlp_uint v @ ys) ls" and f: "fits (length (rlp_uint v)) ls"
  let ?b = "be_bytes (unat v)"
  have len: "length ?b \<le> m" using assms(1) by (intro length_be_bytes) (simp add: power_mult)
  show "\<exists>s'. stream_uint (8 * m) s = Ok (v, s') \<and> at s' ys (sub_top (length (rlp_uint v)) ls)"
  proof (cases ?b rule: rlp_str_cases)
    case (one c)
    have vc: "unat v = unat c" using be_num_be_bytes [of "unat v"] one(1) by (simp add: be_num_Cons)
    then have "ucast c = v" by (metis unat_ucast_byte unsigned_word_eqI)
    moreover have "unat v \<noteq> 0" using one(1) by (metis be_bytes_0 list.distinct(1))
    then have "c \<noteq> 0" using vc by auto
    moreover obtain s1 where "stream_Kind s = Ok ((Byte, 0), s1)" "peeked s1 Byte 0 ys (sub_top 1 ls)" "st_byteval s1 = c"
      using Kind_byte [of s c ys ls] a f one by (auto simp: rlp_uint_def)
    ultimately show ?thesis using one at_rearm [of s1] by (auto simp: stream_uint_def andThen_apply_Ok rlp_uint_def)
  next
    case more
    let ?n = "length ?b" and ?h = "length (head_of String (length ?b))"
    have lim: "?n < 2 ^ 64" using len assms(2) by simp
    then have u: "unat (word_of_nat ?n :: u64) = ?n" by (simp add: unat_of_nat)
    obtain s1 where s1: "stream_Kind s = Ok ((String, word_of_nat ?n), s1)"
        "peeked s1 String (word_of_nat ?n) (?b @ ys) (sub_top ?h ls)"
      using Kind_head [of s String ?n ?b ys ls] a f more(2) by (auto simp: rlp_uint_def)
    have fit: "\<not> (word_of_nat ?n :: u64) > word_of_nat (8 * m div 8)"
      using len assms(2) u by (simp add: word_less_nat_alt unat_of_nat)
    have "\<exists>s'. readUint (ucast (word_of_nat ?n :: u64)) s1 = Ok (v, s') \<and> at s' ys (sub_top (?h + ?n) ls) \<and>
        \<not> (word_of_nat ?n > (0 :: u64) \<and> v < 128)"
    proof (cases "v = 0")
      case True
      then show ?thesis using s1(2) at_rearm [of s1] by (auto simp: readUint_def)
    next
      case False
      then have n1: "1 \<le> ?n" using length_be_bytes_pos [of "unat v"] by (simp add: unat_gt_0)
      have "hd (?b @ ys) \<noteq> 0" using False hd_be_bytes [of "unat v"] by (cases ?b) (auto simp: unsigned_eq_0_iff)
      moreover have "fits ?n (sub_top ?h ls)" using f more(2) fits_add [of ?h ?n ls] by (simp add: rlp_uint_def)
      ultimately have "readUint (ucast (word_of_nat ?n :: u64)) s1 = Ok (v, consume ?n s1)"
        using uint_string_Ok [OF s1(2), unfolded u, OF n1] len assms(2) by simp
      moreover have "at (consume ?n s1) ys (sub_top (?h + ?n) ls)" using at_consume_peeked [OF s1(2), of ?n] by simp
      moreover have "\<not> v < 128"
      proof
        assume "v < 128"
        then have v: "unat v < 128" by (simp add: word_less_nat_alt)
        with False have "?b = [word_of_nat (unat v)]" by (intro be_bytes_byte) (auto simp: unat_gt_0)
        moreover have "unat (ucast v :: byte) = unat v" using v by (simp add: unsigned_ucast_eq take_bit_nat_eq_self)
        ultimately show False using more(1) v by (simp add: word_less_nat_alt)
      qed
      ultimately show ?thesis by blast
    qed
    then show ?thesis using s1(1) fit more(2)
      by (auto simp: stream_uint_def andThen_apply_Ok rlp_uint_def)
  qed
qed

lemma peeks_uint: "peeks (stream_uint bits)"
  unfolding stream_uint_def by (rule peeks_Kind)

lemma decodes_decodeUint [decodes_intros]: "unat v < 2 ^ (8 * m) \<Longrightarrow> m \<le> 8 \<Longrightarrow> decodes (decodeUint (8 * m)) (rlp_uint v) v"
  unfolding decodeUint_def by (intro decodes_wrapped decodes_uint)

lemma exact_decodeUint [exact_intros]: "bits \<le> 64 \<Longrightarrow> exact (decodeUint bits) rlp_uint"
  unfolding decodeUint_def by (intro exact_wrapped exact_uint)

definition rlp_bool :: "bool \<Rightarrow> byte list" where "rlp_bool b = rlp_str (if b then [1] else [])"

lemma rlp_bool_uint: "rlp_bool b = rlp_uint (if b then 1 else 0)"
  by (simp add: rlp_bool_def rlp_uint_def be_bytes_byte)

lemma decodes_Bool [decodes_intros]: "decodes decodeBool (rlp_bool b) b"
proof -
  have u: "decodes (stream_uint 8) (rlp_bool b) (if b then 1 else 0)"
    unfolding rlp_bool_uint using decodes_uint [of "if b then 1 else 0" 1] by simp
  have "decodes (if (if b then 1 else 0) = (0 :: u64) then ret False
      else if (if b then 1 else 0) = (1 :: u64) then ret True else throw ErrInvalidBoolean) [] b"
    by (cases b) (auto intro: decodes_ret)
  from decodes_andThen [OF u, where K = "\<lambda>num. if num = 0 then ret False else if num = 1 then ret True else throw ErrInvalidBoolean", OF this]
  show ?thesis unfolding decodeBool_def stream_Bool_def by (intro decodes_wrapped) simp
qed

lemma exact_ret_unit: "exact (ret u) (\<lambda>_. [])"
  by (auto simp: exact_def ret_def)

lemma exact_throw: "exact (throw e) enc"
  by (auto simp: exact_def throw_def)

lemma exact_Bool [exact_intros]: "exact decodeBool rlp_bool"
  unfolding decodeBool_def stream_Bool_def
proof (intro exact_wrapped exact_andThen [where encK = "\<lambda>_ _. []", OF exact_uint])
  fix u :: u64
  show "exact (if u = 0 then ret False else if u = 1 then ret True else throw ErrInvalidBoolean) (\<lambda>_. [])"
    by (auto intro: exact_ret_unit exact_throw)
next
  fix u :: u64 and s v s'
  assume "(if u = 0 then ret False else if u = 1 then ret True else throw ErrInvalidBoolean) s = Ok (v, s')"
  then show "rlp_bool v = rlp_uint u @ []"
    by (auto simp: ret_def throw_def rlp_bool_uint split: if_splits)
qed simp

section \<open>Byte arrays\<close>

lemma byteArray_Bytes:
  assumes "at s ys ls"
  shows "decodeByteArray n s = Ok (b, s') \<longleftrightarrow> stream_Bytes s = Ok (b, s') \<and> length b = n"
proof (cases "stream_Kind s")
  case (Ok x)
  then obtain k sz s1 where k: "stream_Kind s = Ok ((k, sz), s1)" by (cases x) auto
  show ?thesis
  proof (cases k)
    case Byte
    then show ?thesis using k
      by (cases "n = 1") (auto simp: decodeByteArray_def stream_Bytes_def andThen_def rearm_def throw_def)
  next
    case List
    then show ?thesis using k by (auto simp: decodeByteArray_def stream_Bytes_def andThen_def throw_def)
  next
    case String
    with Kind_Ok [OF assms k] obtain r ls' where p: "peeked s1 String sz r ls'" "unat sz \<le> length r" by auto
    have lim: "unat sz < 2 ^ 64" using unsigned_less [of sz, where ?'a = nat] by simp
    have rf: "readFull (unat sz) s1 = Ok (c, s2) \<Longrightarrow> length c = unat sz" for c s2
      using readFull_peeked [OF p(1) lim] by auto
    show ?thesis
    proof (cases "n = unat sz")
      case True
      then show ?thesis using k String rf
        by (auto simp: decodeByteArray_def stream_Bytes_def andThen_eq_Ok throw_def ret_def split: if_splits)
    next
      case False
      then have "n < unat sz \<or> unat sz < n" by linarith
      then show ?thesis using k String rf False
        by (auto simp: decodeByteArray_def stream_Bytes_def andThen_eq_Ok throw_def ret_def split: if_splits)
    qed
  qed
qed (auto simp: decodeByteArray_def stream_Bytes_def andThen_def)

lemma decodes_ByteArray [decodes_intros]: "length b = n \<Longrightarrow> decodes (decodeByteArray n) (rlp_str b) b"
  unfolding decodes_def
proof (intro allI impI)
  fix s ys ls assume l: "length b = n" and a: "at s (rlp_str b @ ys) ls" and f: "fits (length (rlp_str b)) ls"
  then show "\<exists>s'. decodeByteArray n s = Ok (b, s') \<and> at s' ys (sub_top (length (rlp_str b)) ls)"
    using decodes_Bytes [of b] unfolding decodes_def byteArray_Bytes [OF a] by blast
qed

lemma exact_ByteArray [exact_intros]: "exact (decodeByteArray n) rlp_str"
  using exact_Bytes unfolding exact_def using byteArray_Bytes by blast

lemma peeks_ByteArray: "peeks (decodeByteArray n)"
  unfolding decodeByteArray_def by (rule peeks_Kind)

section \<open>Lists\<close>

lemma List_head:
  assumes "at s (head_of List n @ c @ ys) ls" and "length c = n" and "fits (length (head_of List n) + n) ls"
  shows "\<exists>s'. stream_List s = Ok (word_of_nat n, s') \<and>
    at s' (c @ ys) (word_of_nat n # sub_top (length (head_of List n) + n) ls)"
proof -
  obtain s1 where s1: "stream_Kind s = Ok ((List, word_of_nat n), s1)"
      "peeked s1 List (word_of_nat n) (c @ ys) (sub_top (length (head_of List n)) ls)"
    using Kind_head [OF assms(1) _ assms(2,3)] by auto
  then show ?thesis
    by (cases ls) (auto simp: stream_List_def andThen_apply_Ok Let_def listLimit_def peeked_def at_def base_def algebra_simps)
qed

lemma List_Ok:
  assumes "at s ys ls" and "stream_List s = Ok (sz, s')"
  shows "\<exists>r. ys = head_of List (unat sz) @ r \<and> unat sz \<le> length r \<and>
    at s' r (sz # sub_top (length (head_of List (unat sz)) + unat sz) ls)"
proof -
  from assms(2) obtain s1 where k: "stream_Kind s = Ok ((List, sz), s1)"
    by (auto simp: stream_List_def andThen_eq_Ok Let_def split: if_splits prod.splits)
  with Kind_Ok [OF assms(1) k] obtain r where r: "ys = head_of List (unat sz) @ r" "unat sz \<le> length r"
      "peeked s1 List sz r (sub_top (length (head_of List (unat sz))) ls)" by auto
  then show ?thesis using assms(2) k
    by (cases ls) (auto simp: stream_List_def andThen_apply_Ok Let_def listLimit_def peeked_def at_def base_def algebra_simps)
qed

lemma ListEnd_Ok:
  assumes "at s ys (l # ls)"
  shows "stream_ListEnd s = Ok (u, s') \<longleftrightarrow> l = 0 \<and> s' = s\<lparr>st_stack := ls, st_kind := None, st_size := 0\<rparr>"
  using assms by (auto simp: stream_ListEnd_def listLimit_def Let_def at_def base_def word_gt_0)

lemma at_ListEnd: "at s ys (l # ls) \<Longrightarrow> at (s\<lparr>st_stack := ls, st_kind := None, st_size := 0\<rparr>) ys ls"
  by (simp add: at_def base_def)

lemma rlp_list_head: "rlp_list c = head_of List (length c) @ c"
  by (simp add: rlp_list_def)

lemma ListEnd_done: "at s ys (0 # ls) \<Longrightarrow> \<exists>s'. stream_ListEnd s = Ok ((), s') \<and> at s' ys ls"
  using ListEnd_Ok [of s ys 0 ls "()"] at_ListEnd [of s ys 0 ls] by blast

text \<open>Reading a list: its header, its content, and the check that nothing of it is left.\<close>

lemma list_decodes:
  assumes "decodes body c v"
  shows "decodes (andThen stream_List (\<lambda>_. andThen body (\<lambda>v. andThen stream_ListEnd (\<lambda>_. ret v)))) (rlp_list c) v"
  unfolding decodes_def
proof (intro allI impI)
  fix s ys ls assume a: "at s (rlp_list c @ ys) ls" and f: "fits (length (rlp_list c)) ls"
  let ?n = "length c" and ?h = "length (head_of List (length c))"
  have lim: "?n < 2 ^ 64" using base_length a unfolding at_def rlp_list_head by fastforce
  then have u: "unat (word_of_nat ?n :: u64) = ?n" by (simp add: unat_of_nat)
  obtain s1 where s1: "stream_List s = Ok (word_of_nat ?n, s1)" "at s1 (c @ ys) (word_of_nat ?n # sub_top (?h + ?n) ls)"
    using List_head [of s ?n c ys ls] a f by (auto simp: rlp_list_head)
  with assms u obtain s2 where s2: "body s1 = Ok (v, s2)" "at s2 ys (0 # sub_top (?h + ?n) ls)"
    unfolding decodes_def by fastforce
  from s1 s2 ListEnd_done [OF s2(2)]
  show "\<exists>s'. andThen stream_List (\<lambda>_. andThen body (\<lambda>v. andThen stream_ListEnd (\<lambda>_. ret v))) s = Ok (v, s') \<and>
      at s' ys (sub_top (length (rlp_list c)) ls)"
    by (auto simp: ret_def rlp_list_head andThen_def)
qed

lemma list_exact:
  assumes "at s ys ls" and "stream_List s = Ok (sz, s1)" and "stream_ListEnd s2 = Ok (u, s')"
    and body: "\<And>r l. at s1 r (l # sub_top (length (head_of List (unat sz)) + unat sz) ls) \<Longrightarrow>
      \<exists>r'. r = c @ r' \<and> at s2 r' (sub_top (length c) (l # sub_top (length (head_of List (unat sz)) + unat sz) ls))"
  shows "unat sz = length c" and "\<exists>r. ys = rlp_list c @ r \<and> at s' r (sub_top (length (rlp_list c)) ls)"
proof -
  obtain r where r: "ys = head_of List (unat sz) @ r" "unat sz \<le> length r"
      "at s1 r (sz # sub_top (length (head_of List (unat sz)) + unat sz) ls)"
    using List_Ok [OF assms(1,2)] by blast
  then obtain r' where r': "r = c @ r'"
      "at s2 r' ((sz - word_of_nat (length c)) # sub_top (length (head_of List (unat sz)) + unat sz) ls)"
    using body by fastforce
  have "sz - word_of_nat (length c) = 0" using ListEnd_Ok [OF r'(2)] assms(3) by blast
  moreover have "length c < 2 ^ 64" using base_length r(3) r'(1) unfolding at_def by fastforce
  ultimately show len: "unat sz = length c" by (simp add: unat_of_nat)
  have "at s' r' (sub_top (length (head_of List (unat sz)) + unat sz) ls)"
    using iffD1 [OF ListEnd_Ok [OF r'(2)] assms(3)] at_ListEnd [OF r'(2)] by simp
  with len show "\<exists>r. ys = rlp_list c @ r \<and> at s' r (sub_top (length (rlp_list c)) ls)"
    using r(1) r'(1) by (auto simp: rlp_list_head)
qed

lemma decodes_Struct [decodes_intros]: "decodes body c v \<Longrightarrow> decodes (makeStructDecoder body) (rlp_list c) v"
  using list_decodes [of body c v] unfolding makeStructDecoder_def decodes_def by (simp add: andThen_eq_Ok)

lemma Struct_Ok:
  assumes a: "at s ys ls" and d: "makeStructDecoder body s = Ok (v, s')" and "exact body enc"
  shows "\<exists>sz s1. stream_List s = Ok (sz, s1) \<and> unat sz = length (enc v)"
    and "\<exists>r. ys = rlp_list (enc v) @ r \<and> at s' r (sub_top (length (rlp_list (enc v))) ls)"
proof -
  from d obtain sz s1 s2 where o: "stream_List s = Ok (sz, s1)" "body s1 = Ok (v, s2)" "stream_ListEnd s2 = Ok ((), s')"
    by (auto simp: makeStructDecoder_def andThen_eq_Ok ret_def)
  have body: "\<exists>r'. r = enc v @ r' \<and> at s2 r' (sub_top (length (enc v)) l)" if "at s1 r l" for r l
    using assms(3) [unfolded exact_def, rule_format, OF that o(2)] .
  show "\<exists>sz s1. stream_List s = Ok (sz, s1) \<and> unat sz = length (enc v)"
    using list_exact(1) [OF a o(1,3) body] o(1) by (intro exI conjI)
  show "\<exists>r. ys = rlp_list (enc v) @ r \<and> at s' r (sub_top (length (rlp_list (enc v))) ls)"
    by (rule list_exact(2) [OF a o(1,3) body])
qed

lemma exact_Struct [exact_intros]: "exact body enc \<Longrightarrow> exact (makeStructDecoder body) (\<lambda>v. rlp_list (enc v))"
  unfolding exact_def [of "makeStructDecoder body"] by (intro allI impI) (rule Struct_Ok(2))

lemma peeks_List: "peeks stream_List"
  unfolding stream_List_def by (rule peeks_Kind)

lemma peeks_Struct: "peeks (makeStructDecoder body)"
  unfolding makeStructDecoder_def by (intro peeks_andThen peeks_wrapped peeks_List)

section \<open>Slices and arrays\<close>

lemma SliceElems_decodes:
  assumes "peeks D"
  shows "\<forall>v \<in> set vs. decodes D (enc v) v \<and> enc v \<noteq> [] \<Longrightarrow> length (concat (map enc vs)) < n \<Longrightarrow>
    at s (concat (map enc vs) @ ys) (l # ls) \<Longrightarrow> unat l = length (concat (map enc vs)) \<Longrightarrow>
    \<exists>s'. decodeSliceElems n D s = Ok (vs, s') \<and> at s' ys (0 # ls)"
proof (induction vs arbitrary: n s l)
  case Nil
  then have "l = 0" by (simp add: unsigned_eq_0_iff)
  with Nil have "D s = Fail EOL" using assms Kind_eol unfolding peeks_def by fastforce
  with Nil \<open>l = 0\<close> show ?case by (cases n) auto
next
  case (Cons v vs)
  let ?b = "enc v" and ?c = "concat (map enc vs)"
  from Cons.prems(1,3,4) obtain s1 where s1: "D s = Ok (v, s1)" "at s1 (?c @ ys) ((l - word_of_nat (length ?b)) # ls)"
    unfolding decodes_def by fastforce
  have ul: "unat (l - word_of_nat (length ?b)) = length ?c" using Cons.prems(4) by (simp add: unat_sub_word)
  obtain m where n: "n = Suc m" using Cons.prems(2) by (cases n) auto
  have "0 < length ?b" using Cons.prems(1) by auto
  moreover have "length ?b + length ?c < Suc m" using Cons.prems(2) n by simp
  ultimately have "length ?c < m" by linarith
  with Cons.IH [OF _ this s1(2) ul] Cons.prems(1) s1(1) n show ?case by auto
qed

lemma decodes_Slice [decodes_intros]:
  assumes "peeks D" and "\<forall>v \<in> set vs. decodes D (enc v) v \<and> enc v \<noteq> []"
  shows "decodes (decodeListSlice D) (rlp_list (concat (map enc vs))) vs"
  unfolding decodes_def
proof (intro allI impI)
  let ?c = "concat (map enc vs)"
  fix s ys ls assume a: "at s (rlp_list ?c @ ys) ls" and f: "fits (length (rlp_list ?c)) ls"
  let ?n = "length ?c" and ?h = "length (head_of List (length ?c))"
  have lim: "?n < 2 ^ 64" using base_length a unfolding at_def rlp_list_head by fastforce
  then have u: "unat (word_of_nat ?n :: u64) = ?n" by (simp add: unat_of_nat)
  obtain s1 where s1: "stream_List s = Ok (word_of_nat ?n, s1)" "at s1 (?c @ ys) (word_of_nat ?n # sub_top (?h + ?n) ls)"
    using List_head [of s ?n ?c ys ls] a f by (auto simp: rlp_list_head)
  have len: "?n < Suc (length (st_r s1))" using s1(2) by (simp add: at_def base_def)
  obtain s2 where s2: "decodeSliceElems (Suc (length (st_r s1))) D s1 = Ok (vs, s2)" "at s2 ys (0 # sub_top (?h + ?n) ls)"
    using SliceElems_decodes [OF assms len s1(2) u] by blast
  show "\<exists>s'. decodeListSlice D s = Ok (vs, s') \<and> at s' ys (sub_top (length (rlp_list ?c)) ls)"
  proof (cases "(word_of_nat ?n :: u64) = 0")
    case True
    then have "?n = 0" using u by simp
    then have vs: "vs = []" using assms(2) by (cases vs) auto
    have "at s1 ys (0 # sub_top (?h + ?n) ls)" using s1(2) vs by simp
    from ListEnd_done [OF this] show ?thesis using s1 vs
      by (auto simp: decodeListSlice_def andThen_def ret_def rlp_list_head wrapped_def)
  next
    case False
    show ?thesis using s1 s2 ListEnd_done [OF s2(2)] False
      by (auto simp: decodeListSlice_def andThen_def ret_def rlp_list_head wrapped_def simp del: decodeSliceElems.simps)
  qed
qed

lemma SliceElems_exact:
  assumes "exact D enc"
  shows "decodeSliceElems n D s = Ok (vs, s') \<Longrightarrow> at s ys ls \<Longrightarrow>
    \<exists>r. ys = concat (map enc vs) @ r \<and> at s' r (sub_top (length (concat (map enc vs))) ls)"
proof (induction n arbitrary: s ys ls vs)
  case (Suc n)
  show ?case
  proof (cases "D s")
    case (Ok x)
    then obtain v s1 where v: "D s = Ok (v, s1)" by (cases x) auto
    with Suc.prems(1) obtain ws where ws: "decodeSliceElems n D s1 = Ok (ws, s')" "vs = v # ws"
      by (auto simp: bind_outcome_eq_Ok)
    from assms v Suc.prems(2) obtain r where r: "ys = enc v @ r" "at s1 r (sub_top (length (enc v)) ls)"
      unfolding exact_def by blast
    with Suc.IH [OF ws(1) r(2)] ws(2) show ?thesis by auto
  qed (use Suc.prems in \<open>auto split: if_splits\<close>)
qed simp

lemma exact_Slice [exact_intros]:
  assumes "exact D enc"
  shows "exact (decodeListSlice D) (\<lambda>vs. rlp_list (concat (map enc vs)))"
  unfolding exact_def
proof (intro allI impI)
  fix s ys ls vs s' assume a: "at s ys ls" and d: "decodeListSlice D s = Ok (vs, s')"
  then obtain sz s1 s2 where *: "stream_List s = Ok (sz, s1)" "stream_ListEnd s2 = Ok ((), s')"
    "(s2 = s1 \<and> vs = []) \<or> decodeSliceElems (Suc (length (st_r s1))) D s1 = Ok (vs, s2)"
    by (auto simp: decodeListSlice_def andThen_eq_Ok ret_def split: if_splits simp del: decodeSliceElems.simps)
  show "\<exists>r. ys = rlp_list (concat (map enc vs)) @ r \<and> at s' r (sub_top (length (rlp_list (concat (map enc vs)))) ls)"
  proof (rule list_exact(2) [OF a *(1,2)])
    fix r l assume "at s1 r (l # sub_top (length (head_of List (unat sz)) + unat sz) ls)"
    with *(3) SliceElems_exact [OF assms]
    show "\<exists>r'. r = concat (map enc vs) @ r' \<and>
        at s2 r' (sub_top (length (concat (map enc vs))) (l # sub_top (length (head_of List (unat sz)) + unat sz) ls))"
      by (metis append_Nil concat.simps(1) list.map(1) list.size(3) sub_top_simps(3))
  qed
qed

lemma peeks_Slice: "peeks (decodeListSlice D)"
  unfolding decodeListSlice_def by (intro peeks_andThen peeks_wrapped peeks_List)

lemma struct_field_Ok [simp]: "struct_field d s = Ok x \<longleftrightarrow> d s = Ok x"
  and array_elem_Ok [simp]: "array_elem d s = Ok x \<longleftrightarrow> d s = Ok x"
  by (auto simp: struct_field_def array_elem_def split: outcome.splits)

lemma decodes_field [decodes_intros]: "decodes d bs v \<Longrightarrow> decodes (struct_field d) bs v"
  and exact_field [exact_intros]: "exact d enc \<Longrightarrow> exact (struct_field d) enc"
  and decodes_elem: "decodes d bs v \<Longrightarrow> decodes (array_elem d) bs v"
  and exact_elem: "exact d enc \<Longrightarrow> exact (array_elem d) enc"
  by (simp_all add: decodes_def exact_def)

end
