(* ===== verification/RlpTypes.thy ===== *)
theory RlpTypes
  imports RlpRound
begin

text \<open>
  The types built from the basic ones: pointers that may be nil, records of fields, what values a
  decoder can return at all, and the interface \<open>rlp_codec\<close> a type with an encoder and a decoder
  meets; its consequences (round trip, one encoding per value, re-encoding gives the input back)
  hold for every type that meets it.
\<close>

section \<open>Pointers that may be nil\<close>

definition nil_ptr :: "Kind \<Rightarrow> ('a \<Rightarrow> byte list) \<Rightarrow> 'a option \<Rightarrow> byte list" where
  "nil_ptr nilKind enc v = (case v of None \<Rightarrow> head_of nilKind 0 | Some x \<Rightarrow> enc x)"

text \<open>An item that is not one of the two empty values.\<close>

definition non_empty_item :: "byte list \<Rightarrow> bool" where
  "non_empty_item bs \<longleftrightarrow> (\<exists>c. bs = [c] \<and> c < 0x80) \<or> (\<exists>k b. k \<noteq> Byte \<and> bs = head_of k (length b) @ b \<and> b \<noteq> [])"

lemma non_empty_str: "b \<noteq> [] \<Longrightarrow> non_empty_item (rlp_str b)"
proof (cases b rule: rlp_str_cases)
  case more
  assume "b \<noteq> []"
  with more(2) have "String \<noteq> Byte \<and> rlp_str b = head_of String (length b) @ b \<and> b \<noteq> []" by simp
  then show ?thesis unfolding non_empty_item_def by blast
qed (simp add: non_empty_item_def)

lemma non_empty_list: "c \<noteq> [] \<Longrightarrow> non_empty_item (rlp_list c)"
  unfolding non_empty_item_def rlp_list_head by blast

lemma Kind_non_empty:
  assumes "non_empty_item bs" and a: "at s (bs @ ys) ls" and f: "fits (length bs) ls"
  shows "\<exists>k sz s1. stream_Kind s = Ok ((k, sz), s1) \<and> \<not> (k \<noteq> Byte \<and> sz = 0)"
  using assms(1) unfolding non_empty_item_def
proof
  assume "\<exists>c. bs = [c] \<and> c < 0x80"
  then obtain c where "bs = [c]" "c < 0x80" by blast
  with Kind_byte [of s c ys ls] a f show ?thesis by auto
next
  assume "\<exists>k b. k \<noteq> Byte \<and> bs = head_of k (length b) @ b \<and> b \<noteq> []"
  then obtain k b where kb: "k \<noteq> Byte" "bs = head_of k (length b) @ b" "b \<noteq> []" by blast
  have "length b < 2 ^ 64" using base_length a kb(2) unfolding at_def by fastforce
  then have "unat (word_of_nat (length b) :: u64) = length b" by (simp add: unat_of_nat)
  with kb(3) have "(word_of_nat (length b) :: u64) \<noteq> 0" by (metis length_0_conv unsigned_0)
  moreover have "\<exists>s1. stream_Kind s = Ok ((k, word_of_nat (length b)), s1)"
    using Kind_head [of s k "length b" b ys ls] a f kb by auto
  ultimately show ?thesis by blast
qed

lemma decodes_Ptr_None:
  assumes "nilKind \<noteq> Byte"
  shows "decodes (makeNilPtrDecoder nilKind d) (nil_ptr nilKind enc None) None"
  unfolding decodes_def nil_ptr_def option.case
proof (intro allI impI)
  fix s ys ls assume "at s (head_of nilKind 0 @ ys) ls" and "fits (length (head_of nilKind 0)) ls"
  then obtain s1 where s1: "stream_Kind s = Ok ((nilKind, 0), s1)" "peeked s1 nilKind 0 ys (sub_top (length (head_of nilKind 0)) ls)"
    using Kind_head [of s nilKind 0 "[]" ys ls] assms by auto
  with at_rearm [OF s1(2)] assms
  show "\<exists>s'. makeNilPtrDecoder nilKind d s = Ok (None, s') \<and> at s' ys (sub_top (length (head_of nilKind 0)) ls)"
    by (auto simp: makeNilPtrDecoder_def andThen_def wrapped_def ret_def)
qed

lemma decodes_Ptr_Some:
  assumes "decodes d (enc v) v" and "peeks d" and "non_empty_item (enc v)"
  shows "decodes (makeNilPtrDecoder nilKind d) (nil_ptr nilKind enc (Some v)) (Some v)"
  unfolding decodes_def nil_ptr_def option.case
proof (intro allI impI)
  fix s ys ls assume a: "at s (enc v @ ys) ls" and f: "fits (length (enc v)) ls"
  obtain k sz s1 where k: "stream_Kind s = Ok ((k, sz), s1)" "\<not> (k \<noteq> Byte \<and> sz = 0)"
    using Kind_non_empty [OF assms(3) a f] by blast
  have "d s1 = d s" using assms(2) k(1) unfolding peeks_def by blast
  moreover obtain s2 where "d s = Ok (v, s2)" "at s2 ys (sub_top (length (enc v)) ls)"
    using assms(1) a f unfolding decodes_def by blast
  ultimately show "\<exists>s'. makeNilPtrDecoder nilKind d s = Ok (Some v, s') \<and> at s' ys (sub_top (length (enc v)) ls)"
    using k by (auto simp: makeNilPtrDecoder_def andThen_def wrapped_def ret_def)
qed

lemma exact_Ptr [exact_intros]:
  assumes "exact d enc" and "peeks d"
  shows "exact (makeNilPtrDecoder nilKind d) (nil_ptr nilKind enc)"
  unfolding exact_def
proof (intro allI impI)
  fix s ys ls v s' assume a: "at s ys ls" and d: "makeNilPtrDecoder nilKind d s = Ok (v, s')"
  then obtain k sz s1 where k: "stream_Kind s = Ok ((k, sz), s1)" by (auto simp: makeNilPtrDecoder_def andThen_eq_Ok)
  show "\<exists>r. ys = nil_ptr nilKind enc v @ r \<and> at s' r (sub_top (length (nil_ptr nilKind enc v)) ls)"
  proof (cases "k \<noteq> Byte \<and> sz = 0")
    case True
    with k d have v: "v = None" "k = nilKind" "rearm s1 = Ok ((), s')"
      by (auto simp: makeNilPtrDecoder_def andThen_eq_Ok ret_def throw_def split: if_splits)
    from Kind_Ok [OF a k] True obtain r where "ys = head_of k 0 @ r" "peeked s1 k sz r (sub_top (length (head_of k 0)) ls)" by auto
    with v at_rearm [of s1 k sz r] show ?thesis by (auto simp: nil_ptr_def)
  next
    case False
    with k d obtain w where w: "v = Some w" "d s1 = Ok (w, s')"
      by (auto simp: makeNilPtrDecoder_def andThen_eq_Ok ret_def)
    have "d s = Ok (w, s')" using assms(2) k w(2) unfolding peeks_def by auto
    with assms(1) a w(1) show ?thesis unfolding exact_def by (auto simp: nil_ptr_def)
  qed
qed

lemma peeks_Ptr: "peeks (makeNilPtrDecoder nilKind d)"
  unfolding makeNilPtrDecoder_def peeks_def
  by (auto simp: andThen_def wrapped_def wrapStreamError_def dest: Kind_cached)

section \<open>Structs field by field\<close>

text \<open>Exactness against a relation, so that the fields of a struct can be taken one at a time.\<close>

definition exactly :: "(rlp_stream, 'a) action \<Rightarrow> ('a \<Rightarrow> byte list \<Rightarrow> bool) \<Rightarrow> bool" where
  "exactly D R \<longleftrightarrow> (\<forall>s ys ls v s'. at s ys ls \<longrightarrow> D s = Ok (v, s') \<longrightarrow>
     (\<exists>bs r. ys = bs @ r \<and> R v bs \<and> at s' r (sub_top (length bs) ls)))"

lemma exactly_exact: "exactly D (\<lambda>v bs. bs = enc v) \<Longrightarrow> exact D enc"
  unfolding exactly_def exact_def by blast

lemma exactly_ret: "R v [] \<Longrightarrow> exactly (ret v) R"
  unfolding exactly_def ret_def by (auto intro: exI [of _ "[]"])

lemma exactly_andThen:
  assumes "exact D enc" and "\<And>u. exactly (K u) (\<lambda>v bs. R v (enc u @ bs))"
  shows "exactly (andThen D K) R"
  unfolding exactly_def
proof (intro allI impI)
  fix s ys ls v s' assume a: "at s ys ls" and "andThen D K s = Ok (v, s')"
  then obtain u s1 where u: "D s = Ok (u, s1)" "K u s1 = Ok (v, s')" by (auto simp: andThen_eq_Ok)
  from assms(1) a u(1) obtain r where r: "ys = enc u @ r" "at s1 r (sub_top (length (enc u)) ls)"
    unfolding exact_def by blast
  have "\<exists>bs r'. r = bs @ r' \<and> R v (enc u @ bs) \<and> at s' r' (sub_top (length bs) (sub_top (length (enc u)) ls))"
    using assms(2) [of u, unfolded exactly_def, rule_format, OF r(2) u(2)] .
  then obtain bs r' where "r = bs @ r'" "R v (enc u @ bs)"
      "at s' r' (sub_top (length bs) (sub_top (length (enc u)) ls))" by (elim exE conjE)
  with r show "\<exists>bs r. ys = bs @ r \<and> R v bs \<and> at s' r (sub_top (length bs) ls)"
    by (intro exI [of _ "enc u @ bs"] exI [of _ r']) simp
qed

lemma decodes_Uint64 [decodes_intros]: "decodes (decodeUint 64) (rlp_uint v) v"
  and exact_Uint64 [exact_intros]: "exact (decodeUint 64) rlp_uint"
  using decodes_decodeUint [of v 8] exact_decodeUint [of 64] unsigned_less [of v] by simp_all

lemma decodes_ByteSlice [decodes_intros]: "decodes decodeByteSlice (rlp_str b) b"
  and exact_ByteSlice [exact_intros]: "exact decodeByteSlice rlp_str"
  unfolding decodeByteSlice_def by (intro decodes_wrapped decodes_Bytes exact_wrapped exact_Bytes)+

section \<open>The values a decoder can return\<close>

definition yields :: "(rlp_stream, 'a) action \<Rightarrow> ('a \<Rightarrow> bool) \<Rightarrow> bool" where
  "yields D P \<longleftrightarrow> (\<forall>s v s'. D s = Ok (v, s') \<longrightarrow> P v)"

named_theorems yields_intros \<open>the values decoders can return\<close>

lemma yields_True: "yields D (\<lambda>_. True)"
  by (simp add: yields_def)

lemma yields_ret: "P v \<Longrightarrow> yields (ret v) P"
  and yields_throw: "yields (throw e) P"
  by (simp_all add: yields_def ret_def throw_def)

lemma yields_andThen: "yields D P \<Longrightarrow> (\<And>u. P u \<Longrightarrow> yields (K u) Q) \<Longrightarrow> yields (andThen D K) Q"
  unfolding yields_def andThen_eq_Ok by blast

lemma yields_wrapped: "yields D P \<Longrightarrow> yields (wrapped D) P"
  and yields_field [yields_intros]: "yields D P \<Longrightarrow> yields (struct_field D) P"
  by (simp_all add: yields_def)

lemma yields_Struct [yields_intros]: "yields body P \<Longrightarrow> yields (makeStructDecoder body) P"
  unfolding makeStructDecoder_def by (auto simp: yields_def andThen_eq_Ok ret_def)

lemma yields_BigInt [yields_intros]: "yields decodeBigInt (\<lambda>i. 0 \<le> i)"
  unfolding decodeBigInt_def by (auto simp: yields_def andThen_eq_Ok ret_def throw_def split: if_splits)

lemma yields_readFull: "yields (readFull n) (\<lambda>b. length b = n)"
  by (auto simp: yields_def readFull_def andThen_eq_Ok split: if_splits)

lemma yields_ByteArray [yields_intros]: "yields (decodeByteArray n) (\<lambda>b. length b = n)"
  unfolding decodeByteArray_def
proof (rule yields_andThen [OF yields_True])
  fix x :: "Kind \<times> u64"
  obtain kind sz where x: "x = (kind, sz)" by (cases x)
  have "yields (andThen (readFull n) (\<lambda>slice. if sz = 1 \<and> hd slice < 128 then throw (wrapStreamError ErrCanonSize) else ret slice))
      (\<lambda>b. length b = n)"
    by (rule yields_andThen [OF yields_readFull]) (auto intro: yields_ret yields_throw)
  then show "yields (case x of (kind, sz) \<Rightarrow> (case kind of
       Byte \<Rightarrow> if n = 0 then throw (decodeError ''input string too long'')
         else if n > 1 then throw (decodeError ''input string too short'')
         else andThen rearm (\<lambda>_ s. Ok ([st_byteval s], s))
     | String \<Rightarrow> if n < unat sz then throw (decodeError ''input string too long'')
         else if n > unat sz then throw (decodeError ''input string too short'')
         else andThen (readFull n) (\<lambda>slice.
           if sz = 1 \<and> hd slice < 128 then throw (wrapStreamError ErrCanonSize) else ret slice)
     | List \<Rightarrow> throw (wrapStreamError ErrExpectedString))) (\<lambda>b. length b = n)"
    by (cases kind) (auto simp: x yields_def throw_def rearm_def andThen_def)
qed

lemma SliceElems_yields: "yields D P \<Longrightarrow> decodeSliceElems n D s = Ok (vs, s') \<Longrightarrow> v \<in> set vs \<Longrightarrow> P v"
proof (induction n arbitrary: s vs s')
  case (Suc n)
  show ?case
  proof (cases "D s")
    case (Ok x)
    then obtain w s1 where w: "D s = Ok (w, s1)" by (cases x) auto
    with Suc.prems(2) obtain ws where "decodeSliceElems n D s1 = Ok (ws, s')" "vs = w # ws"
      by (auto simp: bind_outcome_eq_Ok)
    moreover have "P w" using w Suc.prems(1) by (auto simp: yields_def)
    ultimately show ?thesis using Suc.IH [OF Suc.prems(1)] Suc.prems(3) by auto
  qed (use Suc.prems in \<open>auto split: if_splits\<close>)
qed simp

lemma yields_Slice [yields_intros]: "yields D P \<Longrightarrow> yields (decodeListSlice D) (\<lambda>vs. \<forall>v \<in> set vs. P v)"
  unfolding decodeListSlice_def
proof (rule yields_andThen [OF yields_True])
  fix sz :: u64
  assume D: "yields D P"
  have "yields (\<lambda>s. decodeSliceElems (Suc (length (st_r s))) D s) (\<lambda>vs. \<forall>v \<in> set vs. P v)"
    unfolding yields_def using SliceElems_yields [OF D] by blast
  then have "yields (andThen (\<lambda>s. decodeSliceElems (Suc (length (st_r s))) D s) (\<lambda>vs. andThen stream_ListEnd (\<lambda>_. ret vs)))
      (\<lambda>vs. \<forall>v \<in> set vs. P v)"
    by (rule yields_andThen) (auto intro: yields_andThen [OF yields_True] yields_ret)
  moreover have "yields (andThen stream_ListEnd (\<lambda>_. ret [])) (\<lambda>vs. \<forall>v \<in> set vs. P v)"
    by (rule yields_andThen [OF yields_True]) (auto intro: yields_ret)
  ultimately show "yields (if sz = 0 then andThen stream_ListEnd (\<lambda>_. ret [])
     else andThen (\<lambda>s. decodeSliceElems (Suc (length (st_r s))) D s) (\<lambda>vs.
       andThen stream_ListEnd (\<lambda>_. ret vs))) (\<lambda>vs. \<forall>v \<in> set vs. P v)"
    by (simp only: split: if_split) blast
qed

lemma yields_Ptr [yields_intros]:
  "yields d P \<Longrightarrow> yields (makeNilPtrDecoder nilKind d) (\<lambda>v. \<forall>x. v = Some x \<longrightarrow> P x)"
  unfolding makeNilPtrDecoder_def
  by (auto simp: yields_def andThen_eq_Ok ret_def throw_def split: if_splits)

lemma exactly_yields: "exact D enc \<Longrightarrow> yields D P \<Longrightarrow> exactly D (\<lambda>v bs. bs = enc v \<and> P v)"
  unfolding exactly_def
proof (intro allI impI)
  fix s ys ls v s' assume D: "exact D enc" "yields D P" and a: "at s ys ls" "D s = Ok (v, s')"
  obtain r where "ys = enc v @ r" "at s' r (sub_top (length (enc v)) ls)"
    using D(1) [unfolded exact_def, rule_format, OF a] by (elim exE conjE)
  moreover have "P v" using D(2) a(2) unfolding yields_def by blast
  ultimately show "\<exists>bs r. ys = bs @ r \<and> (bs = enc v \<and> P v) \<and> at s' r (sub_top (length bs) ls)" by blast
qed

section \<open>What a type's codec promises\<close>

lemma at_Reset: "length b < 2 ^ 64 \<Longrightarrow> at (stream_Reset b) b []"
  by (simp add: at_def base_def stream_Reset_def unat_of_nat)

lemma at_all_read: "at s r [] \<Longrightarrow> st_r s = r"
  by (simp add: at_def base_def)

text \<open>
  The interface of a type with an encoder and a decoder: its encoder emits the encoding of a valid
  value, its decoder reads it back, and whatever the decoder accepts is the encoding of what it
  returns, which is a valid value.
\<close>

locale rlp_codec =
  fixes put :: "'a \<Rightarrow> (encbuf, unit) action" and get :: "(rlp_stream, 'a) action"
    and enc :: "'a \<Rightarrow> byte list" and valid :: "'a \<Rightarrow> bool"
  assumes put_emits: "valid v \<Longrightarrow> emits (put v) (enc v)"
    and get_decodes: "valid v \<Longrightarrow> decodes get (enc v) v"
    and get_exactly: "exactly get (\<lambda>v bs. bs = enc v \<and> valid v)"
begin

lemma encodes: "valid v \<Longrightarrow> length (enc v) < 2 ^ 64 \<Longrightarrow> EncodeToBytes (put v) = Ok (enc v)"
  using put_emits emits_encoded by blast

lemma decodes_back:
  assumes "valid v" and "length (enc v) < 2 ^ 64"
  shows "DecodeBytes (enc v) get = Ok v"
proof -
  have "at (stream_Reset (enc v)) (enc v @ []) []" using at_Reset [OF assms(2)] by simp
  then obtain s where "get (stream_Reset (enc v)) = Ok (v, s)" "at s [] (sub_top (length (enc v)) [])"
    using get_decodes [OF assms(1)] unfolding decodes_def by (meson fits_simps(1))
  with at_all_read [of s "[]"] show ?thesis by (simp add: DecodeBytes_def)
qed

lemma round_trip:
  assumes "valid v" and "EncodeToBytes (put v) = Ok b" and "length (enc v) < 2 ^ 64"
  shows "DecodeBytes b get = Ok v"
  using assms encodes decodes_back by force

lemma decoded:
  assumes "length b < 2 ^ 64" and "DecodeBytes b get = Ok v"
  shows "b = enc v \<and> valid v"
proof -
  from assms(2) obtain s where s: "get (stream_Reset b) = Ok (v, s)" "length (st_r s) = 0"
    by (auto simp: DecodeBytes_def bind_outcome_eq_Ok split: if_splits)
  obtain r where "b = enc v @ r" "valid v" "at s r []"
    using get_exactly [unfolded exactly_def, rule_format, OF at_Reset [OF assms(1)] s(1)]
    unfolding sub_top_simps(1) by (elim exE conjE) simp
  with s(2) at_all_read [of s r] show ?thesis by simp
qed

lemma canonical: "length b < 2 ^ 64 \<Longrightarrow> DecodeBytes b get = Ok v \<Longrightarrow> b = enc v"
  and decoded_valid: "length b < 2 ^ 64 \<Longrightarrow> DecodeBytes b get = Ok v \<Longrightarrow> valid v"
  using decoded by blast+

lemma re_encodes:
  assumes "length b < 2 ^ 64" and "DecodeBytes b get = Ok v"
  shows "EncodeToBytes (put v) = Ok b"
  using canonical [OF assms] encodes [OF decoded_valid [OF assms]] assms(1) by simp

lemma decode_iff:
  assumes "length b < 2 ^ 64"
  shows "DecodeBytes b get = Ok v \<longleftrightarrow> b = enc v \<and> valid v"
proof
  assume "b = enc v \<and> valid v"
  then show "DecodeBytes b get = Ok v" using decodes_back [of v] assms by (simp only:)
qed (rule decoded [OF assms])

lemma one_encoding:
  assumes "length a < 2 ^ 64" and "length b < 2 ^ 64" and "DecodeBytes a get = Ok v" and "DecodeBytes b get = Ok v"
  shows "a = b"
  by (rule trans [OF canonical [OF assms(1,3)] canonical [OF assms(2,4), symmetric]])

lemma enc_inj:
  assumes "valid v" and "valid w" and "length (enc v) < 2 ^ 64" and "enc v = enc w"
  shows "v = w"
proof -
  have "length (enc w) < 2 ^ 64" using assms(3) unfolding assms(4) .
  from decodes_back [OF assms(2) this] decodes_back [OF assms(1,3)] have "Ok v = Ok w"
    unfolding assms(4) by (rule trans [OF sym, rotated])
  then show ?thesis by (rule outcome.inject(1) [THEN iffD1])
qed

end

section \<open>Slices of a type\<close>

lemma SliceElems_exactly:
  assumes "exactly D (\<lambda>v bs. bs = enc v \<and> P v)"
  shows "decodeSliceElems n D s = Ok (vs, s') \<Longrightarrow> at s ys ls \<Longrightarrow>
    \<exists>r. ys = concat (map enc vs) @ r \<and> at s' r (sub_top (length (concat (map enc vs))) ls) \<and> (\<forall>v \<in> set vs. P v)"
proof (induction n arbitrary: s ys ls vs)
  case (Suc n)
  show ?case
  proof (cases "D s")
    case (Ok x)
    then obtain v s1 where v: "D s = Ok (v, s1)" by (cases x) auto
    with Suc.prems(1) obtain ws where ws: "decodeSliceElems n D s1 = Ok (ws, s')" "vs = v # ws"
      by (auto simp: bind_outcome_eq_Ok)
    obtain r where r: "ys = enc v @ r" "at s1 r (sub_top (length (enc v)) ls)" "P v"
      using assms [unfolded exactly_def, rule_format, OF Suc.prems(2) v] by auto
    with Suc.IH [OF ws(1) r(2)] ws(2) show ?thesis by auto
  qed (use Suc.prems in \<open>auto split: if_splits\<close>)
qed simp

lemma exactly_Slice:
  assumes "exactly D (\<lambda>v bs. bs = enc v \<and> P v)"
  shows "exactly (decodeListSlice D) (\<lambda>vs bs. bs = rlp_list (concat (map enc vs)) \<and> (\<forall>v \<in> set vs. P v))"
  unfolding exactly_def
proof (intro allI impI)
  fix s ys ls vs s' assume a: "at s ys ls" and d: "decodeListSlice D s = Ok (vs, s')"
  let ?c = "concat (map enc vs)"
  from d obtain sz s1 s2 where o: "stream_List s = Ok (sz, s1)" "stream_ListEnd s2 = Ok ((), s')"
    "(s2 = s1 \<and> vs = []) \<or> decodeSliceElems (Suc (length (st_r s1))) D s1 = Ok (vs, s2)"
    by (auto simp: decodeListSlice_def andThen_eq_Ok ret_def split: if_splits simp del: decodeSliceElems.simps)
  have elems: "\<exists>r'. r = ?c @ r' \<and> at s2 r' (sub_top (length ?c) l) \<and> (\<forall>v \<in> set vs. P v)" if at: "at s1 r l" for r l
    using o(3)
  proof
    assume "decodeSliceElems (Suc (length (st_r s1))) D s1 = Ok (vs, s2)"
    from SliceElems_exactly [OF assms this at] show ?thesis .
  qed (use at in simp)
  have el: "at s1 r l \<Longrightarrow> \<exists>r'. r = ?c @ r' \<and> at s2 r' (sub_top (length ?c) l)" for r l using elems by blast
  have "\<exists>r. ys = rlp_list ?c @ r \<and> at s' r (sub_top (length (rlp_list ?c)) ls)"
    by (rule list_exact(2) [OF a o(1,2)]) (rule el)
  then obtain r where r: "ys = rlp_list ?c @ r" "at s' r (sub_top (length (rlp_list ?c)) ls)"
    by (elim exE conjE)
  moreover have "\<forall>v \<in> set vs. P v" using List_Ok [OF a o(1)] elems by blast
  ultimately show "\<exists>bs r. ys = bs @ r \<and> (bs = rlp_list ?c \<and> (\<forall>v \<in> set vs. P v)) \<and> at s' r (sub_top (length bs) ls)"
    by (intro exI [of _ "rlp_list ?c"] exI [of _ r]) simp
qed

text \<open>A type whose decoder can be the element decoder of a slice, and the codec of its slices.\<close>

locale rlp_elem = rlp_codec +
  assumes get_peeks: "peeks get"
    and enc_ne: "enc v \<noteq> []"
begin

sublocale slice: rlp_codec "makeSliceWriter put" "decodeListSlice get" "\<lambda>vs. rlp_list (concat (map enc vs))"
  "\<lambda>vs. \<forall>v \<in> set vs. valid v"
proof
  fix vs assume "\<forall>v \<in> set vs. valid v"
  then show "emits (makeSliceWriter put vs) (rlp_list (concat (map enc vs)))"
    and "decodes (decodeListSlice get) (rlp_list (concat (map enc vs))) vs"
    by (auto intro!: emits_slice decodes_Slice put_emits get_decodes get_peeks simp: enc_ne)
qed (rule exactly_Slice [OF get_exactly])

end

end
