(* ===== verification/RlpFields.thy ===== *)
theory RlpFields
  imports RlpTypes
begin

text \<open>
  Field types the structs of the package \<^verbatim>\<open>native\<close> are made of: integers narrower than 64 bits,
  arrays of a fixed number of elements, pairs of structs.
\<close>

lemma decodes_map: "decodes d bs u \<Longrightarrow> f u = v \<Longrightarrow> decodes (andThen d (\<lambda>x. ret (f x))) bs v"
  using decodes_andThen [of d bs u "\<lambda>x. ret (f x)" "[]" v] decodes_ret [of "f u" v] by simp

section \<open>Narrow integers\<close>

lemma yields_readUint: "yields (readUint sz) (\<lambda>v. unat v < 256 ^ unat sz)"
proof -
  have "yields (andThen (readFull (unat sz)) (\<lambda>buffer. if hd buffer = 0 then throw ErrCanonSize else ret (word_of_nat (be_num buffer))))
      (\<lambda>v :: u64. unat v < 256 ^ unat sz)"
  proof (rule yields_andThen [OF yields_readFull])
    fix buffer :: "byte list" assume l: "length buffer = unat sz"
    have "unat (word_of_nat (be_num buffer) :: u64) \<le> be_num buffer" by (simp add: unat_of_nat)
    also have "\<dots> < 256 ^ unat sz" using be_num_bound [of buffer] l by simp
    finally show "yields (if hd buffer = 0 then throw ErrCanonSize else ret (word_of_nat (be_num buffer)))
        (\<lambda>v :: u64. unat v < 256 ^ unat sz)"
      by (auto intro: yields_ret yields_throw)
  qed
  moreover have "yields (andThen stream_readByte (\<lambda>b. ret (ucast b))) (\<lambda>v :: u64. unat v < 256 ^ unat (1 :: byte))"
    using unsigned_less [where 'a = nat and 'b = 8] by (auto simp: yields_def andThen_eq_Ok ret_def unat_ucast_byte)
  ultimately show ?thesis
    unfolding readUint_def by (auto simp: yields_def [of panic] panic_def) (auto simp: yields_def)
qed

lemma yields_uint:
  assumes "1 \<le> m" and "m \<le> 8"
  shows "yields (stream_uint (8 * m)) (\<lambda>v. unat v < 2 ^ (8 * m))"
  unfolding yields_def
proof (intro allI impI)
  fix s v s' assume u: "stream_uint (8 * m) s = Ok (v, s')"
  then obtain k sz s1 where k: "stream_Kind s = Ok ((k, sz), s1)" by (auto simp: stream_uint_def andThen_eq_Ok)
  have o: "(k = Byte \<and> v = ucast (st_byteval s1)) \<or> (k = String \<and> \<not> sz > word_of_nat m \<and> readUint (ucast sz) s1 = Ok (v, s'))"
    using u k by (cases k; cases "readUint (ucast sz) s1")
      (auto simp: stream_uint_def andThen_apply_Ok throw_def split: if_splits)
  have p: "(2 :: nat) ^ (8 * m) = 256 ^ m" by (simp add: power_mult)
  have "256 ^ 1 \<le> (256 :: nat) ^ m" by (rule power_increasing) (use assms in auto)
  then have m1: "256 \<le> (256 :: nat) ^ m" by simp
  from o show "unat v < 2 ^ (8 * m)"
  proof
    assume "k = Byte \<and> v = ucast (st_byteval s1)"
    then have "unat v < 256" using unsigned_less [of "st_byteval s1", where 'a = nat] by (simp add: unat_ucast_byte)
    then show ?thesis using m1 p by simp
  next
    assume st: "k = String \<and> \<not> sz > word_of_nat m \<and> readUint (ucast sz) s1 = Ok (v, s')"
    have "unat (word_of_nat m :: u64) = m" using assms(2) by (simp add: unat_of_nat)
    then have sm: "unat sz \<le> m" using st by (simp add: word_less_nat_alt)
    then have "unat (ucast sz :: byte) = unat sz" using assms(2) by (simp add: unsigned_ucast_eq take_bit_nat_eq_self)
    then have "unat v < 256 ^ unat sz" using yields_readUint [of "ucast sz"] st unfolding yields_def by metis
    also have "\<dots> \<le> 256 ^ m" by (rule power_increasing) (use sm in auto)
    finally show ?thesis using p by simp
  qed
qed

definition decodeU32 :: "(rlp_stream, u32) action" where
  "decodeU32 = andThen (decodeUint 32) (\<lambda>v. ret (ucast v))"

definition decodeU16 :: "(rlp_stream, u16) action" where
  "decodeU16 = andThen (decodeUint 16) (\<lambda>v. ret (ucast v))"

definition rlp_u32 :: "u32 \<Rightarrow> byte list" where "rlp_u32 v = rlp_uint (ucast v)"

definition rlp_u16 :: "u16 \<Rightarrow> byte list" where "rlp_u16 v = rlp_uint (ucast v)"

definition writeU32 :: "u32 \<Rightarrow> (encbuf, unit) action" where "writeU32 v = writeUint (ucast v)"

definition writeU16 :: "u16 \<Rightarrow> (encbuf, unit) action" where "writeU16 v = writeUint (ucast v)"

lemma narrow:
  fixes v :: "'a :: len word"
  assumes "LENGTH('a) \<le> 64"
  shows "unat (ucast v :: u64) = unat v" and "ucast (ucast v :: u64) = v"
proof -
  have "unat v < 2 ^ LENGTH('a)" by (rule unsigned_less)
  also have "\<dots> \<le> 2 ^ 64" by (rule power_increasing) (use assms in auto)
  finally show u: "unat (ucast v :: u64) = unat v" by (simp add: unsigned_ucast_eq take_bit_nat_eq_self)
  then show "ucast (ucast v :: u64) = v"
    by (intro word_unat_eq_iff [THEN iffD2]) (simp add: unsigned_ucast_eq unsigned_take_bit_eq take_bit_nat_eq_self unsigned_less)
qed

lemma widen:
  assumes "unat (w :: u64) < 2 ^ LENGTH('a :: len)"
  shows "ucast (ucast w :: 'a word) = w"
  using assms by (intro word_unat_eq_iff [THEN iffD2]) (simp add: unsigned_ucast_eq unsigned_take_bit_eq take_bit_nat_eq_self)

lemma yields_decodeUint: "1 \<le> m \<Longrightarrow> m \<le> 8 \<Longrightarrow> yields (decodeUint (8 * m)) (\<lambda>v. unat v < 2 ^ (8 * m))"
  unfolding decodeUint_def by (intro yields_wrapped yields_uint)

lemma narrow_decodes:
  fixes v :: "'a :: len word"
  assumes "LENGTH('a) = 8 * m" and "m \<le> 8"
  shows "decodes (andThen (decodeUint (8 * m)) (\<lambda>v. ret (ucast v))) (rlp_uint (ucast v)) v"
proof -
  have n: "LENGTH('a) \<le> 64" using assms by simp
  have "unat (ucast v :: u64) < 2 ^ (8 * m)" using narrow(1) [OF n, of v] unsigned_less [of v, where 'a = nat] assms(1) by simp
  from decodes_decodeUint [OF this assms(2)] narrow(2) [OF n] show ?thesis by (rule decodes_map)
qed

lemma narrow_exact:
  assumes "LENGTH('a :: len) = 8 * m" and "1 \<le> m" and "m \<le> 8"
  shows "exact (andThen (decodeUint (8 * m)) (\<lambda>v. ret (ucast v :: 'a word))) (\<lambda>v. rlp_uint (ucast v))"
  unfolding exact_def
proof (intro allI impI)
  fix s ys ls and v :: "'a word" and s'
  assume a: "at s ys ls" and "andThen (decodeUint (8 * m)) (\<lambda>v. ret (ucast v :: 'a word)) s = Ok (v, s')"
  then obtain w where w: "decodeUint (8 * m) s = Ok (w, s')" "v = ucast w" by (auto simp: andThen_eq_Ok ret_def)
  have "unat w < 2 ^ (8 * m)" using yields_decodeUint [OF assms(2,3)] w(1) unfolding yields_def by blast
  then have "(ucast v :: u64) = w" using widen [where 'a = 'a, of w] assms(1) w(2) by simp
  moreover have "8 * m \<le> 64" using assms(3) by simp
  ultimately show "\<exists>r. ys = rlp_uint (ucast v) @ r \<and> at s' r (sub_top (length (rlp_uint (ucast v))) ls)"
    using exact_decodeUint [of "8 * m", unfolded exact_def, rule_format, OF _ a w(1)] by simp
qed

lemma decodes_U32: "decodes decodeU32 (rlp_u32 v) v" and decodes_U16: "decodes decodeU16 (rlp_u16 u) u"
  using narrow_decodes [of 4 v] narrow_decodes [of 2 u] by (simp_all add: decodeU32_def decodeU16_def rlp_u32_def rlp_u16_def)

lemma exact_U32: "exact decodeU32 rlp_u32" and exact_U16: "exact decodeU16 rlp_u16"
  using narrow_exact [of 4, where 'a = 32] narrow_exact [of 2, where 'a = 16]
  by (simp_all add: decodeU32_def decodeU16_def rlp_u32_def [abs_def] rlp_u16_def [abs_def])

lemma emits_U32: "emits (writeU32 v) (rlp_u32 v)" and emits_U16: "emits (writeU16 u) (rlp_u16 u)"
  by (simp_all add: writeU32_def writeU16_def rlp_u32_def rlp_u16_def rlp_uint_def emits_writeUint)

section \<open>Arrays\<close>

lemma ListArray_Struct: "decodeListArray n d = makeStructDecoder (repeat_action n (array_elem d))"
  by (simp add: decodeListArray_def makeStructDecoder_def)

lemma decodes_repeat: "\<forall>v \<in> set vs. decodes d (enc v) v \<Longrightarrow> decodes (repeat_action (length vs) d) (concat (map enc vs)) vs"
proof (induction vs)
  case (Cons v vs)
  from Cons have "decodes (repeat_action (length vs) d) (concat (map enc vs)) vs" by simp
  then have "decodes (andThen (repeat_action (length vs) d) (\<lambda>xs. ret (v # xs))) (concat (map enc vs)) (v # vs)"
    by (rule decodes_map) simp
  with Cons.prems show ?case using decodes_andThen [of d "enc v" v] by simp
qed (simp add: decodes_ret)

lemma exact_repeat: "exact d enc \<Longrightarrow> exact (repeat_action n d) (\<lambda>vs. concat (map enc vs))"
proof (induction n)
  case (Suc n)
  show ?case unfolding repeat_action.simps
    by (intro exactly_exact exactly_andThen [OF Suc.prems] exactly_andThen [OF Suc.IH [OF Suc.prems]] exactly_ret) simp
qed (auto simp: exact_def ret_def)

lemma yields_repeat: "yields d P \<Longrightarrow> yields (repeat_action n d) (\<lambda>vs. length vs = n \<and> (\<forall>v \<in> set vs. P v))"
proof (induction n)
  case (Suc n)
  show ?case unfolding repeat_action.simps
    by (rule yields_andThen [OF Suc.prems], rule yields_andThen [OF Suc.IH [OF Suc.prems]], rule yields_ret) auto
qed (simp add: yields_ret)

text \<open>The two-element arrays, as pairs.\<close>

definition writePair :: "('a \<Rightarrow> (encbuf, unit) action) \<Rightarrow> 'a \<times> 'a \<Rightarrow> (encbuf, unit) action" where
  "writePair W p = makeSliceWriter W [fst p, snd p]"

definition decodePair :: "(rlp_stream, 'a) action \<Rightarrow> (rlp_stream, 'a \<times> 'a) action" where
  "decodePair d = andThen (decodeListArray 2 d) (\<lambda>vs. ret (vs ! 0, vs ! 1))"

definition pair_enc :: "('a \<Rightarrow> byte list) \<Rightarrow> 'a \<times> 'a \<Rightarrow> byte list" where
  "pair_enc enc p = rlp_list (enc (fst p) @ enc (snd p))"

lemma emits_Pair: "(\<And>v. v \<in> {fst p, snd p} \<Longrightarrow> emits (W v) (enc v)) \<Longrightarrow> emits (writePair W p) (pair_enc enc p)"
  using emits_slice [of "[fst p, snd p]" W enc] by (simp add: writePair_def pair_enc_def)

lemma decodes_Pair: "decodes d (enc (fst p)) (fst p) \<Longrightarrow> decodes d (enc (snd p)) (snd p) \<Longrightarrow>
    decodes (decodePair d) (pair_enc enc p) p"
proof -
  assume d: "decodes d (enc (fst p)) (fst p)" "decodes d (enc (snd p)) (snd p)"
  have "decodes (repeat_action (length [fst p, snd p]) (array_elem d)) (concat (map enc [fst p, snd p])) [fst p, snd p]"
    by (rule decodes_repeat) (use d in \<open>auto intro: decodes_elem\<close>)
  then have "decodes (decodeListArray 2 d) (pair_enc enc p) [fst p, snd p]"
    using decodes_Struct by (simp add: ListArray_Struct pair_enc_def numeral_2_eq_2)
  then show ?thesis unfolding decodePair_def by (rule decodes_map) simp
qed

lemma exact_Pair: "exact d enc \<Longrightarrow> exact (decodePair d) (pair_enc enc)"
  unfolding exact_def [of "decodePair d"]
proof (intro allI impI)
  fix s ys ls p s' assume d: "exact d enc" and a: "at s ys ls" and "decodePair d s = Ok (p, s')"
  then obtain vs where vs: "decodeListArray 2 d s = Ok (vs, s')" "p = (vs ! 0, vs ! 1)"
    by (auto simp: decodePair_def andThen_eq_Ok ret_def)
  have ex: "exact (decodeListArray 2 d) (\<lambda>vs. rlp_list (concat (map enc vs)))"
    unfolding ListArray_Struct by (intro exact_Struct exact_repeat exact_elem d)
  have "yields (decodeListArray 2 d) (\<lambda>vs. length vs = 2 \<and> (\<forall>v \<in> set vs. True))"
    unfolding ListArray_Struct by (intro yields_Struct yields_repeat yields_True)
  then have "length vs = 2" using vs(1) unfolding yields_def by blast
  then have "vs = [vs ! 0, vs ! 1]" by (auto simp: numeral_2_eq_2 length_Suc_conv)
  then have "concat (map enc vs) = enc (fst p) @ enc (snd p)" using vs(2) by (metis append_Nil2 concat.simps fst_conv list.map snd_conv)
  then show "\<exists>r. ys = pair_enc enc p @ r \<and> at s' r (sub_top (length (pair_enc enc p)) ls)"
    using ex [unfolded exact_def, rule_format, OF a vs(1)] by (simp add: pair_enc_def)
qed

lemma yields_Pair: "yields d P \<Longrightarrow> yields (decodePair d) (\<lambda>p. P (fst p) \<and> P (snd p))"
proof -
  assume "yields d P"
  then have "yields (array_elem d) P" by (simp add: yields_def)
  then have "yields (decodeListArray 2 d) (\<lambda>vs. length vs = 2 \<and> (\<forall>v \<in> set vs. P v))"
    unfolding ListArray_Struct by (intro yields_Struct yields_repeat)
  then show ?thesis unfolding decodePair_def by (rule yields_andThen) (auto intro: yields_ret)
qed

end
