(* ===== verification/RlpRaw.thy ===== *)
theory RlpRaw
  imports RlpTypes
begin

text \<open>
  \<^verbatim>\<open>rlp/raw.go\<close> and \<^verbatim>\<open>rlp/iterator.go\<close>: splitting encoded values out of a byte slice without a
  stream, counting them, appending integers, and the list iterator.  The functions that return the
  input on failure return only the error here.
\<close>

unbundle bit_operations_syntax

section \<open>The functions\<close>

definition ListSize :: "u64 \<Rightarrow> u64" where
  "ListSize contentSize = word_of_nat (headsize contentSize) + contentSize"

definition IntSize :: "u64 \<Rightarrow> nat" where
  "IntSize x = (if x < 0x80 then 1 else 1 + intsize x)"

text \<open>The bytes shifted into one word, the first one highest.\<close>

definition join_bytes :: "byte list \<Rightarrow> u64" where
  "join_bytes bs = foldl (\<lambda>s c. push_bit 8 s OR ucast c) 0 bs"

definition readSize :: "byte list \<Rightarrow> byte \<Rightarrow> u64 outcome" where
  "readSize b slen =
     (if unat slen > length b then Fail ErrUnexpectedEOF
      else let s = (if 1 \<le> slen \<and> slen \<le> 8 then join_bytes (take (unat slen) b) else 0) in
        if s < 56 \<or> hd b = 0 then Fail ErrCanonSize else Ok s)"

definition raw_kind :: "byte list \<Rightarrow> (Kind \<times> u64 \<times> u64) outcome" where
  "raw_kind buf = (let b = hd buf in
     if b < 0x80 then Ok (Byte, 0, 1)
     else if b < 0xB8 then
       (let contentsize = ucast (b - 0x80) in
        if contentsize = 1 \<and> length buf > 1 \<and> buf ! 1 < 128 then Fail ErrCanonSize else Ok (String, 1, contentsize))
     else if b < 0xC0 then
       bind_outcome (readSize (tl buf) (b - 0xB7)) (\<lambda>cs. Ok (String, ucast (b - 0xB7) + 1, cs))
     else if b < 0xF8 then Ok (List, 1, ucast (b - 0xC0))
     else bind_outcome (readSize (tl buf) (b - 0xF7)) (\<lambda>cs. Ok (List, ucast (b - 0xF7) + 1, cs)))"

definition readKind :: "byte list \<Rightarrow> (Kind \<times> u64 \<times> u64) outcome" where
  "readKind buf =
     (if length buf = 0 then Fail ErrUnexpectedEOF
      else bind_outcome (raw_kind buf) (\<lambda>(k, tagsize, contentsize).
        if contentsize > word_of_nat (length buf) - tagsize then Fail ErrValueTooLarge
        else Ok (k, tagsize, contentsize)))"

definition Split :: "byte list \<Rightarrow> (Kind \<times> byte list \<times> byte list) outcome" where
  "Split b = bind_outcome (readKind b) (\<lambda>(k, ts, cs).
     Ok (k, take (unat cs) (drop (unat ts) b), drop (unat (ts + cs)) b))"

definition SplitString :: "byte list \<Rightarrow> (byte list \<times> byte list) outcome" where
  "SplitString b = bind_outcome (Split b) (\<lambda>(k, content, rest).
     if k = List then Fail ErrExpectedString else Ok (content, rest))"

definition SplitUint64 :: "byte list \<Rightarrow> (u64 \<times> byte list) outcome" where
  "SplitUint64 b = bind_outcome (SplitString b) (\<lambda>(content, rest).
     if length content = 0 then Ok (0, rest)
     else if length content = 1 then if hd content = 0 then Fail ErrCanonInt else Ok (ucast (hd content), rest)
     else if length content > 8 then Fail errUintOverflow
     else case readSize content (word_of_nat (length content)) of
       Ok x \<Rightarrow> Ok (x, rest) | Fail _ \<Rightarrow> Fail ErrCanonInt | Panic \<Rightarrow> Panic)"

definition SplitList :: "byte list \<Rightarrow> (byte list \<times> byte list) outcome" where
  "SplitList b = bind_outcome (Split b) (\<lambda>(k, content, rest).
     if k \<noteq> List then Fail ErrExpectedList else Ok (content, rest))"

text \<open>
  The loop of \<^verbatim>\<open>CountValues\<close>: an accepted value takes at least one byte, so the slice shrinks;
  the first argument bounds the rounds by the number of bytes.
\<close>

primrec CountValues_loop :: "nat \<Rightarrow> byte list \<Rightarrow> nat \<Rightarrow> nat outcome" where
  "CountValues_loop 0 b i = (if length b > 0 then Panic else Ok i)"
| "CountValues_loop (Suc n) b i =
     (if length b > 0
      then bind_outcome (readKind b) (\<lambda>(_, tagsize, sz). CountValues_loop n (drop (unat (tagsize + sz)) b) (i + 1))
      else Ok i)"

definition CountValues :: "byte list \<Rightarrow> nat outcome" where
  "CountValues b = CountValues_loop (length b) b 0"

definition AppendUint64 :: "byte list \<Rightarrow> u64 \<Rightarrow> byte list" where
  "AppendUint64 b i = (let sh = (\<lambda>n. ucast (drop_bit n i) :: byte) in
     if i = 0 then b @ [0x80]
     else if i < 128 then b @ [ucast i]
     else if i < 2 ^ 8 then b @ [0x81, ucast i]
     else if i < 2 ^ 16 then b @ [0x82, sh 8, ucast i]
     else if i < 2 ^ 24 then b @ [0x83, sh 16, sh 8, ucast i]
     else if i < 2 ^ 32 then b @ [0x84, sh 24, sh 16, sh 8, ucast i]
     else if i < 2 ^ 40 then b @ [0x85, sh 32, sh 24, sh 16, sh 8, ucast i]
     else if i < 2 ^ 48 then b @ [0x86, sh 40, sh 32, sh 24, sh 16, sh 8, ucast i]
     else if i < 2 ^ 56 then b @ [0x87, sh 48, sh 40, sh 32, sh 24, sh 16, sh 8, ucast i]
     else b @ [0x88, sh 56, sh 48, sh 40, sh 32, sh 24, sh 16, sh 8, ucast i])"

record listIterator =
  it_data :: "byte list"
  it_next :: "byte list"
  it_err :: "error option"

definition NewListIterator :: "byte list \<Rightarrow> listIterator outcome" where
  "NewListIterator buf = bind_outcome (readKind buf) (\<lambda>(k, t, c).
     if k \<noteq> List then Fail ErrExpectedList
     else Ok \<lparr>it_data = take (unat c) (drop (unat t) buf), it_next = [], it_err = None\<rparr>)"

text \<open>On failure \<^verbatim>\<open>readKind\<close> returns zero sizes: the iterator stays where it is.\<close>

definition it_Next :: "listIterator \<Rightarrow> bool \<times> listIterator" where
  "it_Next it =
     (if length (it_data it) = 0 then (False, it)
      else case readKind (it_data it) of
        Ok (k, t, c) \<Rightarrow> (True, it\<lparr>it_next := take (unat (t + c)) (it_data it), it_data := drop (unat (t + c)) (it_data it),
          it_err := None\<rparr>)
      | Fail e \<Rightarrow> (True, it\<lparr>it_next := [], it_err := Some e\<rparr>)
      | Panic \<Rightarrow> (True, it))"

section \<open>Sizes\<close>

lemma unat_u64: "n < 2 ^ 64 \<Longrightarrow> unat (word_of_nat n :: u64) = n"
  by (simp add: unat_of_nat)

lemma join_bytes_eq: "join_bytes bs = word_of_nat (be_num bs)"
proof (induction bs rule: rev_induct)
  case (snoc c bs)
  have "push_bit 8 (join_bytes bs) OR ucast c = push_bit 8 (join_bytes bs) + ucast c"
    by (rule disjunctive_add [symmetric]) (auto simp: bit_push_bit_iff bit_ucast_iff dest: bit_imp_le_length)
  also have "\<dots> = word_of_nat (256 * be_num bs + unat c)" by (simp add: snoc push_bit_eq_mult)
  finally show ?case by (simp add: join_bytes_def mult.commute)
qed (simp add: join_bytes_def be_num_def)

lemma readSize_Ok:
  assumes "1 \<le> unat m" and "unat m \<le> 8"
  shows "readSize ys m = Ok sz \<longleftrightarrow> 56 \<le> unat sz \<and> length (be_bytes (unat sz)) = unat m \<and> (\<exists>r. ys = be_bytes (unat sz) @ r)"
    (is "?L \<longleftrightarrow> ?R")
proof -
  let ?b = "take (unat m) ys"
  have m: "1 \<le> m" "m \<le> 8" using assms by (simp_all add: word_le_nat_alt)
  have L: "?L \<longleftrightarrow> unat m \<le> length ys \<and> sz = word_of_nat (be_num ?b) \<and> 56 \<le> unat sz \<and> hd ys \<noteq> 0"
    using m by (auto simp: readSize_def Let_def join_bytes_eq word_less_nat_alt)
  show ?thesis
  proof
    assume ?L
    then have *: "unat m \<le> length ys" "sz = word_of_nat (be_num ?b)" "56 \<le> unat sz" "hd ys \<noteq> 0" using L by auto
    have u: "unat sz = be_num ?b" using *(2) be_num_take_word [OF assms(2)] by simp
    have "hd ?b = hd ys" using assms(1) *(1) by (cases ys; cases "unat m") auto
    then have bb: "be_bytes (unat sz) = ?b" using *(4) by (simp add: u be_bytes_be_num)
    then have "ys = be_bytes (unat sz) @ drop (unat m) ys" by simp
    then show ?R using *(1,3) bb by (metis length_take min.absorb2)
  next
    assume R: ?R
    then obtain r where ys: "ys = be_bytes (unat sz) @ r" by blast
    have "hd ys \<noteq> 0" using hd_be_bytes [of "unat sz"] R ys by (cases "be_bytes (unat sz)") auto
    then show ?L unfolding L using R ys by simp
  qed
qed

text \<open>An encoded value at the front of a buffer, as the grammar has it.\<close>

definition item_at :: "Kind \<Rightarrow> byte list \<Rightarrow> byte list \<Rightarrow> byte list \<Rightarrow> bool" where
  "item_at k c r buf \<longleftrightarrow> (case k of
     Byte \<Rightarrow> (\<exists>b. c = [b] \<and> b < 0x80) \<and> buf = c @ r
   | String \<Rightarrow> \<not> (\<exists>b. c = [b] \<and> b < 0x80) \<and> buf = head_of String (length c) @ c @ r
   | List \<Rightarrow> buf = head_of List (length c) @ c @ r)"

lemma lts: "b < 0x80 \<longleftrightarrow> unat b < 0x80" "b < 0xB8 \<longleftrightarrow> unat b < 0xB8" "b < 0xC0 \<longleftrightarrow> unat b < 0xC0" "b < 0xF8 \<longleftrightarrow> unat b < 0xF8"
  for b :: byte
  by (simp_all add: word_less_nat_alt)

lemma tag_cases:
  fixes b :: byte
  obtains (one) "unat b < 0x80" | (str) "0x80 \<le> unat b" "unat b < 0xB8" | (strs) "0xB8 \<le> unat b" "unat b < 0xC0"
    | (lst) "0xC0 \<le> unat b" "unat b < 0xF8" | (lsts) "0xF8 \<le> unat b" "unat b \<le> 0xFF"
  using unsigned_less [of b, where ?'a = nat] by (simp; linarith)

lemma raw_short:
  assumes "k \<noteq> Byte" and "small_tag k \<le> b" and "unat b < unat (small_tag k) + 56"
  shows "head_of k (unat (ucast (b - small_tag k) :: u64)) = [b]" and "unat (ucast (b - small_tag k) :: u64) = unat b - unat (small_tag k)"
proof -
  show n: "unat (ucast (b - small_tag k) :: u64) = unat b - unat (small_tag k)"
    using unat_sub [OF assms(2)] by (simp add: unat_ucast_byte)
  then show "head_of k (unat (ucast (b - small_tag k) :: u64)) = [b]"
    using assms(3) byte_diff [OF assms(2)] by (simp add: head_of_short)
qed

lemma raw_long:
  assumes "k \<noteq> Byte" and "large_tag k < b" and "unat b \<le> unat (large_tag k) + 8" and "readSize yt (b - large_tag k) = Ok sz"
  shows "\<exists>r. b # yt = head_of k (unat sz) @ r" and "unat (ucast (b - large_tag k) + 1 :: u64) = length (head_of k (unat sz))"
proof -
  have le: "large_tag k \<le> b" using assms(2) by simp
  have um: "unat (b - large_tag k) = unat b - unat (large_tag k)" using le by (rule unat_sub)
  have m: "1 \<le> unat (b - large_tag k)" "unat (b - large_tag k) \<le> 8" using assms(2,3) um by (auto simp: word_less_nat_alt)
  from assms(4) [unfolded readSize_Ok [OF m]]
  have l: "56 \<le> unat sz" "length (be_bytes (unat sz)) = unat b - unat (large_tag k)" "\<exists>r. yt = be_bytes (unat sz) @ r"
    unfolding um by auto
  have "large_tag k + word_of_nat (length (be_bytes (unat sz))) = b" using l(2) byte_diff [OF le] by simp
  then have hd: "head_of k (unat sz) = b # be_bytes (unat sz)" using l(1) by (simp add: head_of_long)
  with l(3) show "\<exists>r. b # yt = head_of k (unat sz) @ r" by auto
  have "unat (ucast (b - large_tag k) + 1 :: u64) = unat (b - large_tag k) + 1"
    using m(2) by (simp add: unat_word_ariths unat_ucast_byte)
  then show "unat (ucast (b - large_tag k) + 1 :: u64) = length (head_of k (unat sz))" using hd l(2) um by simp
qed

lemma raw_kind_Ok:
  assumes "raw_kind (b # yt) = Ok (k, ts, cs)"
  shows "(k = Byte \<and> b < 0x80 \<and> ts = 0 \<and> cs = 1) \<or>
    (k \<noteq> Byte \<and> (\<exists>r. b # yt = head_of k (unat cs) @ r) \<and> unat ts = length (head_of k (unat cs)) \<and>
      (k = String \<longrightarrow> cs = 1 \<longrightarrow> yt = [] \<or> \<not> hd yt < 128))"
proof (cases b rule: tag_cases)
  case one
  then show ?thesis using assms by (simp add: raw_kind_def Let_def lts)
next
  case str
  let ?cs = "ucast (b - 0x80) :: u64"
  have k: "k = String" "ts = 1" "cs = ?cs" "\<not> (?cs = 1 \<and> length (b # yt) > 1 \<and> (b # yt) ! 1 < 128)"
    using str assms by (auto simp: raw_kind_def Let_def lts split: if_splits)
  have "head_of String (unat cs) = [b]" using raw_short(1) [of String b] str k(3) by (simp add: word_le_nat_alt)
  moreover have "cs = 1 \<longrightarrow> yt = [] \<or> \<not> hd yt < 128" using k(3,4) by (cases yt) auto
  ultimately show ?thesis using k by simp
next
  case strs
  then obtain k': "k = String" "ts = ucast (b - 0xB7) + 1" "readSize yt (b - 0xB7) = Ok cs"
    using assms by (auto simp: raw_kind_def Let_def lts bind_outcome_eq_Ok)
  have *: "String \<noteq> Byte" "large_tag String < b" "unat b \<le> unat (large_tag String) + 8" "readSize yt (b - large_tag String) = Ok cs"
    using strs k' by (auto simp: word_less_nat_alt)
  have "cs \<noteq> 1" using raw_long(1) [OF *] k'(3) readSize_def by (auto simp: Let_def split: if_splits)
  with raw_long [OF *] k' show ?thesis by simp
next
  case lst
  then have k: "k = List" "ts = 1" "cs = ucast (b - 0xC0)" using assms by (auto simp: raw_kind_def Let_def lts)
  have "head_of List (unat cs) = [b]" using raw_short(1) [of List b] lst k(3) by (simp add: word_le_nat_alt)
  with k show ?thesis by simp
next
  case lsts
  then obtain k': "k = List" "ts = ucast (b - 0xF7) + 1" "readSize yt (b - 0xF7) = Ok cs"
    using assms by (auto simp: raw_kind_def Let_def lts bind_outcome_eq_Ok)
  have *: "List \<noteq> Byte" "large_tag List < b" "unat b \<le> unat (large_tag List) + 8" "readSize yt (b - large_tag List) = Ok cs"
    using lsts k' by (auto simp: word_less_nat_alt)
  with raw_long [OF *] k' show ?thesis by simp
qed

definition tag_size :: "Kind \<Rightarrow> nat \<Rightarrow> nat" where
  "tag_size k n = (case k of Byte \<Rightarrow> 0 | _ \<Rightarrow> length (head_of k n))"

lemma item_at_length: "item_at k c r buf \<Longrightarrow> length buf = tag_size k (length c) + length c + length r"
  by (cases k) (auto simp: item_at_def tag_size_def)

lemma item_at_drop:
  assumes "item_at k c r buf"
  shows "take (length c) (drop (tag_size k (length c)) buf) = c" and "drop (tag_size k (length c) + length c) buf = r"
  using assms by (cases k; auto simp: item_at_def tag_size_def)+

lemma readKind_sound:
  assumes "readKind buf = Ok (k, ts, cs)" and "length buf < 2 ^ 64"
  shows "\<exists>c r. item_at k c r buf \<and> unat cs = length c \<and> unat ts = tag_size k (length c)"
proof -
  obtain b yt where buf: "buf = b # yt" using assms(1) by (cases buf) (auto simp: readKind_def)
  have rk: "raw_kind (b # yt) = Ok (k, ts, cs)" and fit: "\<not> cs > word_of_nat (length buf) - ts"
    using assms(1) buf by (auto simp: readKind_def bind_outcome_eq_Ok split: if_splits)
  have ul: "unat (word_of_nat (length buf) :: u64) = length buf" using assms(2) by (simp add: unat_of_nat)
  from raw_kind_Ok [OF rk] show ?thesis
  proof
    assume "k = Byte \<and> b < 0x80 \<and> ts = 0 \<and> cs = 1"
    then show ?thesis using buf by (intro exI [of _ "[b]"] exI [of _ yt]) (simp add: item_at_def tag_size_def)
  next
    assume h: "k \<noteq> Byte \<and> (\<exists>r. b # yt = head_of k (unat cs) @ r) \<and> unat ts = length (head_of k (unat cs)) \<and>
      (k = String \<longrightarrow> cs = 1 \<longrightarrow> yt = [] \<or> \<not> hd yt < 128)"
    then obtain r where r: "buf = head_of k (unat cs) @ r" using buf by auto
    have "unat (word_of_nat (length buf) - ts) = length buf - unat ts"
      using r h ul by (subst unat_sub) (auto simp: word_le_nat_alt)
    then have le: "unat cs \<le> length r" using fit h r by (simp add: word_less_nat_alt)
    let ?c = "take (unat cs) r"
    have len: "length ?c = unat cs" using le by simp
    have small: "\<not> (\<exists>b. ?c = [b] \<and> b < 0x80)" if "k = String"
    proof
      assume "\<exists>b. ?c = [b] \<and> b < 0x80"
      then obtain d where d: "?c = [d]" "d < 0x80" by blast
      then have "unat cs = 1" using len by simp
      then have c1: "cs = 1" by (metis unsigned_1 unsigned_word_eqI)
      then have "r = yt" using r buf by (simp add: rlp_head_def)
      then have "yt \<noteq> []" "hd yt = d" using d c1 by (cases yt; auto)+
      with h that c1 d(2) show False by simp
    qed
    have "buf = head_of k (length ?c) @ ?c @ drop (unat cs) r" using r len by simp
    then have "item_at k ?c (drop (unat cs) r) buf" using small h by (cases k) (simp_all add: item_at_def)
    moreover have "unat ts = tag_size k (length ?c)" using h len by (cases k) (simp_all add: tag_size_def)
    ultimately show ?thesis using len by metis
  qed
qed

lemma raw_kind_head:
  assumes "k \<noteq> Byte" and "unat cs = n" and "k = String \<longrightarrow> \<not> (n = 1 \<and> r \<noteq> [] \<and> hd r < 128)"
  shows "raw_kind (head_of k n @ r) = Ok (k, word_of_nat (length (head_of k n)), cs)"
proof (cases "n < 56")
  case True
  let ?b = "small_tag k + word_of_nat n"
  have h: "head_of k n = [?b]" using True by (simp add: head_of_short)
  have u: "unat ?b = unat (small_tag k) + n" by (rule tag_ranges(1) [OF assms(1) True])
  have "unat (ucast (?b - small_tag k) :: u64) = n" using True by (simp add: unat_ucast_byte unat_of_nat)
  then have c: "ucast (?b - small_tag k) = cs" using assms(2) by (metis word_unat_eq_iff)
  have one: "cs = 1 \<Longrightarrow> n = 1" using assms(2) by simp
  show ?thesis unfolding h using True u c one assms(1,3)
    by (cases k; cases r) (auto simp: raw_kind_def Let_def lts)
next
  case False
  let ?m = "length (be_bytes n)" let ?b = "large_tag k + word_of_nat ?m"
  have m: "1 \<le> ?m" "?m \<le> 8" using False length_be_bytes_pos [of n] length_be_bytes_size [of cs] assms(2) by auto
  have h: "head_of k n = ?b # be_bytes n" using False by (simp add: head_of_long)
  have u: "unat ?b = unat (large_tag k) + ?m" by (rule tag_ranges(2) [OF assms(1) m(2)])
  have d: "unat (?b - large_tag k) = ?m" using m by (simp add: unat_of_nat)
  have "readSize (be_bytes n @ r) (?b - large_tag k) = Ok cs"
    using readSize_Ok [of "?b - large_tag k" "be_bytes n @ r" cs] m False assms(2) unfolding d by auto
  moreover have "(ucast (?b - large_tag k) :: u64) = word_of_nat ?m"
    using d m(2) unat_ucast_byte [of "?b - large_tag k"] by (intro word_unat_eq_iff [THEN iffD2]) (simp add: unat_of_nat)
  ultimately show ?thesis unfolding h using u m assms(1)
    by (cases k) (auto simp: raw_kind_def Let_def lts)
qed

lemma readKind_complete:
  assumes "item_at k c r buf" and "length buf < 2 ^ 64"
  shows "readKind buf = Ok (k, word_of_nat (tag_size k (length c)), word_of_nat (length c))"
proof (cases "k = Byte")
  case True
  then obtain b where "c = [b]" "b < 0x80" "buf = b # r" using assms(1) by (auto simp: item_at_def)
  moreover have "unat (word_of_nat (length buf) :: u64) = length buf" using assms(2) by (simp add: unat_of_nat)
  ultimately have "\<not> (1 :: u64) > word_of_nat (length buf) - 0" by (simp add: word_less_nat_alt)
  with \<open>c = [b]\<close> \<open>b < 0x80\<close> \<open>buf = b # r\<close> True show ?thesis
    by (simp add: readKind_def raw_kind_def tag_size_def)
next
  case False
  let ?n = "length c" and ?cs = "word_of_nat (length c) :: u64"
  have buf: "buf = head_of k ?n @ c @ r" using assms(1) False by (cases k) (auto simp: item_at_def)
  have u: "unat ?cs = ?n" "unat (word_of_nat (length buf) :: u64) = length buf"
      "unat (word_of_nat (length (head_of k ?n)) :: u64) = length (head_of k ?n)"
    by (rule unat_u64, use assms(2) buf in simp)+
  have "k = String \<longrightarrow> \<not> (?n = 1 \<and> c @ r \<noteq> [] \<and> hd (c @ r) < 128)"
    using assms(1) by (cases c) (auto simp: item_at_def)
  note rk = raw_kind_head [OF False u(1) this]
  have "unat (word_of_nat (length buf) - word_of_nat (length (head_of k ?n)) :: u64) = length buf - length (head_of k ?n)"
    using u buf by (subst unat_sub) (auto simp: word_le_nat_alt)
  then have "\<not> ?cs > word_of_nat (length buf) - word_of_nat (length (head_of k ?n))"
    using u buf by (simp add: word_less_nat_alt)
  moreover have "tag_size k ?n = length (head_of k ?n)" using False by (cases k) (simp_all add: tag_size_def)
  moreover have "buf \<noteq> []" using buf by (simp add: rlp_head_def)
  ultimately show ?thesis using rk buf by (simp add: readKind_def)
qed

lemma Split_iff:
  assumes "length buf < 2 ^ 64"
  shows "Split buf = Ok (k, c, r) \<longleftrightarrow> item_at k c r buf"
proof
  assume "Split buf = Ok (k, c, r)"
  then obtain ts cs where o: "readKind buf = Ok (k, ts, cs)" "c = take (unat cs) (drop (unat ts) buf)" "r = drop (unat (ts + cs)) buf"
    by (auto simp: Split_def bind_outcome_eq_Ok)
  from readKind_sound [OF o(1) assms] obtain c' r' where i: "item_at k c' r' buf" "unat cs = length c'" "unat ts = tag_size k (length c')"
    by blast
  have "unat (ts + cs) = unat ts + unat cs" using item_at_length [OF i(1)] i(2,3) assms by (simp add: unat_word_ariths)
  then show "item_at k c r buf" using o i item_at_drop [OF i(1)] by simp
next
  assume i: "item_at k c r buf"
  let ?t = "tag_size k (length c)"
  have l: "length buf = ?t + length c + length r" by (rule item_at_length [OF i])
  have "unat (word_of_nat ?t + word_of_nat (length c) :: u64) = ?t + length c"
    using l assms by (simp flip: of_nat_add) (simp add: unat_of_nat del: of_nat_add)
  then show "Split buf = Ok (k, c, r)" using readKind_complete [OF i assms] item_at_drop [OF i] l assms
    by (simp add: Split_def unat_of_nat)
qed

section \<open>Strings, integers, lists\<close>

lemma SplitString_iff:
  assumes "length buf < 2 ^ 64"
  shows "SplitString buf = Ok (c, r) \<longleftrightarrow> buf = rlp_str c @ r"
proof -
  have "SplitString buf = Ok (c, r) \<longleftrightarrow> Split buf = Ok (Byte, c, r) \<or> Split buf = Ok (String, c, r)"
  proof (cases "Split buf")
    case (Ok x)
    obtain k c' r' where "x = (k, c', r')" by (cases x)
    with Ok show ?thesis by (cases k) (auto simp: SplitString_def)
  qed (auto simp: SplitString_def)
  also have "\<dots> \<longleftrightarrow> buf = rlp_str c @ r"
    unfolding Split_iff [OF assms] by (cases c rule: rlp_str_cases) (auto simp: item_at_def)
  finally show ?thesis .
qed

lemma SplitList_iff:
  assumes "length buf < 2 ^ 64"
  shows "SplitList buf = Ok (c, r) \<longleftrightarrow> buf = rlp_list c @ r"
proof -
  have "SplitList buf = Ok (c, r) \<longleftrightarrow> Split buf = Ok (List, c, r)"
    by (cases "Split buf") (auto simp: SplitList_def split: if_splits)
  then show ?thesis unfolding Split_iff [OF assms] by (simp add: item_at_def rlp_list_head)
qed

lemma SplitUint64_content:
  assumes "length content \<le> 8"
  shows "(if length content = 0 then Ok (0, rest)
     else if length content = 1 then if hd content = 0 then Fail ErrCanonInt else Ok (ucast (hd content), rest)
     else if length content > 8 then Fail errUintOverflow
     else case readSize content (word_of_nat (length content)) of
       Ok x \<Rightarrow> Ok (x, rest) | Fail _ \<Rightarrow> Fail ErrCanonInt | Panic \<Rightarrow> Panic) = Ok (v, r) \<longleftrightarrow>
     content = be_bytes (unat v) \<and> r = rest" (is "?L = Ok (v, r) \<longleftrightarrow> ?R")
proof -
  consider "content = []" | c where "content = [c]" | "2 \<le> length content"
    by (cases content; cases "tl content") auto
  then show ?thesis
  proof cases
    case 1
    have "[] = be_bytes (unat v) \<longleftrightarrow> v = 0" by (metis be_bytes_eq_Nil unsigned_eq_0_iff)
    then show ?thesis using 1 by auto
  next
    case 2
    have "be_bytes (unat v) = [c] \<longleftrightarrow> c \<noteq> 0 \<and> v = ucast c"
    proof
      assume b: "be_bytes (unat v) = [c]"
      then have "unat v = unat c" using be_num_be_bytes [of "unat v"] by (simp add: be_num_Cons)
      then have "v = ucast c" by (intro word_unat_eq_iff [THEN iffD2]) (simp add: unat_ucast_byte)
      moreover have "c \<noteq> 0" using b hd_be_bytes [of "unat v"] by (cases "unat v = 0") auto
      ultimately show "c \<noteq> 0 \<and> v = ucast c" by simp
    next
      assume "c \<noteq> 0 \<and> v = ucast c"
      then show "be_bytes (unat v) = [c]"
        using be_bytes_byte [of "unat c"] unsigned_less [of c, where ?'a = nat] by (simp add: unat_ucast_byte unat_gt_0)
    qed
    then show ?thesis using 2 by auto
  next
    case 3
    let ?m = "word_of_nat (length content) :: byte"
    have m: "unat ?m = length content" using assms by (simp add: unat_of_nat)
    have rs: "readSize content ?m = Ok x \<longleftrightarrow> content = be_bytes (unat x)" for x
    proof -
      have big: "56 \<le> unat x" if "length content = length (be_bytes (unat x))"
      proof -
        have "\<not> unat x < 256 ^ 1" using 3 length_be_bytes [of "unat x" 1] that by linarith
        then show ?thesis by simp
      qed
      have m1: "1 \<le> unat ?m" "unat ?m \<le> 8" using m 3 assms by linarith+
      show ?thesis unfolding readSize_Ok [OF m1] m
      proof
        assume "56 \<le> unat x \<and> length (be_bytes (unat x)) = length content \<and> (\<exists>r. content = be_bytes (unat x) @ r)"
        then show "content = be_bytes (unat x)" by (metis append_eq_conv_conj append_self_conv length_append take_all_iff order_refl)
      next
        assume "content = be_bytes (unat x)"
        then show "56 \<le> unat x \<and> length (be_bytes (unat x)) = length content \<and> (\<exists>r. content = be_bytes (unat x) @ r)"
          using big by (metis append_Nil2)
      qed
    qed
    have L: "?L = (case readSize content ?m of Ok x \<Rightarrow> Ok (x, rest) | Fail _ \<Rightarrow> Fail ErrCanonInt | Panic \<Rightarrow> Panic)"
      using 3 assms by (cases content) auto
    show ?thesis
    proof (cases "readSize content ?m")
      case (Ok x)
      then have "readSize content ?m = Ok v \<longleftrightarrow> x = v" by simp
      then have "x = v \<longleftrightarrow> content = be_bytes (unat v)" unfolding rs by blast
      then show ?thesis unfolding L unfolding Ok by auto
    next
      case (Fail e)
      then show ?thesis using rs [of v] unfolding L by simp
    next
      case Panic
      then show ?thesis using rs [of v] unfolding L by simp
    qed
  qed
qed

lemma SplitUint64_iff:
  assumes "length buf < 2 ^ 64"
  shows "SplitUint64 buf = Ok (v, r) \<longleftrightarrow> buf = rlp_uint v @ r"
proof
  assume o: "SplitUint64 buf = Ok (v, r)"
  then obtain content rest where c: "SplitString buf = Ok (content, rest)"
    by (auto simp: SplitUint64_def bind_outcome_eq_Ok)
  with o have "length content \<le> 8" by (auto simp: SplitUint64_def split: if_splits)
  from SplitUint64_content [OF this, of rest v r] o c have "content = be_bytes (unat v)" "r = rest"
    by (simp_all add: SplitUint64_def)
  with c SplitString_iff [OF assms] show "buf = rlp_uint v @ r" by (simp add: rlp_uint_def)
next
  assume "buf = rlp_uint v @ r"
  then have "SplitString buf = Ok (be_bytes (unat v), r)" using SplitString_iff [OF assms] by (simp add: rlp_uint_def)
  with SplitUint64_content [OF length_be_bytes_size, of v r v r] show "SplitUint64 buf = Ok (v, r)"
    by (simp add: SplitUint64_def)
qed

section \<open>Appending integers\<close>

lemma byte_of_shift: "(ucast (drop_bit n i) :: byte) = word_of_nat (unat (i :: u64) div 2 ^ n)"
proof -
  have "unat (drop_bit n i) = unat i div 2 ^ n" 
    unfolding unat_drop_bit_eq by (simp add: drop_bit_eq_div)
  then show ?thesis using word_of_nat_unat [of "drop_bit n i"] by metis
qed

lemma rlp_uint_bytes:
  assumes "0 < k" and "256 ^ (k - 1) \<le> unat i" and "unat i < 256 ^ k" and "128 \<le> unat i" and "k \<le> 8"
  shows "rlp_uint i = (0x80 + word_of_nat k) # be_pad k (unat i)"
proof -
  have "be_bytes (unat i) = be_pad k (unat i)" using be_pad_be_bytes [of "unat i" k] assms by simp
  moreover have "length (be_pad k (unat i)) = k" by simp
  ultimately show ?thesis using rlp_str_small [of "unat i"] assms by (simp add: rlp_uint_def)
qed

lemma be_pad_0: "be_pad 0 n = []"
  by (simp add: be_pad_def)

lemma AppendUint64_eq: "AppendUint64 b i = b @ rlp_uint i"
proof -
  let ?n = "unat i"
  note defs = AppendUint64_def Let_def word_less_nat_alt byte_of_shift be_pad_Suc be_pad_0
    div_mult2_eq [of ?n 256 256, symmetric] div_mult2_eq [of ?n 65536 256, symmetric] div_mult2_eq [of ?n 16777216 256, symmetric]
    div_mult2_eq [of ?n 4294967296 256, symmetric] div_mult2_eq [of ?n 1099511627776 256, symmetric]
    div_mult2_eq [of ?n 281474976710656 256, symmetric]
  have zero: "i = 0 \<longleftrightarrow> ?n = 0" by (simp add: unsigned_eq_0_iff)
  have big: "rlp_uint i = (0x80 + word_of_nat k) # be_pad k ?n"
    if "0 < k" "256 ^ (k - 1) \<le> ?n" "?n < 256 ^ k" "128 \<le> ?n" "k \<le> 8" for k
    using rlp_uint_bytes [OF that] .
  have "?n < 2 ^ 64" using unsigned_less [of i, where ?'a = nat] by simp
  then consider "?n = 0" | "0 < ?n" "?n < 128" | "128 \<le> ?n" "?n < 2 ^ 8" | "2 ^ 8 \<le> ?n" "?n < 2 ^ 16"
    | "2 ^ 16 \<le> ?n" "?n < 2 ^ 24" | "2 ^ 24 \<le> ?n" "?n < 2 ^ 32" | "2 ^ 32 \<le> ?n" "?n < 2 ^ 40"
    | "2 ^ 40 \<le> ?n" "?n < 2 ^ 48" | "2 ^ 48 \<le> ?n" "?n < 2 ^ 56" | "2 ^ 56 \<le> ?n" "?n < 2 ^ 64"
    by linarith
  then show ?thesis
  proof cases
    case 1
    then show ?thesis using zero by (simp add: AppendUint64_def rlp_uint_def rlp_str_def rlp_head_def)
  next
    case 2
    have "be_bytes ?n = [word_of_nat ?n]" using be_bytes_byte [of ?n] 2 by simp
    moreover have "unat (word_of_nat ?n :: byte) \<le> 0x7F" using 2 by (simp add: unsigned_ucast_eq take_bit_nat_eq_self)
    ultimately have "rlp_uint i = [word_of_nat ?n]" by (simp add: rlp_uint_def rlp_str_def word_le_nat_alt)
    then show ?thesis using 2 zero by (simp add: AppendUint64_def word_less_nat_alt)
  next
    case 3 then show ?thesis using big [of "Suc 0"] zero by (simp add: defs)
  next
    case 4 then show ?thesis using big [of "Suc (Suc 0)"] zero by (simp add: defs)
  next
    case 5 then show ?thesis using big [of "Suc (Suc (Suc 0))"] zero by (simp add: defs)
  next
    case 6 then show ?thesis using big [of "Suc (Suc (Suc (Suc 0)))"] zero by (simp add: defs)
  next
    case 7 then show ?thesis using big [of "Suc (Suc (Suc (Suc (Suc 0))))"] zero by (simp add: defs)
  next
    case 8 then show ?thesis using big [of "Suc (Suc (Suc (Suc (Suc (Suc 0)))))"] zero by (simp add: defs)
  next
    case 9 then show ?thesis using big [of "Suc (Suc (Suc (Suc (Suc (Suc (Suc 0))))))"] zero by (simp add: defs)
  next
    case 10 then show ?thesis using big [of "Suc (Suc (Suc (Suc (Suc (Suc (Suc (Suc 0)))))))"] zero by (simp add: defs)
  qed
qed

section \<open>Counting\<close>

text \<open>A sequence of encoded values.\<close>

inductive items :: "byte list \<Rightarrow> nat \<Rightarrow> bool" where
  items_Nil: "items [] 0"
| items_Cons: "item_at k c r buf \<Longrightarrow> items r n \<Longrightarrow> items buf (Suc n)"

inductive_cases items_NilE: "items [] n"

lemma item_at_shorter: "item_at k c r buf \<Longrightarrow> length r < length buf"
  by (cases k) (auto simp: item_at_def rlp_head_def)

lemma items_Nil_iff: "items [] k \<longleftrightarrow> k = 0"
  by (auto intro: items_Nil elim!: items_NilE dest: item_at_shorter)

lemma readKind_next:
  assumes "item_at k c r buf" and "length buf < 2 ^ 64" and "readKind buf = Ok (k', ts, cs)"
  shows "drop (unat (ts + cs)) buf = r"
proof -
  have "Split buf = Ok (k, c, r)" using Split_iff [OF assms(2)] assms(1) by blast
  then show ?thesis using assms(3) by (auto simp: Split_def)
qed

lemma CountValues_loop_items:
  "length b < 2 ^ 64 \<Longrightarrow> length b \<le> n \<Longrightarrow> CountValues_loop n b i = Ok m \<longleftrightarrow> (\<exists>k. items b k \<and> m = i + k)"
proof (induction n arbitrary: b i)
  case 0
  then show ?case using items_Nil_iff by auto
next
  case (Suc n)
  show ?case
  proof (cases "b = []")
    case True
    then show ?thesis using items_Nil_iff by auto
  next
    case False
    show ?thesis
    proof
      assume "CountValues_loop (Suc n) b i = Ok m"
      then obtain k ts cs where rk: "readKind b = Ok (k, ts, cs)" and l: "CountValues_loop n (drop (unat (ts + cs)) b) (i + 1) = Ok m"
        using False by (auto simp: bind_outcome_eq_Ok)
      from readKind_sound [OF rk Suc.prems(1)] obtain c r where it: "item_at k c r b" by blast
      note d = readKind_next [OF it Suc.prems(1) rk]
      have "length r < length b" by (rule item_at_shorter [OF it])
      then have "length r < 2 ^ 64" "length r \<le> n" using Suc.prems by linarith+
      with Suc.IH [of r "i + 1"] l d obtain k where "items r k" "m = i + 1 + k" by auto
      with items_Cons [OF it] show "\<exists>k. items b k \<and> m = i + k" by fastforce
    next
      assume "\<exists>k. items b k \<and> m = i + k"
      then obtain k c r q where it: "item_at k c r b" and q: "items r q" "m = i + Suc q"
        using False by (auto elim: items.cases)
      have "length r < length b" by (rule item_at_shorter [OF it])
      then have "length r < 2 ^ 64" "length r \<le> n" using Suc.prems by linarith+
      with Suc.IH [of r "i + 1"] q have "CountValues_loop n r (i + 1) = Ok m" by auto
      with readKind_complete [OF it Suc.prems(1)] readKind_next [OF it Suc.prems(1) readKind_complete [OF it Suc.prems(1)]] False
      show "CountValues_loop (Suc n) b i = Ok m" by simp
    qed
  qed
qed

lemma CountValues_loop_no_Panic: "length b < 2 ^ 64 \<Longrightarrow> length b \<le> n \<Longrightarrow> CountValues_loop n b i \<noteq> Panic"
proof (induction n arbitrary: b i)
  case (Suc n)
  show ?case
  proof (cases "readKind b")
    case (Ok x)
    then obtain k ts cs where rk: "readKind b = Ok (k, ts, cs)" by (cases x) auto
    from readKind_sound [OF rk Suc.prems(1)] obtain c r where it: "item_at k c r b" by blast
    have "length r < length b" by (rule item_at_shorter [OF it])
    then have "length r < 2 ^ 64" "length r \<le> n" using Suc.prems by linarith+
    with Suc.IH [of r "i + 1"] readKind_next [OF it Suc.prems(1) rk] rk show ?thesis by simp
  next
    case Panic
    then have False
      by (cases "raw_kind b") (auto simp: readKind_def raw_kind_def readSize_def Let_def split: if_splits)
    then show ?thesis ..
  qed simp
qed simp

section \<open>The same values as the stream reads\<close>

interpretation uint_rlp: rlp_codec writeUint "decodeUint 64" rlp_uint "\<lambda>_. True"
  using exactly_yields [OF exact_Uint64 yields_True]
  by unfold_locales (simp_all add: rlp_uint_def emits_writeUint decodes_Uint64 [unfolded rlp_uint_def])

interpretation bytes_rlp: rlp_codec writeBytes decodeByteSlice rlp_str "\<lambda>_. True"
  using exactly_yields [OF exact_ByteSlice yields_True]
  by unfold_locales (simp_all add: emits_writeBytes decodes_ByteSlice)

text \<open>
  Property C13.  The integer reader without a stream accepts exactly what \<^verbatim>\<open>AppendUint64\<close> writes:
  it returns \<open>v\<close> and the rest \<open>r\<close> if and only if the input is the encoding of \<open>v\<close>
  followed by \<open>r\<close>.
\<close>

theorem SplitUint64_AppendUint64:
  assumes "length buf < 2 ^ 64"
  shows "SplitUint64 buf = Ok (v, r) \<longleftrightarrow> buf = AppendUint64 [] v @ r"
  unfolding AppendUint64_eq using SplitUint64_iff [OF assms] by simp

theorem SplitUint64_AppendUint64_witness:
  "SplitUint64 (AppendUint64 [] 1024 @ [0x05]) = Ok (1024, [0x05]) \<and> AppendUint64 [] 1024 = [0x82, 0x04, 0x00]"
proof -
  have a: "AppendUint64 [] 1024 = [0x82, 0x04, 0x00]" by code_simp
  then have "length (AppendUint64 [] 1024 @ [0x05]) < 2 ^ 64" by simp
  from SplitUint64_AppendUint64 [OF this, of 1024 "[0x05]"] a show ?thesis by simp
qed

text \<open>
  Property C12.  The two decoders of the package agree: a byte string is decoded through the stream
  as one integer exactly when the function on slices splits it into that integer and nothing else,
  and the same holds for strings.
\<close>

theorem stream_and_raw_agree:
  assumes "length b < 2 ^ 64"
  shows "(DecodeBytes b (decodeUint 64) = Ok v \<longleftrightarrow> SplitUint64 b = Ok (v, [])) \<and>
    (DecodeBytes b decodeByteSlice = Ok c \<longleftrightarrow> SplitString b = Ok (c, []))"
  using uint_rlp.decode_iff [OF assms, of v] bytes_rlp.decode_iff [OF assms, of c]
    SplitUint64_iff [OF assms, of v "[]"] SplitString_iff [OF assms, of c "[]"] by simp

theorem stream_and_raw_agree_witness:
  "DecodeBytes [0x82, 0x04, 0x00] (decodeUint 64) = Ok 1024 \<and> SplitUint64 [0x82, 0x04, 0x00] = Ok (1024, [])"
proof -
  have s: "SplitUint64 [0x82, 0x04, 0x00] = Ok (1024, [])" by code_simp
  with stream_and_raw_agree [of "[0x82, 0x04, 0x00]" 1024] show ?thesis by simp
qed

text \<open>
  Property C14.  \<^verbatim>\<open>CountValues\<close> ends on every input, and it returns \<open>n\<close> exactly when the
  input is a sequence of \<open>n\<close> well-formed values.
\<close>

theorem CountValues_counts:
  assumes "length b < 2 ^ 64"
  shows "CountValues b \<noteq> Panic \<and> (CountValues b = Ok n \<longleftrightarrow> items b n)"
  using CountValues_loop_no_Panic [OF assms order_refl] CountValues_loop_items [OF assms order_refl, of 0 n]
  by (simp add: CountValues_def)

theorem CountValues_counts_witness:
  "CountValues [0x05, 0x82, 0x01, 0x02, 0xC1, 0x07] = Ok 3 \<and> items [0x05, 0x82, 0x01, 0x02, 0xC1, 0x07] 3"
proof -
  have "CountValues [0x05, 0x82, 0x01, 0x02, 0xC1, 0x07] = Ok 3" by code_simp
  with CountValues_counts [of "[0x05, 0x82, 0x01, 0x02, 0xC1, 0x07]" 3] show ?thesis by simp
qed

text \<open>
  Property C16.  On a malformed element the iterator reports that there is a next value for ever:
  it records the error but never moves past the bytes it cannot read.
\<close>

theorem iterator_never_ends:
  assumes "it_data it \<noteq> []" and "readKind (it_data it) = Fail e"
  shows "fst (it_Next (((snd \<circ> it_Next) ^^ n) it)) \<and> it_data (((snd \<circ> it_Next) ^^ n) it) = it_data it"
proof -
  have "it_data (((snd \<circ> it_Next) ^^ n) it) = it_data it"
    using assms by (induction n) (simp_all add: it_Next_def)
  with assms show ?thesis by (simp add: it_Next_def)
qed

theorem iterator_never_ends_witness:
  "\<exists>it. NewListIterator [0xC1, 0x81] = Ok it \<and> fst (it_Next (((snd \<circ> it_Next) ^^ 1000) it))"
proof -
  let ?it = "\<lparr>it_data = [0x81], it_next = [], it_err = None\<rparr>"
  have "NewListIterator [0xC1, 0x81] = Ok ?it" "readKind [0x81] = Fail ErrValueTooLarge" by code_simp+
  with iterator_never_ends [of ?it ErrValueTooLarge 1000] show ?thesis by auto
qed

end
