(* ===== verification/TxRlp.thy ===== *)
theory TxRlp
  imports RlpRaw Transaction
begin

text \<open>
  The RLP form of transactions (\<^verbatim>\<open>core/types/transaction.go\<close>): the struct codecs of the three
  kinds of transaction data, the typed envelope around the two newer ones, \<open>EncodeRLP\<close> and
  \<open>DecodeRLP\<close> as a list element sees them, and the canonical binary form
  \<open>MarshalBinary\<close>/\<open>UnmarshalBinary\<close>.  A decoded transaction is its data with the size
  the decoder stores in its cache.
\<close>

section \<open>The writers and decoders of the transaction data\<close>

definition writeTo :: "address option \<Rightarrow> (encbuf, unit) action" where
  "writeTo = makePtrWriter String writeByteArray"

definition writeAccessTuple :: "access_tuple \<Rightarrow> (encbuf, unit) action" where
  "writeAccessTuple a = makeStructWriter
     [writeByteArray (at_Address a), makeSliceWriter writeByteArray (at_StorageKeys a)]"

definition writeLegacyTx :: "LegacyTx \<Rightarrow> (encbuf, unit) action" where
  "writeLegacyTx t = makeStructWriter
     [writeUint (lt_Nonce t), writeBigInt (lt_GasPrice t), writeUint (lt_Gas t), writeTo (lt_To t),
      writeBigInt (lt_Value t), writeBytes (lt_Data t), writeBigInt (lt_V t), writeBigInt (lt_R t), writeBigInt (lt_S t)]"

definition writeAccessListTx :: "AccessListTx \<Rightarrow> (encbuf, unit) action" where
  "writeAccessListTx t = makeStructWriter
     [writeBigInt (al_ChainID t), writeUint (al_Nonce t), writeBigInt (al_GasPrice t), writeUint (al_Gas t),
      writeTo (al_To t), writeBigInt (al_Value t), writeBytes (al_Data t), makeSliceWriter writeAccessTuple (al_AccessList t),
      writeBigInt (al_V t), writeBigInt (al_R t), writeBigInt (al_S t)]"

definition writeDynamicFeeTx :: "DynamicFeeTx \<Rightarrow> (encbuf, unit) action" where
  "writeDynamicFeeTx t = makeStructWriter
     [writeBigInt (df_ChainID t), writeUint (df_Nonce t), writeBigInt (df_GasTipCap t), writeBigInt (df_GasFeeCap t),
      writeUint (df_Gas t), writeTo (df_To t), writeBigInt (df_Value t), writeBytes (df_Data t),
      makeSliceWriter writeAccessTuple (df_AccessList t), writeBigInt (df_V t), writeBigInt (df_R t), writeBigInt (df_S t)]"

definition decodeTo :: "(rlp_stream, address option) action" where
  "decodeTo = makeNilPtrDecoder String (decodeByteArray 20)"

definition decodeAccessTuple :: "(rlp_stream, access_tuple) action" where
  "decodeAccessTuple = makeStructDecoder (
     andThen (struct_field (decodeByteArray 20)) (\<lambda>a.
     andThen (struct_field (decodeListSlice (decodeByteArray 32))) (\<lambda>ks.
     ret \<lparr>at_Address = a, at_StorageKeys = ks\<rparr>)))"

definition decodeLegacyTx :: "(rlp_stream, LegacyTx) action" where
  "decodeLegacyTx = makeStructDecoder (
     andThen (struct_field (decodeUint 64)) (\<lambda>nonce.
     andThen (struct_field decodeBigInt) (\<lambda>price.
     andThen (struct_field (decodeUint 64)) (\<lambda>gas.
     andThen (struct_field decodeTo) (\<lambda>to.
     andThen (struct_field decodeBigInt) (\<lambda>val.
     andThen (struct_field decodeByteSlice) (\<lambda>dat.
     andThen (struct_field decodeBigInt) (\<lambda>v.
     andThen (struct_field decodeBigInt) (\<lambda>r.
     andThen (struct_field decodeBigInt) (\<lambda>s.
     ret \<lparr>lt_Nonce = nonce, lt_GasPrice = price, lt_Gas = gas, lt_To = to, lt_Value = val, lt_Data = dat,
       lt_V = v, lt_R = r, lt_S = s\<rparr>))))))))))"

definition decodeAccessListTx :: "(rlp_stream, AccessListTx) action" where
  "decodeAccessListTx = makeStructDecoder (
     andThen (struct_field decodeBigInt) (\<lambda>chain.
     andThen (struct_field (decodeUint 64)) (\<lambda>nonce.
     andThen (struct_field decodeBigInt) (\<lambda>price.
     andThen (struct_field (decodeUint 64)) (\<lambda>gas.
     andThen (struct_field decodeTo) (\<lambda>to.
     andThen (struct_field decodeBigInt) (\<lambda>val.
     andThen (struct_field decodeByteSlice) (\<lambda>dat.
     andThen (struct_field (decodeListSlice decodeAccessTuple)) (\<lambda>al.
     andThen (struct_field decodeBigInt) (\<lambda>v.
     andThen (struct_field decodeBigInt) (\<lambda>r.
     andThen (struct_field decodeBigInt) (\<lambda>s.
     ret \<lparr>al_ChainID = chain, al_Nonce = nonce, al_GasPrice = price, al_Gas = gas, al_To = to, al_Value = val,
       al_Data = dat, al_AccessList = al, al_V = v, al_R = r, al_S = s\<rparr>))))))))))))"

definition decodeDynamicFeeTx :: "(rlp_stream, DynamicFeeTx) action" where
  "decodeDynamicFeeTx = makeStructDecoder (
     andThen (struct_field decodeBigInt) (\<lambda>chain.
     andThen (struct_field (decodeUint 64)) (\<lambda>nonce.
     andThen (struct_field decodeBigInt) (\<lambda>tip.
     andThen (struct_field decodeBigInt) (\<lambda>fee.
     andThen (struct_field (decodeUint 64)) (\<lambda>gas.
     andThen (struct_field decodeTo) (\<lambda>to.
     andThen (struct_field decodeBigInt) (\<lambda>val.
     andThen (struct_field decodeByteSlice) (\<lambda>dat.
     andThen (struct_field (decodeListSlice decodeAccessTuple)) (\<lambda>al.
     andThen (struct_field decodeBigInt) (\<lambda>v.
     andThen (struct_field decodeBigInt) (\<lambda>r.
     andThen (struct_field decodeBigInt) (\<lambda>s.
     ret \<lparr>df_ChainID = chain, df_Nonce = nonce, df_GasTipCap = tip, df_GasFeeCap = fee, df_Gas = gas, df_To = to,
       df_Value = val, df_Data = dat, df_AccessList = al, df_V = v, df_R = r, df_S = s\<rparr>)))))))))))))"

section \<open>Envelopes\<close>

fun writeInner :: "transaction \<Rightarrow> (encbuf, unit) action" where
  "writeInner (Legacy t) = writeLegacyTx t"
| "writeInner (AccessList t) = writeAccessListTx t"
| "writeInner (DynamicFee t) = writeDynamicFeeTx t"

definition encodeTyped :: "transaction \<Rightarrow> byte list outcome" where
  "encodeTyped tx = bind_outcome (rlp_Encode (writeInner tx)) (\<lambda>bs. Ok (tx_Type tx # bs))"

definition Transaction_EncodeRLP :: "transaction \<Rightarrow> (encbuf, unit) action" where
  "Transaction_EncodeRLP tx =
     (if tx_Type tx = LegacyTxType then writeInner tx
      else (\<lambda>w. bind_outcome (encodeTyped tx) (\<lambda>buf. writeBytes buf w)))"

definition Transaction_MarshalBinary :: "transaction \<Rightarrow> byte list outcome" where
  "Transaction_MarshalBinary tx =
     (if tx_Type tx = LegacyTxType then EncodeToBytes (writeInner tx) else encodeTyped tx)"

text \<open>The transaction data with the cached size.\<close>

type_synonym decoded_tx = "transaction \<times> nat option"

definition setDecoded :: "transaction \<Rightarrow> nat \<Rightarrow> decoded_tx" where
  "setDecoded inner sz = (inner, if sz > 0 then Some sz else None)"

definition decodeTyped :: "byte list \<Rightarrow> transaction outcome" where
  "decodeTyped b =
     (if length b = 0 then Fail errEmptyTypedTx
      else if hd b = AccessListTxType then bind_outcome (DecodeBytes (tl b) decodeAccessListTx) (\<lambda>t. Ok (AccessList t))
      else if hd b = DynamicFeeTxType then bind_outcome (DecodeBytes (tl b) decodeDynamicFeeTx) (\<lambda>t. Ok (DynamicFee t))
      else Fail ErrTxTypeNotSupported)"

definition Transaction_DecodeRLP :: "(rlp_stream, decoded_tx) action" where
  "Transaction_DecodeRLP = andThen stream_Kind (\<lambda>(kind, sz).
     case kind of
       List \<Rightarrow> andThen decodeLegacyTx (\<lambda>inner. ret (setDecoded (Legacy inner) (unat (ListSize sz))))
     | String \<Rightarrow> andThen stream_Bytes (\<lambda>b s.
         bind_outcome (decodeTyped b) (\<lambda>inner. Ok (setDecoded inner (length b), s)))
     | Byte \<Rightarrow> throw ErrExpectedList)"

definition Transaction_UnmarshalBinary :: "byte list \<Rightarrow> decoded_tx outcome" where
  "Transaction_UnmarshalBinary b =
     (if length b > 0 \<and> hd b > 0x7f
      then bind_outcome (DecodeBytes b decodeLegacyTx) (\<lambda>t. Ok (setDecoded (Legacy t) (length b)))
      else bind_outcome (decodeTyped b) (\<lambda>inner. Ok (setDecoded inner (length b))))"

text \<open>\<^verbatim>\<open>Size\<close>: the cached size, or the length of the encoding of the inner data.\<close>

definition Transaction_Size :: "decoded_tx \<Rightarrow> nat outcome" where
  "Transaction_Size tx = (case snd tx of Some sz \<Rightarrow> Ok sz
     | None \<Rightarrow> bind_outcome (written (rlp_Encode (writeInner (fst tx)))) (\<lambda>bs. Ok (length bs)))"

text \<open>The hash, over the hash function the code feeds the encoding to.\<close>

definition Transaction_Hash :: "(byte list \<Rightarrow> hash) \<Rightarrow> transaction \<Rightarrow> hash outcome" where
  "Transaction_Hash keccak tx = bind_outcome (written (rlp_Encode (writeInner tx))) (\<lambda>bs.
     Ok (keccak (if tx_Type tx = LegacyTxType then bs else tx_Type tx # bs)))"

section \<open>The encodings\<close>

definition to_enc :: "address option \<Rightarrow> byte list" where "to_enc = nil_ptr String rlp_str"

definition tuple_enc :: "access_tuple \<Rightarrow> byte list" where
  "tuple_enc a = rlp_list (rlp_str (at_Address a) @ rlp_list (concat (map rlp_str (at_StorageKeys a))))"

definition legacy_enc :: "LegacyTx \<Rightarrow> byte list" where
  "legacy_enc t = rlp_list (rlp_uint (lt_Nonce t) @ rlp_int (lt_GasPrice t) @ rlp_uint (lt_Gas t) @ to_enc (lt_To t) @
     rlp_int (lt_Value t) @ rlp_str (lt_Data t) @ rlp_int (lt_V t) @ rlp_int (lt_R t) @ rlp_int (lt_S t))"

definition access_list_enc :: "AccessListTx \<Rightarrow> byte list" where
  "access_list_enc t = rlp_list (rlp_int (al_ChainID t) @ rlp_uint (al_Nonce t) @ rlp_int (al_GasPrice t) @ rlp_uint (al_Gas t) @
     to_enc (al_To t) @ rlp_int (al_Value t) @ rlp_str (al_Data t) @ rlp_list (concat (map tuple_enc (al_AccessList t))) @
     rlp_int (al_V t) @ rlp_int (al_R t) @ rlp_int (al_S t))"

definition dynamic_fee_enc :: "DynamicFeeTx \<Rightarrow> byte list" where
  "dynamic_fee_enc t = rlp_list (rlp_int (df_ChainID t) @ rlp_uint (df_Nonce t) @ rlp_int (df_GasTipCap t) @
     rlp_int (df_GasFeeCap t) @ rlp_uint (df_Gas t) @ to_enc (df_To t) @ rlp_int (df_Value t) @ rlp_str (df_Data t) @
     rlp_list (concat (map tuple_enc (df_AccessList t))) @ rlp_int (df_V t) @ rlp_int (df_R t) @ rlp_int (df_S t))"

definition to_ok :: "address option \<Rightarrow> bool" where "to_ok to \<longleftrightarrow> (\<forall>a. to = Some a \<longrightarrow> length a = 20)"

definition tuple_rlp_ok :: "access_tuple \<Rightarrow> bool" where
  "tuple_rlp_ok a \<longleftrightarrow> length (at_Address a) = 20 \<and> (\<forall>k \<in> set (at_StorageKeys a). length k = 32)"

definition legacy_ok :: "LegacyTx \<Rightarrow> bool" where
  "legacy_ok t \<longleftrightarrow> 0 \<le> lt_GasPrice t \<and> to_ok (lt_To t) \<and> 0 \<le> lt_Value t \<and> 0 \<le> lt_V t \<and> 0 \<le> lt_R t \<and> 0 \<le> lt_S t"

definition access_list_ok :: "AccessListTx \<Rightarrow> bool" where
  "access_list_ok t \<longleftrightarrow> 0 \<le> al_ChainID t \<and> 0 \<le> al_GasPrice t \<and> to_ok (al_To t) \<and> 0 \<le> al_Value t \<and>
     (\<forall>a \<in> set (al_AccessList t). tuple_rlp_ok a) \<and> 0 \<le> al_V t \<and> 0 \<le> al_R t \<and> 0 \<le> al_S t"

definition dynamic_fee_ok :: "DynamicFeeTx \<Rightarrow> bool" where
  "dynamic_fee_ok t \<longleftrightarrow> 0 \<le> df_ChainID t \<and> 0 \<le> df_GasTipCap t \<and> 0 \<le> df_GasFeeCap t \<and> to_ok (df_To t) \<and> 0 \<le> df_Value t \<and>
     (\<forall>a \<in> set (df_AccessList t). tuple_rlp_ok a) \<and> 0 \<le> df_V t \<and> 0 \<le> df_R t \<and> 0 \<le> df_S t"

lemma emits_To: "emits (writeTo to) (to_enc to)"
  unfolding writeTo_def to_enc_def nil_ptr_def
  using emits_ptr [of to writeByteArray rlp_str String] emits_writeByteArray
  by (auto simp: rlp_str_def split: option.splits)

lemma rlp_str_ne: "rlp_str b \<noteq> []"
  by (cases b rule: rlp_str_cases) (auto simp: rlp_head_def)

lemma rlp_list_ne: "rlp_list c \<noteq> []"
  by (simp add: rlp_list_def rlp_head_def)

lemma decodes_To: "to_ok to \<Longrightarrow> decodes decodeTo (to_enc to) to"
  unfolding decodeTo_def to_enc_def to_ok_def
  by (cases to)
    (auto intro!: decodes_Ptr_None decodes_Ptr_Some decodes_ByteArray peeks_ByteArray non_empty_str)

lemma exact_To: "exact decodeTo to_enc"
  unfolding decodeTo_def to_enc_def by (intro exact_Ptr exact_ByteArray peeks_ByteArray)

lemma yields_To: "yields decodeTo to_ok"
  unfolding decodeTo_def to_ok_def [abs_def] by (intro yields_Ptr yields_ByteArray)

lemmas exactly_fields = exactly_andThen [OF exact_field [OF exact_Uint64]] exactly_andThen [OF exact_field [OF exact_BigInt]]
  exactly_andThen [OF exact_field [OF exact_To]] exactly_andThen [OF exact_field [OF exact_ByteSlice]]
  exactly_andThen [OF exact_field [OF exact_ByteArray]]

lemmas yields_fields = yields_andThen [OF yields_field [OF yields_BigInt]] yields_andThen [OF yields_field [OF yields_To]]
  yields_andThen [OF yields_field [OF yields_ByteArray]] yields_andThen [OF yields_True [of "struct_field (decodeUint n)" for n]]
  yields_andThen [OF yields_True [of "struct_field decodeByteSlice"]]

lemma emits_Tuple: "emits (writeAccessTuple a) (tuple_enc a)"
  unfolding writeAccessTuple_def tuple_enc_def
  using emits_struct [OF emits_Cons [OF emits_writeByteArray emits_Cons [OF emits_slice [OF emits_writeByteArray] emits_Nil]]]
  by simp

lemma decodes_Tuple: "tuple_rlp_ok a \<Longrightarrow> decodes decodeAccessTuple (tuple_enc a) a"
  unfolding decodeAccessTuple_def tuple_enc_def tuple_rlp_ok_def
  by (intro decodes_Struct decodes_andThen decodes_field decodes_ByteArray)
    (auto intro!: decodes_andThen [where cs = "[]", simplified] decodes_field decodes_Slice decodes_ByteArray
      peeks_ByteArray decodes_ret simp: rlp_str_ne)

lemma exact_Tuple: "exact decodeAccessTuple tuple_enc"
  unfolding decodeAccessTuple_def tuple_enc_def [abs_def]
  by (intro exact_Struct exactly_exact exactly_fields exactly_andThen [OF exact_field [OF exact_Slice [OF exact_ByteArray]]]
      exactly_ret) simp

lemma yields_Tuple: "yields decodeAccessTuple tuple_rlp_ok"
  unfolding decodeAccessTuple_def tuple_rlp_ok_def [abs_def]
  by (intro yields_Struct yields_fields yields_andThen [OF yields_field [OF yields_Slice [OF yields_ByteArray]]]
      yields_ret) simp

lemma peeks_Tuple: "peeks decodeAccessTuple"
  unfolding decodeAccessTuple_def by (rule peeks_Struct)

lemmas decodes_fields = decodes_andThen [OF decodes_field [OF decodes_Uint64]] decodes_andThen [OF decodes_field [OF decodes_BigInt]]
  decodes_andThen [OF decodes_field [OF decodes_To]] decodes_andThen [OF decodes_field [OF decodes_ByteSlice]]

lemma decodes_AccessList: "\<forall>a \<in> set al. tuple_rlp_ok a \<Longrightarrow>
    decodes (decodeListSlice decodeAccessTuple) (rlp_list (concat (map tuple_enc al))) al"
proof (intro decodes_Slice peeks_Tuple ballI conjI)
  fix v show "tuple_enc v \<noteq> []" by (simp add: tuple_enc_def rlp_list_ne)
qed (auto intro: decodes_Tuple)

lemma decodes_last: "decodes (struct_field D) bs u \<Longrightarrow> K u = ret v \<Longrightarrow> decodes (andThen (struct_field D) K) bs v"
  using decodes_andThen [of "struct_field D" bs u K "[]" v] by (simp add: decodes_ret)

section \<open>The three struct codecs\<close>

lemma emits_last: "emits W bs \<Longrightarrow> emits (seqs [W]) bs"
  using emits_Cons [OF _ emits_Nil, of W bs] by simp

lemma emits_access_list: "emits (makeSliceWriter writeAccessTuple al) (rlp_list (concat (map tuple_enc al)))"
  by (rule emits_slice) (rule emits_Tuple)

lemma emits_uint: "emits (writeUint v) (rlp_uint v)"
  and emits_int: "0 \<le> i \<Longrightarrow> emits (writeBigInt i) (rlp_int i)"
  by (simp_all add: rlp_uint_def rlp_int_def emits_writeUint emits_writeBigInt)

lemmas emits_fields = emits_struct emits_Cons emits_last emits_uint emits_int emits_writeBytes emits_To emits_access_list

lemma emits_Legacy: "legacy_ok t \<Longrightarrow> emits (writeLegacyTx t) (legacy_enc t)"
  unfolding writeLegacyTx_def legacy_enc_def legacy_ok_def by (intro emits_fields) auto

lemma decodes_Legacy: "legacy_ok t \<Longrightarrow> decodes decodeLegacyTx (legacy_enc t) t"
  unfolding decodeLegacyTx_def legacy_enc_def legacy_ok_def
  by (intro decodes_Struct decodes_fields decodes_last [OF decodes_field [OF decodes_BigInt]])
    (auto intro!: arg_cong [where f = ret] LegacyTx.equality)

lemma exact_Legacy: "exact decodeLegacyTx legacy_enc"
  unfolding decodeLegacyTx_def legacy_enc_def [abs_def]
  by (intro exact_Struct exactly_exact exactly_fields exactly_ret) simp

lemma yields_Legacy: "yields decodeLegacyTx legacy_ok"
  unfolding decodeLegacyTx_def legacy_ok_def [abs_def]
  by (intro yields_Struct yields_fields yields_ret) simp

interpretation legacy_rlp: rlp_codec writeLegacyTx decodeLegacyTx legacy_enc legacy_ok
  by unfold_locales (simp_all add: emits_Legacy decodes_Legacy exactly_yields [OF exact_Legacy yields_Legacy])

lemma emits_AccessListTx: "access_list_ok t \<Longrightarrow> emits (writeAccessListTx t) (access_list_enc t)"
  unfolding writeAccessListTx_def access_list_enc_def access_list_ok_def by (intro emits_fields) auto

lemma emits_DynamicFeeTx: "dynamic_fee_ok t \<Longrightarrow> emits (writeDynamicFeeTx t) (dynamic_fee_enc t)"
  unfolding writeDynamicFeeTx_def dynamic_fee_enc_def dynamic_fee_ok_def by (intro emits_fields) auto

lemma decodes_AccessListTx: "access_list_ok t \<Longrightarrow> decodes decodeAccessListTx (access_list_enc t) t"
  unfolding decodeAccessListTx_def access_list_enc_def access_list_ok_def
  by (intro decodes_Struct decodes_fields decodes_andThen [OF decodes_field [OF decodes_AccessList]]
      decodes_last [OF decodes_field [OF decodes_BigInt]])
    (auto intro!: arg_cong [where f = ret] AccessListTx.equality)

lemma decodes_DynamicFeeTx: "dynamic_fee_ok t \<Longrightarrow> decodes decodeDynamicFeeTx (dynamic_fee_enc t) t"
  unfolding decodeDynamicFeeTx_def dynamic_fee_enc_def dynamic_fee_ok_def
  by (intro decodes_Struct decodes_fields decodes_andThen [OF decodes_field [OF decodes_AccessList]]
      decodes_last [OF decodes_field [OF decodes_BigInt]])
    (auto intro!: arg_cong [where f = ret] DynamicFeeTx.equality)

lemma exact_AccessListTx: "exact decodeAccessListTx access_list_enc"
  unfolding decodeAccessListTx_def access_list_enc_def [abs_def]
  by (intro exact_Struct exactly_exact exactly_fields exactly_andThen [OF exact_field [OF exact_Slice [OF exact_Tuple]]]
      exactly_ret) simp

lemma exact_DynamicFeeTx: "exact decodeDynamicFeeTx dynamic_fee_enc"
  unfolding decodeDynamicFeeTx_def dynamic_fee_enc_def [abs_def]
  by (intro exact_Struct exactly_exact exactly_fields exactly_andThen [OF exact_field [OF exact_Slice [OF exact_Tuple]]]
      exactly_ret) simp

lemma yields_AccessListTx: "yields decodeAccessListTx access_list_ok"
  unfolding decodeAccessListTx_def access_list_ok_def [abs_def]
  by (intro yields_Struct yields_fields yields_andThen [OF yields_field [OF yields_Slice [OF yields_Tuple]]] yields_ret) simp

lemma yields_DynamicFeeTx: "yields decodeDynamicFeeTx dynamic_fee_ok"
  unfolding decodeDynamicFeeTx_def dynamic_fee_ok_def [abs_def]
  by (intro yields_Struct yields_fields yields_andThen [OF yields_field [OF yields_Slice [OF yields_Tuple]]] yields_ret) simp

interpretation access_list_rlp: rlp_codec writeAccessListTx decodeAccessListTx access_list_enc access_list_ok
  by unfold_locales (simp_all add: emits_AccessListTx decodes_AccessListTx exactly_yields [OF exact_AccessListTx yields_AccessListTx])

interpretation dynamic_fee_rlp: rlp_codec writeDynamicFeeTx decodeDynamicFeeTx dynamic_fee_enc dynamic_fee_ok
  by unfold_locales (simp_all add: emits_DynamicFeeTx decodes_DynamicFeeTx exactly_yields [OF exact_DynamicFeeTx yields_DynamicFeeTx])

section \<open>Transactions as list elements\<close>

fun inner_enc :: "transaction \<Rightarrow> byte list" where
  "inner_enc (Legacy t) = legacy_enc t"
| "inner_enc (AccessList t) = access_list_enc t"
| "inner_enc (DynamicFee t) = dynamic_fee_enc t"

fun tx_ok :: "transaction \<Rightarrow> bool" where
  "tx_ok (Legacy t) = legacy_ok t"
| "tx_ok (AccessList t) = access_list_ok t"
| "tx_ok (DynamicFee t) = dynamic_fee_ok t"

definition binary_enc :: "transaction \<Rightarrow> byte list" where
  "binary_enc tx = (if tx_Type tx = LegacyTxType then inner_enc tx else tx_Type tx # inner_enc tx)"

definition elem_enc :: "transaction \<Rightarrow> byte list" where
  "elem_enc tx = (if tx_Type tx = LegacyTxType then inner_enc tx else rlp_str (binary_enc tx))"

lemma rlp_ne: "rlp_int i \<noteq> []" "rlp_uint n \<noteq> []"
  by (simp_all add: rlp_int_def rlp_uint_def rlp_str_ne)

lemma inner_enc_list: "\<exists>c. inner_enc tx = rlp_list c \<and> c \<noteq> []"
proof (cases tx)
  case (Legacy t)
  show ?thesis unfolding Legacy inner_enc.simps legacy_enc_def by (intro exI conjI, rule refl) (simp add: rlp_ne)
next
  case (AccessList t)
  show ?thesis unfolding AccessList inner_enc.simps access_list_enc_def by (intro exI conjI, rule refl) (simp add: rlp_ne)
next
  case (DynamicFee t)
  show ?thesis unfolding DynamicFee inner_enc.simps dynamic_fee_enc_def by (intro exI conjI, rule refl) (simp add: rlp_ne)
qed

lemma emits_inner: "tx_ok tx \<Longrightarrow> emits (writeInner tx) (inner_enc tx)"
  by (cases tx) (auto intro: emits_Legacy emits_AccessListTx emits_DynamicFeeTx)

lemma encodeTyped_Ok:
  "tx_ok tx \<Longrightarrow> tx_Type tx \<noteq> LegacyTxType \<Longrightarrow> length (binary_enc tx) < 2 ^ 64 \<Longrightarrow> encodeTyped tx = Ok (binary_enc tx)"
  using emits_encoded(2) [OF emits_inner, of tx] by (simp add: encodeTyped_def binary_enc_def)

lemma length_rlp_str: "length b \<le> length (rlp_str b)"
  by (cases b rule: rlp_str_cases) auto

lemma emits_if: "(length bs < 2 ^ 64 \<Longrightarrow> W = W') \<Longrightarrow> emits W' bs \<Longrightarrow> emits W bs"
  unfolding emits_def by auto

lemma emits_tx: "tx_ok tx \<Longrightarrow> emits (Transaction_EncodeRLP tx) (elem_enc tx)"
proof (cases "tx_Type tx = LegacyTxType")
  case False
  assume ok: "tx_ok tx"
  have e: "elem_enc tx = rlp_str (binary_enc tx)" using False by (simp add: elem_enc_def)
  show ?thesis unfolding e
  proof (rule emits_if [OF _ emits_writeBytes])
    assume "length (rlp_str (binary_enc tx)) < 2 ^ 64"
    then have "length (binary_enc tx) < 2 ^ 64" using length_rlp_str [of "binary_enc tx"] by linarith
    with encodeTyped_Ok [OF ok False] show "Transaction_EncodeRLP tx = writeBytes (binary_enc tx)"
      using False by (simp add: Transaction_EncodeRLP_def)
  qed
qed (simp add: Transaction_EncodeRLP_def elem_enc_def emits_inner)

lemma Kind_of_list:
  assumes "at s (rlp_list c @ ys) ls" and "fits (length (rlp_list c)) ls"
  shows "\<exists>s1. stream_Kind s = Ok ((List, word_of_nat (length c)), s1)"
  using Kind_head [of s List "length c" c ys ls] assms by (auto simp: rlp_list_head)

lemma Kind_of_str:
  assumes "at s (rlp_str b @ ys) ls" and "fits (length (rlp_str b)) ls" and "1 < length b"
  shows "\<exists>s1. stream_Kind s = Ok ((String, word_of_nat (length b)), s1)"
proof (cases b rule: rlp_str_cases)
  case more
  then show ?thesis using Kind_head [of s String "length b" b ys ls] assms by auto
qed (use assms in simp)

lemma ListSize_eq: "length c < 2 ^ 64 \<Longrightarrow> length (rlp_list c) < 2 ^ 64 \<Longrightarrow>
    unat (ListSize (word_of_nat (length c))) = length (rlp_list c)"
proof -
  assume c: "length c < 2 ^ 64" and l: "length (rlp_list c) < 2 ^ 64"
  have u: "unat (word_of_nat (length c) :: u64) = length c" using c by (simp add: unat_of_nat)
  then have "headsize (word_of_nat (length c)) = length (rlp_head 0xC0 0xF7 (length c))"
    using c by (simp add: headsize_def length_rlp_head word_less_nat_alt)
  then have "ListSize (word_of_nat (length c)) = word_of_nat (length (rlp_list c))"
    by (simp add: ListSize_def rlp_list_def)
  with l show ?thesis by (simp add: unat_of_nat)
qed

lemma head_inj:
  fixes a b :: u64
  assumes "head_of k (unat a) @ x = head_of k (unat b) @ y" and "k \<noteq> Byte" and "length (head_of k (unat a) @ x) < 2 ^ 64"
  shows "a = b"
proof -
  have s: "base (stream_Reset (head_of k (unat a) @ x)) (head_of k (unat a) @ x) []"
    using at_Reset [OF assms(3)] by (simp add: at_def)
  from readKind_head [OF s assms(2), of a x] readKind_head [OF s assms(2), of b y] assms(1) show ?thesis by simp
qed

definition decoded_ok :: "decoded_tx \<Rightarrow> bool" where
  "decoded_ok d \<longleftrightarrow> tx_ok (fst d) \<and> snd d = Some (length (binary_enc (fst d)))"

definition decoded_enc :: "decoded_tx \<Rightarrow> byte list" where "decoded_enc d = elem_enc (fst d)"

lemma peeks_Legacy: "peeks decodeLegacyTx"
  unfolding decodeLegacyTx_def by (rule peeks_Struct)

lemma decodeTyped_Ok:
  assumes "tx_ok tx" and "tx_Type tx \<noteq> LegacyTxType" and "length (binary_enc tx) < 2 ^ 64"
  shows "decodeTyped (binary_enc tx) = Ok tx"
  using assms access_list_rlp.decodes_back dynamic_fee_rlp.decodes_back
  by (cases tx) (auto simp: decodeTyped_def binary_enc_def tx_type_simps)

lemma decodeTyped_exact:
  assumes "decodeTyped b = Ok tx" and "length b < 2 ^ 64"
  shows "b = binary_enc tx \<and> tx_ok tx \<and> tx_Type tx \<noteq> LegacyTxType"
proof -
  obtain y b' where b: "b = y # b'" using assms(1) by (cases b) (auto simp: decodeTyped_def)
  have l: "length b' < 2 ^ 64" using assms(2) b by simp
  from assms(1) b consider
      (al) t where "y = AccessListTxType" "DecodeBytes b' decodeAccessListTx = Ok t" "tx = AccessList t"
    | (df) t where "y = DynamicFeeTxType" "DecodeBytes b' decodeDynamicFeeTx = Ok t" "tx = DynamicFee t"
    by (auto simp: decodeTyped_def bind_outcome_eq_Ok split: if_splits)
  then show ?thesis
  proof cases
    case al
    with access_list_rlp.decoded [OF l al(2)] b show ?thesis by (simp add: binary_enc_def tx_type_simps)
  next
    case df
    with dynamic_fee_rlp.decoded [OF l df(2)] b show ?thesis by (simp add: binary_enc_def tx_type_simps)
  qed
qed

lemma decodes_elem_legacy:
  assumes "legacy_ok t"
  shows "decodes Transaction_DecodeRLP (legacy_enc t) (Legacy t, Some (length (legacy_enc t)))"
  unfolding decodes_def
proof (intro allI impI)
  fix s ys ls assume a: "at s (legacy_enc t @ ys) ls" and f: "fits (length (legacy_enc t)) ls"
  obtain c where c: "legacy_enc t = rlp_list c" using inner_enc_list [of "Legacy t"] by auto
  obtain s1 where k: "stream_Kind s = Ok ((List, word_of_nat (length c)), s1)"
    using Kind_of_list [of s c ys ls] a f unfolding c by blast
  have len: "length (rlp_list c) < 2 ^ 64" using base_length a unfolding at_def c by fastforce
  then have "length c < 2 ^ 64" unfolding rlp_list_def length_append by linarith
  note sz = ListSize_eq [OF this len]
  have "decodeLegacyTx s1 = decodeLegacyTx s" using peeks_Legacy k unfolding peeks_def by blast
  moreover obtain s2 where "decodeLegacyTx s = Ok (t, s2)" "at s2 ys (sub_top (length (legacy_enc t)) ls)"
    using decodes_Legacy [OF assms] a f unfolding decodes_def by blast
  moreover have "0 < length (rlp_list c)" by (simp add: rlp_list_ne)
  ultimately show "\<exists>s'. Transaction_DecodeRLP s = Ok ((Legacy t, Some (length (legacy_enc t))), s') \<and>
      at s' ys (sub_top (length (legacy_enc t)) ls)"
    using k sz c by (simp add: Transaction_DecodeRLP_def andThen_apply_Ok ret_def setDecoded_def)
qed

lemma decodes_elem_typed:
  assumes "tx_ok tx" and t: "tx_Type tx \<noteq> LegacyTxType"
  shows "decodes Transaction_DecodeRLP (rlp_str (binary_enc tx)) (tx, Some (length (binary_enc tx)))"
  unfolding decodes_def
proof (intro allI impI)
  let ?b = "binary_enc tx"
  fix s ys ls assume a: "at s (rlp_str ?b @ ys) ls" and f: "fits (length (rlp_str ?b)) ls"
  have "inner_enc tx \<noteq> []" using inner_enc_list [of tx] rlp_list_ne by metis
  then have two: "1 < length ?b" using t by (simp add: binary_enc_def)
  obtain s1 where k: "stream_Kind s = Ok ((String, word_of_nat (length ?b)), s1)"
    using Kind_of_str [OF a f two] by blast
  have "length (rlp_str ?b) < 2 ^ 64" using base_length a unfolding at_def by fastforce
  then have len: "length ?b < 2 ^ 64" using length_rlp_str [of ?b] by linarith
  have "stream_Bytes s1 = stream_Bytes s" using peeks_Bytes k unfolding peeks_def by blast
  moreover obtain s2 where "stream_Bytes s = Ok (?b, s2)" "at s2 ys (sub_top (length (rlp_str ?b)) ls)"
    using decodes_Bytes a f unfolding decodes_def by blast
  ultimately show "\<exists>s'. Transaction_DecodeRLP s = Ok ((tx, Some (length ?b)), s') \<and> at s' ys (sub_top (length (rlp_str ?b)) ls)"
    using k decodeTyped_Ok [OF assms(1) t len] two
    by (auto simp: Transaction_DecodeRLP_def andThen_apply_Ok setDecoded_def)
qed

lemma exactly_elem: "exactly Transaction_DecodeRLP (\<lambda>d bs. bs = decoded_enc d \<and> decoded_ok d)"
  unfolding exactly_def
proof (intro allI impI)
  fix s ys ls d s' assume a: "at s ys ls" and o: "Transaction_DecodeRLP s = Ok (d, s')"
  from o obtain kind sz s1 where k: "stream_Kind s = Ok ((kind, sz), s1)"
    by (auto simp: Transaction_DecodeRLP_def andThen_eq_Ok)
  have lim: "length ys < 2 ^ 64" using base_length a unfolding at_def by blast
  have "\<exists>r. ys = decoded_enc d @ r \<and> decoded_ok d \<and> at s' r (sub_top (length (decoded_enc d)) ls)"
  proof (cases kind)
    case List
    then obtain t where t: "decodeLegacyTx s1 = Ok (t, s')" "d = setDecoded (Legacy t) (unat (ListSize sz))"
      using o k by (auto simp: Transaction_DecodeRLP_def andThen_eq_Ok ret_def)
    have ts: "decodeLegacyTx s = Ok (t, s')" using peeks_Legacy k t(1) unfolding peeks_def by auto
    then obtain r where r: "ys = legacy_enc t @ r" "at s' r (sub_top (length (legacy_enc t)) ls)"
      using exact_Legacy [unfolded exact_def, rule_format, OF a ts] by (elim exE conjE)
    have ok: "legacy_ok t" using yields_Legacy ts unfolding yields_def by blast
    obtain c where c: "legacy_enc t = rlp_list c" using inner_enc_list [of "Legacy t"] by auto
    have cl: "length (rlp_list c) < 2 ^ 64" using lim r(1) c by simp
    then have "length c < 2 ^ 64" unfolding rlp_list_def length_append by linarith
    note sz = ListSize_eq [OF this cl]
    obtain r' where r': "ys = head_of List (unat sz) @ r'" using Kind_Ok [OF a k] List by auto
    have "unat (word_of_nat (length c) :: u64) = length c" using \<open>length c < 2 ^ 64\<close> by (simp add: unat_of_nat)
    then have "head_of List (unat sz) @ r' = head_of List (unat (word_of_nat (length c) :: u64)) @ c @ r"
      using r' r(1) c by (simp add: rlp_list_head)
    then have "sz = word_of_nat (length c)" by (rule head_inj) (use lim r' in simp_all)
    with sz t(2) c have "d = (Legacy t, Some (length (legacy_enc t)))" by (simp add: setDecoded_def rlp_list_ne)
    with r ok show ?thesis by (simp add: decoded_enc_def decoded_ok_def elem_enc_def binary_enc_def tx_type_simps)
  next
    case String
    then obtain b tx where b: "stream_Bytes s1 = Ok (b, s')" "decodeTyped b = Ok tx" "d = setDecoded tx (length b)"
      using o k by (auto simp: Transaction_DecodeRLP_def andThen_eq_Ok bind_outcome_eq_Ok)
    have bs: "stream_Bytes s = Ok (b, s')" using peeks_Bytes k b(1) unfolding peeks_def by auto
    then obtain r where r: "ys = rlp_str b @ r" "at s' r (sub_top (length (rlp_str b)) ls)"
      using exact_Bytes [unfolded exact_def, rule_format, OF a bs] by (elim exE conjE)
    have "length b < 2 ^ 64" using lim r(1) length_rlp_str [of b] by simp
    note tx = decodeTyped_exact [OF b(2) this]
    then have "d = (tx, Some (length (binary_enc tx)))" using b(3) by (auto simp: setDecoded_def binary_enc_def)
    with r tx show ?thesis by (simp add: decoded_enc_def decoded_ok_def elem_enc_def)
  qed (use o k in \<open>auto simp: Transaction_DecodeRLP_def andThen_eq_Ok throw_def\<close>)
  then show "\<exists>bs r. ys = bs @ r \<and> (bs = decoded_enc d \<and> decoded_ok d) \<and> at s' r (sub_top (length bs) ls)" by blast
qed

interpretation tx_rlp: rlp_elem "\<lambda>d. Transaction_EncodeRLP (fst d)" Transaction_DecodeRLP decoded_enc decoded_ok
proof
  show "peeks Transaction_DecodeRLP" unfolding Transaction_DecodeRLP_def by (rule peeks_Kind)
  fix d assume ok: "decoded_ok d"
  then show "emits (Transaction_EncodeRLP (fst d)) (decoded_enc d)" by (simp add: decoded_enc_def decoded_ok_def emits_tx)
  obtain tx where d: "d = (tx, Some (length (binary_enc tx)))" "tx_ok tx" using ok by (cases d) (auto simp: decoded_ok_def)
  show "decodes Transaction_DecodeRLP (decoded_enc d) d"
  proof (cases "tx_Type tx = LegacyTxType")
    case True
    then obtain t where "tx = Legacy t" by (cases tx) (auto simp: tx_type_simps)
    with d decodes_elem_legacy show ?thesis by (simp add: decoded_enc_def elem_enc_def binary_enc_def tx_type_simps)
  next
    case False
    with d decodes_elem_typed show ?thesis by (simp add: decoded_enc_def elem_enc_def)
  qed
next
  fix d :: decoded_tx
  have "inner_enc (fst d) \<noteq> []" using inner_enc_list [of "fst d"] rlp_list_ne by metis
  then show "decoded_enc d \<noteq> []" by (simp add: decoded_enc_def elem_enc_def rlp_str_ne)
qed (rule exactly_elem)

section \<open>Properties\<close>

lemma legacy_head: "legacy_enc t = b # bs \<Longrightarrow> length (legacy_enc t) < 2 ^ 64 \<Longrightarrow> b > 0x7f"
proof -
  assume e: "legacy_enc t = b # bs" and l: "length (legacy_enc t) < 2 ^ 64"
  obtain c where c: "legacy_enc t = rlp_list c" using inner_enc_list [of "Legacy t"] by auto
  have "length c < 2 ^ 64" using l c unfolding rlp_list_def by simp
  then have "length (be_bytes (length c)) \<le> 8"
    using length_be_bytes_size [of "word_of_nat (length c)"] by (simp add: unat_of_nat)
  then have "unat (0xF7 + word_of_nat (length (be_bytes (length c))) :: byte) = 0xF7 + length (be_bytes (length c))"
    by (simp add: unat_byte_add)
  moreover have "length c < 56 \<Longrightarrow> unat (0xC0 + word_of_nat (length c) :: byte) = 0xC0 + length c" by (simp add: unat_byte_add)
  ultimately show ?thesis using e c by (auto simp: rlp_list_def rlp_head_def word_less_nat_alt split: if_splits)
qed

lemma tx_marshal_total:
  assumes "tx_ok tx" and "length (binary_enc tx) < 2 ^ 64"
  shows "Transaction_MarshalBinary tx = Ok (binary_enc tx)"
    and "Transaction_UnmarshalBinary (binary_enc tx) = Ok (tx, Some (length (binary_enc tx)))"
proof -
  have ne: "inner_enc tx \<noteq> []" using inner_enc_list [of tx] rlp_list_ne by metis
  show "Transaction_MarshalBinary tx = Ok (binary_enc tx)"
    using emits_encoded(1) [OF emits_inner [OF assms(1)]] encodeTyped_Ok [OF assms(1)] assms(2)
    by (auto simp: Transaction_MarshalBinary_def binary_enc_def)
  show "Transaction_UnmarshalBinary (binary_enc tx) = Ok (tx, Some (length (binary_enc tx)))"
  proof (cases tx)
    case (Legacy t)
    then have e: "binary_enc tx = legacy_enc t" by (simp add: binary_enc_def tx_type_simps)
    obtain b bs where b: "legacy_enc t = b # bs" using ne Legacy by (cases "legacy_enc t") auto
    have "b > 0x7f" using legacy_head [OF b] assms(2) e by simp
    with b legacy_rlp.decodes_back [of t] assms Legacy e show ?thesis
      by (simp add: Transaction_UnmarshalBinary_def setDecoded_def)
  next
    case (AccessList t)
    then have t: "tx_Type tx \<noteq> LegacyTxType" by (simp add: tx_type_simps)
    have "\<not> hd (binary_enc tx) > 0x7f" using AccessList by (simp add: binary_enc_def tx_type_simps)
    with decodeTyped_Ok [OF assms(1) t assms(2)] t show ?thesis
      by (simp add: Transaction_UnmarshalBinary_def setDecoded_def binary_enc_def)
  next
    case (DynamicFee t)
    then have t: "tx_Type tx \<noteq> LegacyTxType" by (simp add: tx_type_simps)
    have "\<not> hd (binary_enc tx) > 0x7f" using DynamicFee by (simp add: binary_enc_def tx_type_simps)
    with decodeTyped_Ok [OF assms(1) t assms(2)] t show ?thesis
      by (simp add: Transaction_UnmarshalBinary_def setDecoded_def binary_enc_def)
  qed
qed

lemma unmarshal_exact:
  assumes "length b < 2 ^ 64" and "Transaction_UnmarshalBinary b = Ok d"
  shows "b = binary_enc (fst d) \<and> decoded_ok d"
proof (cases "length b > 0 \<and> hd b > 0x7f")
  case True
  with assms(2) obtain t where t: "DecodeBytes b decodeLegacyTx = Ok t" "d = setDecoded (Legacy t) (length b)"
    by (auto simp: Transaction_UnmarshalBinary_def bind_outcome_eq_Ok)
  from legacy_rlp.decoded [OF assms(1) t(1)] t(2) True show ?thesis
    by (auto simp: decoded_ok_def binary_enc_def tx_type_simps setDecoded_def)
next
  case False
  with assms(2) obtain tx where t: "decodeTyped b = Ok tx" "d = setDecoded tx (length b)"
    by (auto simp: Transaction_UnmarshalBinary_def bind_outcome_eq_Ok)
  from decodeTyped_exact [OF t(1) assms(1)] t(2) show ?thesis
    by (auto simp: decoded_ok_def setDecoded_def binary_enc_def)
qed

definition sample_dynamic_tx :: transaction where
  "sample_dynamic_tx = DynamicFee \<lparr>df_ChainID = 250, df_Nonce = 7, df_GasTipCap = 2, df_GasFeeCap = 300, df_Gas = 21000,
     df_To = Some (replicate 20 0xAB), df_Value = 1000000, df_Data = [0x01, 0xFF],
     df_AccessList = [\<lparr>at_Address = replicate 20 1, at_StorageKeys = [replicate 32 2]\<rparr>], df_V = 1, df_R = 12345, df_S = 54321\<rparr>"

lemma sample_dynamic_tx_ok: "tx_ok sample_dynamic_tx" "tx_Type sample_dynamic_tx \<noteq> LegacyTxType"
  by (simp_all add: sample_dynamic_tx_def dynamic_fee_ok_def to_ok_def tuple_rlp_ok_def tx_type_simps)

lemma sample_dynamic_tx_length: "length (binary_enc sample_dynamic_tx) < 2 ^ 64" "length (elem_enc sample_dynamic_tx) < 2 ^ 64"
  by (simp_all add: sample_dynamic_tx_def binary_enc_def elem_enc_def dynamic_fee_enc_def to_enc_def nil_ptr_def tuple_enc_def
      rlp_int_def rlp_uint_def rlp_str_def rlp_list_def rlp_head_def be_bytes.simps tx_type_simps)

text \<open>
  Property C8.  The RLP form of every transaction with natural amounts and well-sized addresses
  is read back as that transaction, and the size the decoder caches is the length of the
  canonical binary form.
\<close>

theorem tx_rlp_round_trip:
  assumes "tx_ok tx" and "length (elem_enc tx) < 2 ^ 64"
  shows "\<exists>b m. EncodeToBytes (Transaction_EncodeRLP tx) = Ok b \<and> Transaction_MarshalBinary tx = Ok m \<and>
    DecodeBytes b Transaction_DecodeRLP = Ok (tx, Some (length m))"
proof -
  let ?d = "(tx, Some (length (binary_enc tx)))"
  have ok: "decoded_ok ?d" and e: "decoded_enc ?d = elem_enc tx" using assms(1) by (simp_all add: decoded_ok_def decoded_enc_def)
  have "length (binary_enc tx) \<le> length (elem_enc tx)"
    using length_rlp_str [of "binary_enc tx"] by (cases "tx_Type tx = LegacyTxType") (simp_all add: elem_enc_def binary_enc_def)
  then have "Transaction_MarshalBinary tx = Ok (binary_enc tx)" using tx_marshal_total(1) assms by simp
  with tx_rlp.encodes [OF ok] tx_rlp.decodes_back [OF ok] assms(2) e show ?thesis by auto
qed

theorem tx_rlp_round_trip_witness:
  "\<exists>b m. EncodeToBytes (Transaction_EncodeRLP sample_dynamic_tx) = Ok b \<and> Transaction_MarshalBinary sample_dynamic_tx = Ok m \<and>
    DecodeBytes b Transaction_DecodeRLP = Ok (sample_dynamic_tx, Some (length m))"
  by (rule tx_rlp_round_trip [OF sample_dynamic_tx_ok(1) sample_dynamic_tx_length(2)])

text \<open>
  Property C9.  Whatever bytes the RLP decoder accepts as a transaction, encoding that transaction
  gives exactly these bytes back: no transaction has a second RLP form.
\<close>

theorem tx_rlp_canonical:
  assumes "length b < 2 ^ 64" and "DecodeBytes b Transaction_DecodeRLP = Ok d"
  shows "EncodeToBytes (Transaction_EncodeRLP (fst d)) = Ok b"
  using tx_rlp.re_encodes [OF assms] .

theorem tx_rlp_canonical_witness:
  "\<exists>b d. length b < 2 ^ 64 \<and> DecodeBytes b Transaction_DecodeRLP = Ok d \<and> fst d = sample_dynamic_tx \<and>
    EncodeToBytes (Transaction_EncodeRLP (fst d)) = Ok b"
proof -
  let ?d = "(sample_dynamic_tx, Some (length (binary_enc sample_dynamic_tx)))"
  have ok: "decoded_ok ?d" and e: "decoded_enc ?d = elem_enc sample_dynamic_tx"
    by (simp_all add: decoded_ok_def decoded_enc_def sample_dynamic_tx_ok)
  have "DecodeBytes (elem_enc sample_dynamic_tx) Transaction_DecodeRLP = Ok ?d"
    using tx_rlp.decodes_back [OF ok] e sample_dynamic_tx_length(2) by simp
  with tx_rlp_canonical [OF sample_dynamic_tx_length(2) this] sample_dynamic_tx_length(2) show ?thesis by fastforce
qed

text \<open>
  Property C10.  The canonical binary form: a transaction that \<^verbatim>\<open>UnmarshalBinary\<close> accepts is
  marshalled to the very bytes it was read from, and its cached size is their number.
\<close>

theorem tx_binary_canonical:
  assumes "length b < 2 ^ 64" and "Transaction_UnmarshalBinary b = Ok d"
  shows "Transaction_MarshalBinary (fst d) = Ok b \<and> Transaction_Size d = Ok (length b)"
  using unmarshal_exact [OF assms] tx_marshal_total(1) [of "fst d"] assms(1)
  by (auto simp: decoded_ok_def Transaction_Size_def)

theorem tx_binary_canonical_witness:
  "\<exists>b d. length b < 2 ^ 64 \<and> Transaction_UnmarshalBinary b = Ok d \<and> fst d = sample_dynamic_tx \<and>
    Transaction_MarshalBinary (fst d) = Ok b"
  using tx_binary_canonical [OF sample_dynamic_tx_length(1) tx_marshal_total(2) [OF sample_dynamic_tx_ok(1) sample_dynamic_tx_length(1)]]
    tx_marshal_total(2) [OF sample_dynamic_tx_ok(1) sample_dynamic_tx_length(1)] sample_dynamic_tx_length(1)
  by fastforce

text \<open>
  Property C15.  A typed transaction built in memory reports a size one byte smaller than the same
  transaction after marshalling and unmarshalling: without a cached size only the inner data is
  counted, not the type byte.
\<close>

theorem tx_size_depends_on_cache:
  assumes "tx_ok tx" and "tx_Type tx \<noteq> LegacyTxType" and "length (binary_enc tx) < 2 ^ 64"
  shows "\<exists>n b d. Transaction_Size (tx, None) = Ok n \<and> Transaction_MarshalBinary tx = Ok b \<and>
    Transaction_UnmarshalBinary b = Ok d \<and> fst d = tx \<and> Transaction_Size d = Ok (n + 1)"
proof -
  have "rlp_Encode (writeInner tx) = Ok (inner_enc tx)"
    using emits_encoded(2) [OF emits_inner [OF assms(1)]] assms(2,3) by (simp add: binary_enc_def)
  with tx_marshal_total [OF assms(1,3)] assms(2) show ?thesis
    by (auto simp: Transaction_Size_def written_def binary_enc_def)
qed

theorem tx_size_depends_on_cache_witness:
  "\<exists>n b d. Transaction_Size (sample_dynamic_tx, None) = Ok n \<and> Transaction_MarshalBinary sample_dynamic_tx = Ok b \<and>
    Transaction_UnmarshalBinary b = Ok d \<and> fst d = sample_dynamic_tx \<and> Transaction_Size d = Ok (n + 1)"
  by (rule tx_size_depends_on_cache [OF sample_dynamic_tx_ok sample_dynamic_tx_length(1)])

end
