(* ===== verification/MpsRlp.thy ===== *)
theory MpsRlp
  imports NativeEvent RlpFields TxRlp
begin

text \<open>
  The RLP form of the structs of the package \<^verbatim>\<open>native\<close>, as the codec derives it from the Go
  types: locators, votes, signed votes and misbehaviour proofs.  A struct is the list of its
  fields, a fixed array the list of its elements, a pointer with the \<^verbatim>\<open>nil\<close> tag an empty list when
  it is nil.
\<close>

section \<open>Writers and decoders\<close>

definition writeEventLocator :: "EventLocator \<Rightarrow> (encbuf, unit) action" where
  "writeEventLocator v = makeStructWriter
     [writeByteArray (lo_BaseHash v),
      writeU16 (lo_NetForkID v),
      writeU32 (lo_Epoch v),
      writeU32 (lo_Seq v),
      writeU32 (lo_Lamport v),
      writeU32 (lo_Creator v),
      writeByteArray (lo_PayloadHash v)]"

definition decodeEventLocator :: "(rlp_stream, EventLocator) action" where
  "decodeEventLocator = makeStructDecoder (
     andThen (struct_field (decodeByteArray 32)) (\<lambda>x0.
     andThen (struct_field decodeU16) (\<lambda>x1.
     andThen (struct_field decodeU32) (\<lambda>x2.
     andThen (struct_field decodeU32) (\<lambda>x3.
     andThen (struct_field decodeU32) (\<lambda>x4.
     andThen (struct_field decodeU32) (\<lambda>x5.
     andThen (struct_field (decodeByteArray 32)) (\<lambda>x6.
     ret \<lparr>lo_BaseHash = x0, lo_NetForkID = x1, lo_Epoch = x2, lo_Seq = x3, lo_Lamport = x4, lo_Creator = x5, lo_PayloadHash = x6\<rparr>))))))))"

definition writeSignedEventLocator :: "SignedEventLocator \<Rightarrow> (encbuf, unit) action" where
  "writeSignedEventLocator v = makeStructWriter
     [writeEventLocator (sl_Locator v),
      writeByteArray (sl_Sig v)]"

definition decodeSignedEventLocator :: "(rlp_stream, SignedEventLocator) action" where
  "decodeSignedEventLocator = makeStructDecoder (
     andThen (struct_field decodeEventLocator) (\<lambda>x0.
     andThen (struct_field (decodeByteArray 64)) (\<lambda>x1.
     ret \<lparr>sl_Locator = x0, sl_Sig = x1\<rparr>)))"

definition writeLlrBlockVotes :: "LlrBlockVotes \<Rightarrow> (encbuf, unit) action" where
  "writeLlrBlockVotes v = makeStructWriter
     [writeUint (bv_Start v),
      writeU32 (bv_Epoch v),
      makeSliceWriter writeByteArray (bv_Votes v)]"

definition decodeLlrBlockVotes :: "(rlp_stream, LlrBlockVotes) action" where
  "decodeLlrBlockVotes = makeStructDecoder (
     andThen (struct_field (decodeUint 64)) (\<lambda>x0.
     andThen (struct_field decodeU32) (\<lambda>x1.
     andThen (struct_field (decodeListSlice (decodeByteArray 32))) (\<lambda>x2.
     ret \<lparr>bv_Start = x0, bv_Epoch = x1, bv_Votes = x2\<rparr>))))"

definition writeLlrEpochVote :: "LlrEpochVote \<Rightarrow> (encbuf, unit) action" where
  "writeLlrEpochVote v = makeStructWriter
     [writeU32 (ev_Epoch v),
      writeByteArray (ev_Vote v)]"

definition decodeLlrEpochVote :: "(rlp_stream, LlrEpochVote) action" where
  "decodeLlrEpochVote = makeStructDecoder (
     andThen (struct_field decodeU32) (\<lambda>x0.
     andThen (struct_field (decodeByteArray 32)) (\<lambda>x1.
     ret \<lparr>ev_Epoch = x0, ev_Vote = x1\<rparr>)))"

definition writeLlrSignedBlockVotes :: "LlrSignedBlockVotes \<Rightarrow> (encbuf, unit) action" where
  "writeLlrSignedBlockVotes v = makeStructWriter
     [writeSignedEventLocator (sbv_Signed v),
      writeByteArray (sbv_TxsAndMisbehaviourProofsHash v),
      writeByteArray (sbv_EpochVoteHash v),
      writeLlrBlockVotes (sbv_Val v)]"

definition decodeLlrSignedBlockVotes :: "(rlp_stream, LlrSignedBlockVotes) action" where
  "decodeLlrSignedBlockVotes = makeStructDecoder (
     andThen (struct_field decodeSignedEventLocator) (\<lambda>x0.
     andThen (struct_field (decodeByteArray 32)) (\<lambda>x1.
     andThen (struct_field (decodeByteArray 32)) (\<lambda>x2.
     andThen (struct_field decodeLlrBlockVotes) (\<lambda>x3.
     ret \<lparr>sbv_Signed = x0, sbv_TxsAndMisbehaviourProofsHash = x1, sbv_EpochVoteHash = x2, sbv_Val = x3\<rparr>)))))"

definition writeLlrSignedEpochVote :: "LlrSignedEpochVote \<Rightarrow> (encbuf, unit) action" where
  "writeLlrSignedEpochVote v = makeStructWriter
     [writeSignedEventLocator (sev_Signed v),
      writeByteArray (sev_TxsAndMisbehaviourProofsHash v),
      writeByteArray (sev_BlockVotesHash v),
      writeLlrEpochVote (sev_Val v)]"

definition decodeLlrSignedEpochVote :: "(rlp_stream, LlrSignedEpochVote) action" where
  "decodeLlrSignedEpochVote = makeStructDecoder (
     andThen (struct_field decodeSignedEventLocator) (\<lambda>x0.
     andThen (struct_field (decodeByteArray 32)) (\<lambda>x1.
     andThen (struct_field (decodeByteArray 32)) (\<lambda>x2.
     andThen (struct_field decodeLlrEpochVote) (\<lambda>x3.
     ret \<lparr>sev_Signed = x0, sev_TxsAndMisbehaviourProofsHash = x1, sev_BlockVotesHash = x2, sev_Val = x3\<rparr>)))))"

definition writeEventsDoublesign :: "SignedEventLocator \<times> SignedEventLocator \<Rightarrow> (encbuf, unit) action" where
  "writeEventsDoublesign v = makeStructWriter
     [writePair writeSignedEventLocator v]"

definition decodeEventsDoublesign :: "(rlp_stream, SignedEventLocator \<times> SignedEventLocator) action" where
  "decodeEventsDoublesign = makeStructDecoder (
     andThen (struct_field (decodePair decodeSignedEventLocator)) (\<lambda>x0.
     ret x0))"

definition writeBlockVoteDoublesign :: "BlockVoteDoublesign \<Rightarrow> (encbuf, unit) action" where
  "writeBlockVoteDoublesign v = makeStructWriter
     [writeUint (bvd_Block v),
      writePair writeLlrSignedBlockVotes (bvd_Pair v)]"

definition decodeBlockVoteDoublesign :: "(rlp_stream, BlockVoteDoublesign) action" where
  "decodeBlockVoteDoublesign = makeStructDecoder (
     andThen (struct_field (decodeUint 64)) (\<lambda>x0.
     andThen (struct_field (decodePair decodeLlrSignedBlockVotes)) (\<lambda>x1.
     ret \<lparr>bvd_Block = x0, bvd_Pair = x1\<rparr>)))"

definition writeWrongBlockVote :: "WrongBlockVote \<Rightarrow> (encbuf, unit) action" where
  "writeWrongBlockVote v = makeStructWriter
     [writeUint (wbv_Block v),
      writePair writeLlrSignedBlockVotes (wbv_Pals v),
      writeBool (wbv_WrongEpoch v)]"

definition decodeWrongBlockVote :: "(rlp_stream, WrongBlockVote) action" where
  "decodeWrongBlockVote = makeStructDecoder (
     andThen (struct_field (decodeUint 64)) (\<lambda>x0.
     andThen (struct_field (decodePair decodeLlrSignedBlockVotes)) (\<lambda>x1.
     andThen (struct_field decodeBool) (\<lambda>x2.
     ret \<lparr>wbv_Block = x0, wbv_Pals = x1, wbv_WrongEpoch = x2\<rparr>))))"

definition writeEpochVotePair :: "LlrSignedEpochVote \<times> LlrSignedEpochVote \<Rightarrow> (encbuf, unit) action" where
  "writeEpochVotePair v = makeStructWriter
     [writePair writeLlrSignedEpochVote v]"

definition decodeEpochVotePair :: "(rlp_stream, LlrSignedEpochVote \<times> LlrSignedEpochVote) action" where
  "decodeEpochVotePair = makeStructDecoder (
     andThen (struct_field (decodePair decodeLlrSignedEpochVote)) (\<lambda>x0.
     ret x0))"

definition writeMisbehaviourProof :: "MisbehaviourProof \<Rightarrow> (encbuf, unit) action" where
  "writeMisbehaviourProof v = makeStructWriter
     [makePtrWriter List writeEventsDoublesign (mp_EventsDoublesign v),
      makePtrWriter List writeBlockVoteDoublesign (mp_BlockVoteDoublesign v),
      makePtrWriter List writeWrongBlockVote (mp_WrongBlockVote v),
      makePtrWriter List writeEpochVotePair (mp_EpochVoteDoublesign v),
      makePtrWriter List writeEpochVotePair (mp_WrongEpochVote v)]"

definition decodeMisbehaviourProof :: "(rlp_stream, MisbehaviourProof) action" where
  "decodeMisbehaviourProof = makeStructDecoder (
     andThen (struct_field (makeNilPtrDecoder List decodeEventsDoublesign)) (\<lambda>x0.
     andThen (struct_field (makeNilPtrDecoder List decodeBlockVoteDoublesign)) (\<lambda>x1.
     andThen (struct_field (makeNilPtrDecoder List decodeWrongBlockVote)) (\<lambda>x2.
     andThen (struct_field (makeNilPtrDecoder List decodeEpochVotePair)) (\<lambda>x3.
     andThen (struct_field (makeNilPtrDecoder List decodeEpochVotePair)) (\<lambda>x4.
     ret \<lparr>mp_EventsDoublesign = x0, mp_BlockVoteDoublesign = x1, mp_WrongBlockVote = x2, mp_EpochVoteDoublesign = x3, mp_WrongEpochVote = x4\<rparr>))))))"

section \<open>The encodings\<close>

definition hashes_enc :: "hash list \<Rightarrow> byte list" where "hashes_enc hs = rlp_list (concat (map rlp_str hs))"

definition EventLocator_enc :: "EventLocator \<Rightarrow> byte list" where
  "EventLocator_enc v = rlp_list (rlp_str (lo_BaseHash v) @
     rlp_u16 (lo_NetForkID v) @
     rlp_u32 (lo_Epoch v) @
     rlp_u32 (lo_Seq v) @
     rlp_u32 (lo_Lamport v) @
     rlp_u32 (lo_Creator v) @
     rlp_str (lo_PayloadHash v))"

definition EventLocator_ok :: "EventLocator \<Rightarrow> bool" where
  "EventLocator_ok v \<longleftrightarrow> length (lo_BaseHash v) = 32 \<and>
     length (lo_PayloadHash v) = 32"

definition SignedEventLocator_enc :: "SignedEventLocator \<Rightarrow> byte list" where
  "SignedEventLocator_enc v = rlp_list (EventLocator_enc (sl_Locator v) @
     rlp_str (sl_Sig v))"

definition SignedEventLocator_ok :: "SignedEventLocator \<Rightarrow> bool" where
  "SignedEventLocator_ok v \<longleftrightarrow> EventLocator_ok (sl_Locator v) \<and>
     length (sl_Sig v) = 64"

definition LlrBlockVotes_enc :: "LlrBlockVotes \<Rightarrow> byte list" where
  "LlrBlockVotes_enc v = rlp_list (rlp_uint (bv_Start v) @
     rlp_u32 (bv_Epoch v) @
     hashes_enc (bv_Votes v))"

definition LlrBlockVotes_ok :: "LlrBlockVotes \<Rightarrow> bool" where
  "LlrBlockVotes_ok v \<longleftrightarrow> (\<forall>h \<in> set (bv_Votes v). length h = 32)"

definition LlrEpochVote_enc :: "LlrEpochVote \<Rightarrow> byte list" where
  "LlrEpochVote_enc v = rlp_list (rlp_u32 (ev_Epoch v) @
     rlp_str (ev_Vote v))"

definition LlrEpochVote_ok :: "LlrEpochVote \<Rightarrow> bool" where
  "LlrEpochVote_ok v \<longleftrightarrow> length (ev_Vote v) = 32"

definition LlrSignedBlockVotes_enc :: "LlrSignedBlockVotes \<Rightarrow> byte list" where
  "LlrSignedBlockVotes_enc v = rlp_list (SignedEventLocator_enc (sbv_Signed v) @
     rlp_str (sbv_TxsAndMisbehaviourProofsHash v) @
     rlp_str (sbv_EpochVoteHash v) @
     LlrBlockVotes_enc (sbv_Val v))"

definition LlrSignedBlockVotes_ok :: "LlrSignedBlockVotes \<Rightarrow> bool" where
  "LlrSignedBlockVotes_ok v \<longleftrightarrow> SignedEventLocator_ok (sbv_Signed v) \<and>
     length (sbv_TxsAndMisbehaviourProofsHash v) = 32 \<and>
     length (sbv_EpochVoteHash v) = 32 \<and>
     LlrBlockVotes_ok (sbv_Val v)"

definition LlrSignedEpochVote_enc :: "LlrSignedEpochVote \<Rightarrow> byte list" where
  "LlrSignedEpochVote_enc v = rlp_list (SignedEventLocator_enc (sev_Signed v) @
     rlp_str (sev_TxsAndMisbehaviourProofsHash v) @
     rlp_str (sev_BlockVotesHash v) @
     LlrEpochVote_enc (sev_Val v))"

definition LlrSignedEpochVote_ok :: "LlrSignedEpochVote \<Rightarrow> bool" where
  "LlrSignedEpochVote_ok v \<longleftrightarrow> SignedEventLocator_ok (sev_Signed v) \<and>
     length (sev_TxsAndMisbehaviourProofsHash v) = 32 \<and>
     length (sev_BlockVotesHash v) = 32 \<and>
     LlrEpochVote_ok (sev_Val v)"

definition EventsDoublesign_enc :: "SignedEventLocator \<times> SignedEventLocator \<Rightarrow> byte list" where
  "EventsDoublesign_enc v = rlp_list (pair_enc SignedEventLocator_enc v)"

definition EventsDoublesign_ok :: "SignedEventLocator \<times> SignedEventLocator \<Rightarrow> bool" where
  "EventsDoublesign_ok v \<longleftrightarrow> SignedEventLocator_ok (fst v) \<and> SignedEventLocator_ok (snd v)"

definition BlockVoteDoublesign_enc :: "BlockVoteDoublesign \<Rightarrow> byte list" where
  "BlockVoteDoublesign_enc v = rlp_list (rlp_uint (bvd_Block v) @
     pair_enc LlrSignedBlockVotes_enc (bvd_Pair v))"

definition BlockVoteDoublesign_ok :: "BlockVoteDoublesign \<Rightarrow> bool" where
  "BlockVoteDoublesign_ok v \<longleftrightarrow> LlrSignedBlockVotes_ok (fst (bvd_Pair v)) \<and> LlrSignedBlockVotes_ok (snd (bvd_Pair v))"

definition WrongBlockVote_enc :: "WrongBlockVote \<Rightarrow> byte list" where
  "WrongBlockVote_enc v = rlp_list (rlp_uint (wbv_Block v) @
     pair_enc LlrSignedBlockVotes_enc (wbv_Pals v) @
     rlp_bool (wbv_WrongEpoch v))"

definition WrongBlockVote_ok :: "WrongBlockVote \<Rightarrow> bool" where
  "WrongBlockVote_ok v \<longleftrightarrow> LlrSignedBlockVotes_ok (fst (wbv_Pals v)) \<and> LlrSignedBlockVotes_ok (snd (wbv_Pals v))"

definition EpochVotePair_enc :: "LlrSignedEpochVote \<times> LlrSignedEpochVote \<Rightarrow> byte list" where
  "EpochVotePair_enc v = rlp_list (pair_enc LlrSignedEpochVote_enc v)"

definition EpochVotePair_ok :: "LlrSignedEpochVote \<times> LlrSignedEpochVote \<Rightarrow> bool" where
  "EpochVotePair_ok v \<longleftrightarrow> LlrSignedEpochVote_ok (fst v) \<and> LlrSignedEpochVote_ok (snd v)"

definition MisbehaviourProof_enc :: "MisbehaviourProof \<Rightarrow> byte list" where
  "MisbehaviourProof_enc v = rlp_list (nil_ptr List EventsDoublesign_enc (mp_EventsDoublesign v) @
     nil_ptr List BlockVoteDoublesign_enc (mp_BlockVoteDoublesign v) @
     nil_ptr List WrongBlockVote_enc (mp_WrongBlockVote v) @
     nil_ptr List EpochVotePair_enc (mp_EpochVoteDoublesign v) @
     nil_ptr List EpochVotePair_enc (mp_WrongEpochVote v))"

definition MisbehaviourProof_ok :: "MisbehaviourProof \<Rightarrow> bool" where
  "MisbehaviourProof_ok v \<longleftrightarrow> (\<forall>p. (mp_EventsDoublesign v) = Some p \<longrightarrow> EventsDoublesign_ok p) \<and>
     (\<forall>p. (mp_BlockVoteDoublesign v) = Some p \<longrightarrow> BlockVoteDoublesign_ok p) \<and>
     (\<forall>p. (mp_WrongBlockVote v) = Some p \<longrightarrow> WrongBlockVote_ok p) \<and>
     (\<forall>p. (mp_EpochVoteDoublesign v) = Some p \<longrightarrow> EpochVotePair_ok p) \<and>
     (\<forall>p. (mp_WrongEpochVote v) = Some p \<longrightarrow> EpochVotePair_ok p)"

section \<open>Round trips and exactness\<close>

lemma emits_hashes: "emits (makeSliceWriter writeByteArray hs) (hashes_enc hs)"
  unfolding hashes_enc_def by (rule emits_slice) (rule emits_writeByteArray)

lemma emits_bool: "emits (writeBool b) (rlp_bool b)"
  using emits_writeBool [of b] by (simp add: rlp_bool_def)

lemma decodes_hashes: "\<forall>h \<in> set hs. length h = 32 \<Longrightarrow> decodes (decodeListSlice (decodeByteArray 32)) (hashes_enc hs) hs"
  unfolding hashes_enc_def by (rule decodes_Slice) (auto intro: decodes_ByteArray peeks_ByteArray simp: rlp_str_ne)

lemma exact_hashes: "exact (decodeListSlice (decodeByteArray 32)) hashes_enc"
  unfolding hashes_enc_def [abs_def] by (intro exact_Slice exact_ByteArray)

lemma items_ne: "rlp_str b \<noteq> []" "rlp_u32 u \<noteq> []" "rlp_uint w \<noteq> []" "pair_enc enc p \<noteq> []"
  by (simp_all add: rlp_str_ne rlp_u32_def rlp_uint_def pair_enc_def rlp_list_ne)

lemma nil_ptr_ne: "(\<And>v. enc v \<noteq> []) \<Longrightarrow> nil_ptr List enc x \<noteq> []"
  by (cases x) (simp_all add: nil_ptr_def rlp_head_def)

lemma emits_nil_ptr: "(\<And>v. ok v \<Longrightarrow> emits (W v) (enc v)) \<Longrightarrow> \<forall>p. x = Some p \<longrightarrow> ok p \<Longrightarrow>
    emits (makePtrWriter List W x) (nil_ptr List enc x)"
  using emits_ptr [of x W enc List] by (auto simp: nil_ptr_def rlp_list_def split: option.splits)

lemma decodes_nil_list:
  assumes "\<And>v. ok v \<Longrightarrow> decodes d (enc v) v" and "peeks d" and "\<And>v. non_empty_item (enc v)"
    and "\<forall>p. x = Some p \<longrightarrow> ok p"
  shows "decodes (makeNilPtrDecoder List d) (nil_ptr List enc x) x"
  using assms by (cases x) (auto intro: decodes_Ptr_None decodes_Ptr_Some)

lemma emits_EventLocator: "EventLocator_ok v \<Longrightarrow> emits (writeEventLocator v) (EventLocator_enc v)"
  unfolding writeEventLocator_def EventLocator_enc_def EventLocator_ok_def
  by (intro emits_struct emits_Cons emits_last emits_writeByteArray emits_U16 emits_U32)

lemma decodes_EventLocator: "EventLocator_ok v \<Longrightarrow> decodes decodeEventLocator (EventLocator_enc v) v"
  unfolding decodeEventLocator_def EventLocator_enc_def EventLocator_ok_def
  by (intro decodes_Struct decodes_andThen [OF decodes_field [OF decodes_ByteArray]] decodes_andThen [OF decodes_field [OF decodes_U16]] decodes_andThen [OF decodes_field [OF decodes_U32]]
      decodes_last [OF decodes_field [OF decodes_ByteArray]])
    (auto intro!: arg_cong [where f = ret] EventLocator.equality)

lemma exact_EventLocator: "exact decodeEventLocator EventLocator_enc"
  unfolding decodeEventLocator_def EventLocator_enc_def [abs_def]
  by (intro exact_Struct exactly_exact exactly_andThen [OF exact_field [OF exact_ByteArray]] exactly_andThen [OF exact_field [OF exact_U16]] exactly_andThen [OF exact_field [OF exact_U32]] exactly_ret) simp

lemma yields_EventLocator: "yields decodeEventLocator EventLocator_ok"
  unfolding decodeEventLocator_def EventLocator_ok_def [abs_def]
  by (intro yields_Struct yields_andThen [OF yields_field [OF yields_ByteArray]] yields_andThen [OF yields_True [of "struct_field decodeU16"]] yields_andThen [OF yields_True [of "struct_field decodeU32"]] yields_ret) (auto)

lemma ne_EventLocator: "EventLocator_enc v \<noteq> []" and item_EventLocator: "non_empty_item (EventLocator_enc v)" and peeks_EventLocator: "peeks decodeEventLocator"
  unfolding EventLocator_enc_def decodeEventLocator_def
  by (rule rlp_list_ne) (rule non_empty_list, simp add: items_ne, rule peeks_Struct)

lemma emits_SignedEventLocator: "SignedEventLocator_ok v \<Longrightarrow> emits (writeSignedEventLocator v) (SignedEventLocator_enc v)"
  unfolding writeSignedEventLocator_def SignedEventLocator_enc_def SignedEventLocator_ok_def
  by (intro emits_struct emits_Cons emits_last emits_EventLocator emits_writeByteArray) auto

lemma decodes_SignedEventLocator: "SignedEventLocator_ok v \<Longrightarrow> decodes decodeSignedEventLocator (SignedEventLocator_enc v) v"
  unfolding decodeSignedEventLocator_def SignedEventLocator_enc_def SignedEventLocator_ok_def
  by (intro decodes_Struct decodes_andThen [OF decodes_field [OF decodes_EventLocator]]
      decodes_last [OF decodes_field [OF decodes_ByteArray]])
    (auto intro!: arg_cong [where f = ret] SignedEventLocator.equality)

lemma exact_SignedEventLocator: "exact decodeSignedEventLocator SignedEventLocator_enc"
  unfolding decodeSignedEventLocator_def SignedEventLocator_enc_def [abs_def]
  by (intro exact_Struct exactly_exact exactly_andThen [OF exact_field [OF exact_EventLocator]] exactly_andThen [OF exact_field [OF exact_ByteArray]] exactly_ret) simp

lemma yields_SignedEventLocator: "yields decodeSignedEventLocator SignedEventLocator_ok"
  unfolding decodeSignedEventLocator_def SignedEventLocator_ok_def [abs_def]
  by (intro yields_Struct yields_andThen [OF yields_field [OF yields_EventLocator]] yields_andThen [OF yields_field [OF yields_ByteArray]] yields_ret) (auto)

lemma ne_SignedEventLocator: "SignedEventLocator_enc v \<noteq> []" and item_SignedEventLocator: "non_empty_item (SignedEventLocator_enc v)" and peeks_SignedEventLocator: "peeks decodeSignedEventLocator"
  unfolding SignedEventLocator_enc_def decodeSignedEventLocator_def
  by (rule rlp_list_ne) (rule non_empty_list, simp add: items_ne ne_EventLocator, rule peeks_Struct)

lemma emits_SignedEventLocator_pair: "SignedEventLocator_ok (fst p) \<and> SignedEventLocator_ok (snd p) \<Longrightarrow> emits (writePair writeSignedEventLocator p) (pair_enc SignedEventLocator_enc p)"
  and decodes_SignedEventLocator_pair: "SignedEventLocator_ok (fst p) \<and> SignedEventLocator_ok (snd p) \<Longrightarrow> decodes (decodePair decodeSignedEventLocator) (pair_enc SignedEventLocator_enc p) p"
  and exact_SignedEventLocator_pair: "exact (decodePair decodeSignedEventLocator) (pair_enc SignedEventLocator_enc)"
  and yields_SignedEventLocator_pair: "yields (decodePair decodeSignedEventLocator) (\<lambda>p. SignedEventLocator_ok (fst p) \<and> SignedEventLocator_ok (snd p))"
  by (auto intro!: emits_Pair decodes_Pair exact_Pair yields_Pair emits_SignedEventLocator decodes_SignedEventLocator exact_SignedEventLocator yields_SignedEventLocator)

lemma emits_LlrBlockVotes: "LlrBlockVotes_ok v \<Longrightarrow> emits (writeLlrBlockVotes v) (LlrBlockVotes_enc v)"
  unfolding writeLlrBlockVotes_def LlrBlockVotes_enc_def LlrBlockVotes_ok_def
  by (intro emits_struct emits_Cons emits_last emits_uint emits_U32 emits_hashes)

lemma decodes_LlrBlockVotes: "LlrBlockVotes_ok v \<Longrightarrow> decodes decodeLlrBlockVotes (LlrBlockVotes_enc v) v"
  unfolding decodeLlrBlockVotes_def LlrBlockVotes_enc_def LlrBlockVotes_ok_def
  by (intro decodes_Struct decodes_andThen [OF decodes_field [OF decodes_Uint64]] decodes_andThen [OF decodes_field [OF decodes_U32]]
      decodes_last [OF decodes_field [OF decodes_hashes]])
    (auto intro!: arg_cong [where f = ret] LlrBlockVotes.equality)

lemma exact_LlrBlockVotes: "exact decodeLlrBlockVotes LlrBlockVotes_enc"
  unfolding decodeLlrBlockVotes_def LlrBlockVotes_enc_def [abs_def]
  by (intro exact_Struct exactly_exact exactly_andThen [OF exact_field [OF exact_Uint64]] exactly_andThen [OF exact_field [OF exact_U32]] exactly_andThen [OF exact_field [OF exact_hashes]] exactly_ret) simp

lemma yields_LlrBlockVotes: "yields decodeLlrBlockVotes LlrBlockVotes_ok"
  unfolding decodeLlrBlockVotes_def LlrBlockVotes_ok_def [abs_def]
  by (intro yields_Struct yields_andThen [OF yields_True [of "struct_field (decodeUint 64)"]] yields_andThen [OF yields_True [of "struct_field decodeU32"]] yields_andThen [OF yields_field [OF yields_Slice [OF yields_ByteArray]]] yields_ret) (auto)

lemma ne_LlrBlockVotes: "LlrBlockVotes_enc v \<noteq> []" and item_LlrBlockVotes: "non_empty_item (LlrBlockVotes_enc v)" and peeks_LlrBlockVotes: "peeks decodeLlrBlockVotes"
  unfolding LlrBlockVotes_enc_def decodeLlrBlockVotes_def
  by (rule rlp_list_ne) (rule non_empty_list, simp add: items_ne, rule peeks_Struct)

lemma emits_LlrEpochVote: "LlrEpochVote_ok v \<Longrightarrow> emits (writeLlrEpochVote v) (LlrEpochVote_enc v)"
  unfolding writeLlrEpochVote_def LlrEpochVote_enc_def LlrEpochVote_ok_def
  by (intro emits_struct emits_Cons emits_last emits_U32 emits_writeByteArray)

lemma decodes_LlrEpochVote: "LlrEpochVote_ok v \<Longrightarrow> decodes decodeLlrEpochVote (LlrEpochVote_enc v) v"
  unfolding decodeLlrEpochVote_def LlrEpochVote_enc_def LlrEpochVote_ok_def
  by (intro decodes_Struct decodes_andThen [OF decodes_field [OF decodes_U32]]
      decodes_last [OF decodes_field [OF decodes_ByteArray]])
    (auto intro!: arg_cong [where f = ret] LlrEpochVote.equality)

lemma exact_LlrEpochVote: "exact decodeLlrEpochVote LlrEpochVote_enc"
  unfolding decodeLlrEpochVote_def LlrEpochVote_enc_def [abs_def]
  by (intro exact_Struct exactly_exact exactly_andThen [OF exact_field [OF exact_U32]] exactly_andThen [OF exact_field [OF exact_ByteArray]] exactly_ret) simp

lemma yields_LlrEpochVote: "yields decodeLlrEpochVote LlrEpochVote_ok"
  unfolding decodeLlrEpochVote_def LlrEpochVote_ok_def [abs_def]
  by (intro yields_Struct yields_andThen [OF yields_True [of "struct_field decodeU32"]] yields_andThen [OF yields_field [OF yields_ByteArray]] yields_ret) (auto)

lemma ne_LlrEpochVote: "LlrEpochVote_enc v \<noteq> []" and item_LlrEpochVote: "non_empty_item (LlrEpochVote_enc v)" and peeks_LlrEpochVote: "peeks decodeLlrEpochVote"
  unfolding LlrEpochVote_enc_def decodeLlrEpochVote_def
  by (rule rlp_list_ne) (rule non_empty_list, simp add: items_ne, rule peeks_Struct)

lemma emits_LlrSignedBlockVotes: "LlrSignedBlockVotes_ok v \<Longrightarrow> emits (writeLlrSignedBlockVotes v) (LlrSignedBlockVotes_enc v)"
  unfolding writeLlrSignedBlockVotes_def LlrSignedBlockVotes_enc_def LlrSignedBlockVotes_ok_def
  by (intro emits_struct emits_Cons emits_last emits_SignedEventLocator emits_writeByteArray emits_LlrBlockVotes) auto

lemma decodes_LlrSignedBlockVotes: "LlrSignedBlockVotes_ok v \<Longrightarrow> decodes decodeLlrSignedBlockVotes (LlrSignedBlockVotes_enc v) v"
  unfolding decodeLlrSignedBlockVotes_def LlrSignedBlockVotes_enc_def LlrSignedBlockVotes_ok_def
  by (intro decodes_Struct decodes_andThen [OF decodes_field [OF decodes_SignedEventLocator]] decodes_andThen [OF decodes_field [OF decodes_ByteArray]]
      decodes_last [OF decodes_field [OF decodes_LlrBlockVotes]])
    (auto intro!: arg_cong [where f = ret] LlrSignedBlockVotes.equality)

lemma exact_LlrSignedBlockVotes: "exact decodeLlrSignedBlockVotes LlrSignedBlockVotes_enc"
  unfolding decodeLlrSignedBlockVotes_def LlrSignedBlockVotes_enc_def [abs_def]
  by (intro exact_Struct exactly_exact exactly_andThen [OF exact_field [OF exact_SignedEventLocator]] exactly_andThen [OF exact_field [OF exact_ByteArray]] exactly_andThen [OF exact_field [OF exact_LlrBlockVotes]] exactly_ret) simp

lemma yields_LlrSignedBlockVotes: "yields decodeLlrSignedBlockVotes LlrSignedBlockVotes_ok"
  unfolding decodeLlrSignedBlockVotes_def LlrSignedBlockVotes_ok_def [abs_def]
  by (intro yields_Struct yields_andThen [OF yields_field [OF yields_SignedEventLocator]] yields_andThen [OF yields_field [OF yields_ByteArray]] yields_andThen [OF yields_field [OF yields_LlrBlockVotes]] yields_ret) (auto)

lemma ne_LlrSignedBlockVotes: "LlrSignedBlockVotes_enc v \<noteq> []" and item_LlrSignedBlockVotes: "non_empty_item (LlrSignedBlockVotes_enc v)" and peeks_LlrSignedBlockVotes: "peeks decodeLlrSignedBlockVotes"
  unfolding LlrSignedBlockVotes_enc_def decodeLlrSignedBlockVotes_def
  by (rule rlp_list_ne) (rule non_empty_list, simp add: items_ne ne_SignedEventLocator, rule peeks_Struct)

lemma emits_LlrSignedBlockVotes_pair: "LlrSignedBlockVotes_ok (fst p) \<and> LlrSignedBlockVotes_ok (snd p) \<Longrightarrow> emits (writePair writeLlrSignedBlockVotes p) (pair_enc LlrSignedBlockVotes_enc p)"
  and decodes_LlrSignedBlockVotes_pair: "LlrSignedBlockVotes_ok (fst p) \<and> LlrSignedBlockVotes_ok (snd p) \<Longrightarrow> decodes (decodePair decodeLlrSignedBlockVotes) (pair_enc LlrSignedBlockVotes_enc p) p"
  and exact_LlrSignedBlockVotes_pair: "exact (decodePair decodeLlrSignedBlockVotes) (pair_enc LlrSignedBlockVotes_enc)"
  and yields_LlrSignedBlockVotes_pair: "yields (decodePair decodeLlrSignedBlockVotes) (\<lambda>p. LlrSignedBlockVotes_ok (fst p) \<and> LlrSignedBlockVotes_ok (snd p))"
  by (auto intro!: emits_Pair decodes_Pair exact_Pair yields_Pair emits_LlrSignedBlockVotes decodes_LlrSignedBlockVotes exact_LlrSignedBlockVotes yields_LlrSignedBlockVotes)

lemma emits_LlrSignedEpochVote: "LlrSignedEpochVote_ok v \<Longrightarrow> emits (writeLlrSignedEpochVote v) (LlrSignedEpochVote_enc v)"
  unfolding writeLlrSignedEpochVote_def LlrSignedEpochVote_enc_def LlrSignedEpochVote_ok_def
  by (intro emits_struct emits_Cons emits_last emits_SignedEventLocator emits_writeByteArray emits_LlrEpochVote) auto

lemma decodes_LlrSignedEpochVote: "LlrSignedEpochVote_ok v \<Longrightarrow> decodes decodeLlrSignedEpochVote (LlrSignedEpochVote_enc v) v"
  unfolding decodeLlrSignedEpochVote_def LlrSignedEpochVote_enc_def LlrSignedEpochVote_ok_def
  by (intro decodes_Struct decodes_andThen [OF decodes_field [OF decodes_SignedEventLocator]] decodes_andThen [OF decodes_field [OF decodes_ByteArray]]
      decodes_last [OF decodes_field [OF decodes_LlrEpochVote]])
    (auto intro!: arg_cong [where f = ret] LlrSignedEpochVote.equality)

lemma exact_LlrSignedEpochVote: "exact decodeLlrSignedEpochVote LlrSignedEpochVote_enc"
  unfolding decodeLlrSignedEpochVote_def LlrSignedEpochVote_enc_def [abs_def]
  by (intro exact_Struct exactly_exact exactly_andThen [OF exact_field [OF exact_SignedEventLocator]] exactly_andThen [OF exact_field [OF exact_ByteArray]] exactly_andThen [OF exact_field [OF exact_LlrEpochVote]] exactly_ret) simp

lemma yields_LlrSignedEpochVote: "yields decodeLlrSignedEpochVote LlrSignedEpochVote_ok"
  unfolding decodeLlrSignedEpochVote_def LlrSignedEpochVote_ok_def [abs_def]
  by (intro yields_Struct yields_andThen [OF yields_field [OF yields_SignedEventLocator]] yields_andThen [OF yields_field [OF yields_ByteArray]] yields_andThen [OF yields_field [OF yields_LlrEpochVote]] yields_ret) (auto)

lemma ne_LlrSignedEpochVote: "LlrSignedEpochVote_enc v \<noteq> []" and item_LlrSignedEpochVote: "non_empty_item (LlrSignedEpochVote_enc v)" and peeks_LlrSignedEpochVote: "peeks decodeLlrSignedEpochVote"
  unfolding LlrSignedEpochVote_enc_def decodeLlrSignedEpochVote_def
  by (rule rlp_list_ne) (rule non_empty_list, simp add: items_ne ne_SignedEventLocator, rule peeks_Struct)

lemma emits_LlrSignedEpochVote_pair: "LlrSignedEpochVote_ok (fst p) \<and> LlrSignedEpochVote_ok (snd p) \<Longrightarrow> emits (writePair writeLlrSignedEpochVote p) (pair_enc LlrSignedEpochVote_enc p)"
  and decodes_LlrSignedEpochVote_pair: "LlrSignedEpochVote_ok (fst p) \<and> LlrSignedEpochVote_ok (snd p) \<Longrightarrow> decodes (decodePair decodeLlrSignedEpochVote) (pair_enc LlrSignedEpochVote_enc p) p"
  and exact_LlrSignedEpochVote_pair: "exact (decodePair decodeLlrSignedEpochVote) (pair_enc LlrSignedEpochVote_enc)"
  and yields_LlrSignedEpochVote_pair: "yields (decodePair decodeLlrSignedEpochVote) (\<lambda>p. LlrSignedEpochVote_ok (fst p) \<and> LlrSignedEpochVote_ok (snd p))"
  by (auto intro!: emits_Pair decodes_Pair exact_Pair yields_Pair emits_LlrSignedEpochVote decodes_LlrSignedEpochVote exact_LlrSignedEpochVote yields_LlrSignedEpochVote)

lemma emits_EventsDoublesign: "EventsDoublesign_ok v \<Longrightarrow> emits (writeEventsDoublesign v) (EventsDoublesign_enc v)"
  unfolding writeEventsDoublesign_def EventsDoublesign_enc_def EventsDoublesign_ok_def
  by (intro emits_struct emits_Cons emits_last emits_SignedEventLocator_pair) auto

lemma decodes_EventsDoublesign: "EventsDoublesign_ok v \<Longrightarrow> decodes decodeEventsDoublesign (EventsDoublesign_enc v) v"
  unfolding decodeEventsDoublesign_def EventsDoublesign_enc_def EventsDoublesign_ok_def
  by (intro decodes_Struct 
      decodes_last [OF decodes_field [OF decodes_SignedEventLocator_pair]])
    (auto intro!: refl)

lemma exact_EventsDoublesign: "exact decodeEventsDoublesign EventsDoublesign_enc"
  unfolding decodeEventsDoublesign_def EventsDoublesign_enc_def [abs_def]
  by (intro exact_Struct exactly_exact exactly_andThen [OF exact_field [OF exact_SignedEventLocator_pair]] exactly_ret) simp

lemma yields_EventsDoublesign: "yields decodeEventsDoublesign EventsDoublesign_ok"
  unfolding decodeEventsDoublesign_def EventsDoublesign_ok_def [abs_def]
  by (intro yields_Struct yields_andThen [OF yields_field [OF yields_SignedEventLocator_pair]] yields_ret) (auto)

lemma ne_EventsDoublesign: "EventsDoublesign_enc v \<noteq> []" and item_EventsDoublesign: "non_empty_item (EventsDoublesign_enc v)" and peeks_EventsDoublesign: "peeks decodeEventsDoublesign"
  unfolding EventsDoublesign_enc_def decodeEventsDoublesign_def
  by (rule rlp_list_ne) (rule non_empty_list, simp add: items_ne, rule peeks_Struct)

lemmas emits_EventsDoublesign_ptr = emits_nil_ptr [OF emits_EventsDoublesign]
lemmas decodes_EventsDoublesign_ptr = decodes_nil_list [OF decodes_EventsDoublesign peeks_EventsDoublesign item_EventsDoublesign]
lemmas exact_EventsDoublesign_ptr = exact_Ptr [OF exact_EventsDoublesign peeks_EventsDoublesign, of List]
lemmas yields_EventsDoublesign_ptr = yields_Ptr [OF yields_EventsDoublesign, of List]

lemma emits_BlockVoteDoublesign: "BlockVoteDoublesign_ok v \<Longrightarrow> emits (writeBlockVoteDoublesign v) (BlockVoteDoublesign_enc v)"
  unfolding writeBlockVoteDoublesign_def BlockVoteDoublesign_enc_def BlockVoteDoublesign_ok_def
  by (intro emits_struct emits_Cons emits_last emits_uint emits_LlrSignedBlockVotes_pair) auto

lemma decodes_BlockVoteDoublesign: "BlockVoteDoublesign_ok v \<Longrightarrow> decodes decodeBlockVoteDoublesign (BlockVoteDoublesign_enc v) v"
  unfolding decodeBlockVoteDoublesign_def BlockVoteDoublesign_enc_def BlockVoteDoublesign_ok_def
  by (intro decodes_Struct decodes_andThen [OF decodes_field [OF decodes_Uint64]]
      decodes_last [OF decodes_field [OF decodes_LlrSignedBlockVotes_pair]])
    (auto intro!: arg_cong [where f = ret] BlockVoteDoublesign.equality)

lemma exact_BlockVoteDoublesign: "exact decodeBlockVoteDoublesign BlockVoteDoublesign_enc"
  unfolding decodeBlockVoteDoublesign_def BlockVoteDoublesign_enc_def [abs_def]
  by (intro exact_Struct exactly_exact exactly_andThen [OF exact_field [OF exact_Uint64]] exactly_andThen [OF exact_field [OF exact_LlrSignedBlockVotes_pair]] exactly_ret) simp

lemma yields_BlockVoteDoublesign: "yields decodeBlockVoteDoublesign BlockVoteDoublesign_ok"
  unfolding decodeBlockVoteDoublesign_def BlockVoteDoublesign_ok_def [abs_def]
  by (intro yields_Struct yields_andThen [OF yields_True [of "struct_field (decodeUint 64)"]] yields_andThen [OF yields_field [OF yields_LlrSignedBlockVotes_pair]] yields_ret) (auto)

lemma ne_BlockVoteDoublesign: "BlockVoteDoublesign_enc v \<noteq> []" and item_BlockVoteDoublesign: "non_empty_item (BlockVoteDoublesign_enc v)" and peeks_BlockVoteDoublesign: "peeks decodeBlockVoteDoublesign"
  unfolding BlockVoteDoublesign_enc_def decodeBlockVoteDoublesign_def
  by (rule rlp_list_ne) (rule non_empty_list, simp add: items_ne, rule peeks_Struct)

lemmas emits_BlockVoteDoublesign_ptr = emits_nil_ptr [OF emits_BlockVoteDoublesign]
lemmas decodes_BlockVoteDoublesign_ptr = decodes_nil_list [OF decodes_BlockVoteDoublesign peeks_BlockVoteDoublesign item_BlockVoteDoublesign]
lemmas exact_BlockVoteDoublesign_ptr = exact_Ptr [OF exact_BlockVoteDoublesign peeks_BlockVoteDoublesign, of List]
lemmas yields_BlockVoteDoublesign_ptr = yields_Ptr [OF yields_BlockVoteDoublesign, of List]

lemma emits_WrongBlockVote: "WrongBlockVote_ok v \<Longrightarrow> emits (writeWrongBlockVote v) (WrongBlockVote_enc v)"
  unfolding writeWrongBlockVote_def WrongBlockVote_enc_def WrongBlockVote_ok_def
  by (intro emits_struct emits_Cons emits_last emits_uint emits_LlrSignedBlockVotes_pair emits_bool) auto

lemma decodes_WrongBlockVote: "WrongBlockVote_ok v \<Longrightarrow> decodes decodeWrongBlockVote (WrongBlockVote_enc v) v"
  unfolding decodeWrongBlockVote_def WrongBlockVote_enc_def WrongBlockVote_ok_def
  by (intro decodes_Struct decodes_andThen [OF decodes_field [OF decodes_Uint64]] decodes_andThen [OF decodes_field [OF decodes_LlrSignedBlockVotes_pair]]
      decodes_last [OF decodes_field [OF decodes_Bool]])
    (auto intro!: arg_cong [where f = ret] WrongBlockVote.equality)

lemma exact_WrongBlockVote: "exact decodeWrongBlockVote WrongBlockVote_enc"
  unfolding decodeWrongBlockVote_def WrongBlockVote_enc_def [abs_def]
  by (intro exact_Struct exactly_exact exactly_andThen [OF exact_field [OF exact_Uint64]] exactly_andThen [OF exact_field [OF exact_LlrSignedBlockVotes_pair]] exactly_andThen [OF exact_field [OF exact_Bool]] exactly_ret) simp

lemma yields_WrongBlockVote: "yields decodeWrongBlockVote WrongBlockVote_ok"
  unfolding decodeWrongBlockVote_def WrongBlockVote_ok_def [abs_def]
  by (intro yields_Struct yields_andThen [OF yields_True [of "struct_field (decodeUint 64)"]] yields_andThen [OF yields_field [OF yields_LlrSignedBlockVotes_pair]] yields_andThen [OF yields_True [of "struct_field decodeBool"]] yields_ret) (auto)

lemma ne_WrongBlockVote: "WrongBlockVote_enc v \<noteq> []" and item_WrongBlockVote: "non_empty_item (WrongBlockVote_enc v)" and peeks_WrongBlockVote: "peeks decodeWrongBlockVote"
  unfolding WrongBlockVote_enc_def decodeWrongBlockVote_def
  by (rule rlp_list_ne) (rule non_empty_list, simp add: items_ne, rule peeks_Struct)

lemmas emits_WrongBlockVote_ptr = emits_nil_ptr [OF emits_WrongBlockVote]
lemmas decodes_WrongBlockVote_ptr = decodes_nil_list [OF decodes_WrongBlockVote peeks_WrongBlockVote item_WrongBlockVote]
lemmas exact_WrongBlockVote_ptr = exact_Ptr [OF exact_WrongBlockVote peeks_WrongBlockVote, of List]
lemmas yields_WrongBlockVote_ptr = yields_Ptr [OF yields_WrongBlockVote, of List]

lemma emits_EpochVotePair: "EpochVotePair_ok v \<Longrightarrow> emits (writeEpochVotePair v) (EpochVotePair_enc v)"
  unfolding writeEpochVotePair_def EpochVotePair_enc_def EpochVotePair_ok_def
  by (intro emits_struct emits_Cons emits_last emits_LlrSignedEpochVote_pair) auto

lemma decodes_EpochVotePair: "EpochVotePair_ok v \<Longrightarrow> decodes decodeEpochVotePair (EpochVotePair_enc v) v"
  unfolding decodeEpochVotePair_def EpochVotePair_enc_def EpochVotePair_ok_def
  by (intro decodes_Struct 
      decodes_last [OF decodes_field [OF decodes_LlrSignedEpochVote_pair]])
    (auto intro!: refl)

lemma exact_EpochVotePair: "exact decodeEpochVotePair EpochVotePair_enc"
  unfolding decodeEpochVotePair_def EpochVotePair_enc_def [abs_def]
  by (intro exact_Struct exactly_exact exactly_andThen [OF exact_field [OF exact_LlrSignedEpochVote_pair]] exactly_ret) simp

lemma yields_EpochVotePair: "yields decodeEpochVotePair EpochVotePair_ok"
  unfolding decodeEpochVotePair_def EpochVotePair_ok_def [abs_def]
  by (intro yields_Struct yields_andThen [OF yields_field [OF yields_LlrSignedEpochVote_pair]] yields_ret) (auto)

lemma ne_EpochVotePair: "EpochVotePair_enc v \<noteq> []" and item_EpochVotePair: "non_empty_item (EpochVotePair_enc v)" and peeks_EpochVotePair: "peeks decodeEpochVotePair"
  unfolding EpochVotePair_enc_def decodeEpochVotePair_def
  by (rule rlp_list_ne) (rule non_empty_list, simp add: items_ne, rule peeks_Struct)

lemmas emits_EpochVotePair_ptr = emits_nil_ptr [OF emits_EpochVotePair]
lemmas decodes_EpochVotePair_ptr = decodes_nil_list [OF decodes_EpochVotePair peeks_EpochVotePair item_EpochVotePair]
lemmas exact_EpochVotePair_ptr = exact_Ptr [OF exact_EpochVotePair peeks_EpochVotePair, of List]
lemmas yields_EpochVotePair_ptr = yields_Ptr [OF yields_EpochVotePair, of List]

lemma emits_MisbehaviourProof: "MisbehaviourProof_ok v \<Longrightarrow> emits (writeMisbehaviourProof v) (MisbehaviourProof_enc v)"
  unfolding writeMisbehaviourProof_def MisbehaviourProof_enc_def MisbehaviourProof_ok_def
  by (intro emits_struct emits_Cons emits_last emits_EventsDoublesign_ptr emits_BlockVoteDoublesign_ptr emits_WrongBlockVote_ptr emits_EpochVotePair_ptr) auto

lemma decodes_MisbehaviourProof: "MisbehaviourProof_ok v \<Longrightarrow> decodes decodeMisbehaviourProof (MisbehaviourProof_enc v) v"
  unfolding decodeMisbehaviourProof_def MisbehaviourProof_enc_def MisbehaviourProof_ok_def
  by (intro decodes_Struct decodes_andThen [OF decodes_field [OF decodes_EventsDoublesign_ptr]] decodes_andThen [OF decodes_field [OF decodes_BlockVoteDoublesign_ptr]] decodes_andThen [OF decodes_field [OF decodes_WrongBlockVote_ptr]] decodes_andThen [OF decodes_field [OF decodes_EpochVotePair_ptr]]
      decodes_last [OF decodes_field [OF decodes_EpochVotePair_ptr]])
    (auto intro!: arg_cong [where f = ret] MisbehaviourProof.equality)

lemma exact_MisbehaviourProof: "exact decodeMisbehaviourProof MisbehaviourProof_enc"
  unfolding decodeMisbehaviourProof_def MisbehaviourProof_enc_def [abs_def]
  by (intro exact_Struct exactly_exact exactly_andThen [OF exact_field [OF exact_EventsDoublesign_ptr]] exactly_andThen [OF exact_field [OF exact_BlockVoteDoublesign_ptr]] exactly_andThen [OF exact_field [OF exact_WrongBlockVote_ptr]] exactly_andThen [OF exact_field [OF exact_EpochVotePair_ptr]] exactly_ret) simp

lemma yields_MisbehaviourProof: "yields decodeMisbehaviourProof MisbehaviourProof_ok"
  unfolding decodeMisbehaviourProof_def MisbehaviourProof_ok_def [abs_def]
  by (intro yields_Struct yields_andThen [OF yields_field [OF yields_EventsDoublesign_ptr]] yields_andThen [OF yields_field [OF yields_BlockVoteDoublesign_ptr]] yields_andThen [OF yields_field [OF yields_WrongBlockVote_ptr]] yields_andThen [OF yields_field [OF yields_EpochVotePair_ptr]] yields_ret) (auto)

lemma ne_MisbehaviourProof: "MisbehaviourProof_enc v \<noteq> []" and item_MisbehaviourProof: "non_empty_item (MisbehaviourProof_enc v)" and peeks_MisbehaviourProof: "peeks decodeMisbehaviourProof"
  unfolding MisbehaviourProof_enc_def decodeMisbehaviourProof_def
  by (rule rlp_list_ne) (rule non_empty_list, simp add: items_ne nil_ptr_ne [OF ne_EventsDoublesign], rule peeks_Struct)

interpretation mp_rlp: rlp_elem writeMisbehaviourProof decodeMisbehaviourProof MisbehaviourProof_enc MisbehaviourProof_ok
proof
  fix v show "MisbehaviourProof_enc v \<noteq> []" by (simp add: MisbehaviourProof_enc_def rlp_list_ne)
qed (simp_all add: emits_MisbehaviourProof decodes_MisbehaviourProof peeks_MisbehaviourProof
  exactly_yields [OF exact_MisbehaviourProof yields_MisbehaviourProof])

end
