(* ===== verification/DeriveSha.thy ===== *)
theory DeriveSha
  imports TxRlp
begin

text \<open>
  \<^verbatim>\<open>core/types/hashing.go\<close>: the trie root over a list of transactions.  The trie hasher is the
  parameter the code has: the hash it returns after a sequence of updates.  The updates come in an
  order that starts at index 1, because the keys must arrive in increasing order.
\<close>

section \<open>The updates\<close>

text \<open>\<^verbatim>\<open>EncodeIndex\<close> ignores the error of the encoder, which has written nothing then.\<close>

definition EncodeIndex :: "transaction list \<Rightarrow> nat \<Rightarrow> byte list" where
  "EncodeIndex s i = (let tx = s ! i; bs = (case rlp_Encode (writeInner tx) of Ok b \<Rightarrow> b | _ \<Rightarrow> []) in
     if tx_Type tx = LegacyTxType then bs else tx_Type tx # bs)"

text \<open>The three loops of \<^verbatim>\<open>DeriveSha\<close>: 1 to 0x7f, then 0, then from 0x80 on.\<close>

definition derive_order :: "nat \<Rightarrow> nat list" where
  "derive_order n = [1..<min n 0x80] @ (if n > 0 then [0] else []) @ [0x80..<n]"

definition derive_key :: "nat \<Rightarrow> byte list" where
  "derive_key i = AppendUint64 [] (word_of_nat i)"

definition derive_updates :: "transaction list \<Rightarrow> (byte list \<times> byte list) list" where
  "derive_updates txs = map (\<lambda>i. (derive_key i, EncodeIndex txs i)) (derive_order (length txs))"

definition DeriveSha :: "((byte list \<times> byte list) list \<Rightarrow> hash) \<Rightarrow> transaction list \<Rightarrow> hash" where
  "DeriveSha hasher txs = hasher (derive_updates txs)"

section \<open>The order of the keys\<close>

abbreviation key_less :: "byte list \<Rightarrow> byte list \<Rightarrow> bool" where "key_less \<equiv> ord_class.lexordp"

lemma be_pad_Cons: "be_pad (Suc k) n = word_of_nat (n div 256 ^ k) # be_pad k n"
  using be_pad_append [of 1 k n] by (simp add: be_pad_def)

lemma be_pad_mod: "be_pad k (n mod 256 ^ k) = be_pad k n"
proof (induction k arbitrary: n)
  case (Suc k)
  have "n mod 256 ^ Suc k div 256 = n div 256 mod 256 ^ k"
    by (simp add: mod_mult2_eq)
  moreover have "(word_of_nat (n mod 256 ^ Suc k) :: byte) = word_of_nat n"
    by (metis mod_mod_cancel power_Suc dvd_triv_left word_of_nat_mod_256)
  ultimately show ?case using Suc by (simp add: be_pad_Suc)
qed (simp add: be_pad_def)

lemma be_pad_less: "a < b \<Longrightarrow> b < 256 ^ k \<Longrightarrow> key_less (be_pad k a) (be_pad k b)"
proof (induction k arbitrary: a b)
  case (Suc k)
  let ?p = "256 ^ k :: nat"
  have le: "a div ?p \<le> b div ?p" using Suc.prems(1) by (simp add: div_le_mono)
  have bb: "b div ?p < 256" using Suc.prems(2) by (simp add: less_mult_imp_div_less)
  have u: "unat (word_of_nat (a div ?p) :: byte) = a div ?p" "unat (word_of_nat (b div ?p) :: byte) = b div ?p"
    using le bb by (simp_all add: unat_of_nat)
  show ?case
  proof (cases "a div ?p = b div ?p")
    case True
    then have "a mod ?p < b mod ?p" using Suc.prems(1) by (metis add_less_cancel_left div_mult_mod_eq)
    then have "key_less (be_pad k (a mod ?p)) (be_pad k (b mod ?p))" using Suc.IH by simp
    then show ?thesis using True by (simp add: be_pad_Cons be_pad_mod)
  next
    case False
    then have "(word_of_nat (a div ?p) :: byte) < word_of_nat (b div ?p)" using le u by (simp add: word_less_nat_alt)
    then show ?thesis by (simp add: be_pad_Cons)
  qed
qed simp

lemma derive_key_small: "0 < i \<Longrightarrow> i < 128 \<Longrightarrow> derive_key i = [word_of_nat i]"
proof -
  assume i: "0 < i" "i < 128"
  have u: "unat (word_of_nat i :: u64) = i" using i(2) by (simp add: unat_of_nat)
  have "be_bytes i = [word_of_nat i]" using be_bytes_byte [of i] i by simp
  moreover have "unat (word_of_nat i :: byte) = i" using i by (simp add: unat_of_nat)
  ultimately show ?thesis using u i by (simp add: derive_key_def AppendUint64_eq rlp_uint_def rlp_str_def word_le_nat_alt)
qed

lemma derive_key_0: "derive_key 0 = [0x80]"
  by (simp add: derive_key_def AppendUint64_def)

lemma derive_key_large:
  assumes "128 \<le> i" and "i < 2 ^ 64"
  shows "derive_key i = (0x80 + word_of_nat (length (be_bytes i))) # be_pad (length (be_bytes i)) i"
    and "1 \<le> length (be_bytes i)" and "length (be_bytes i) \<le> 8"
proof -
  have u: "unat (word_of_nat i :: u64) = i" using assms(2) by (rule unat_u64)
  show l: "1 \<le> length (be_bytes i)" "length (be_bytes i) \<le> 8"
    using length_be_bytes_pos [of i] length_be_bytes [of i 8] assms by simp_all
  have "be_pad (length (be_bytes i)) i = be_bytes i" using be_pad_be_num [of "be_bytes i"] by simp
  then show "derive_key i = (0x80 + word_of_nat (length (be_bytes i))) # be_pad (length (be_bytes i)) i"
    using rlp_str_small [of i] l(2) assms(1) u by (simp add: derive_key_def AppendUint64_eq rlp_uint_def)
qed

lemma length_be_bytes_mono: "i \<le> j \<Longrightarrow> length (be_bytes i) \<le> length (be_bytes j)"
  using be_num_bound [of "be_bytes j"] by (intro length_be_bytes) simp

lemma derive_key_less_large:
  assumes "128 \<le> i" and "i < j" and "j < 2 ^ 64"
  shows "key_less (derive_key i) (derive_key j)"
proof -
  let ?a = "length (be_bytes i)" and ?b = "length (be_bytes j)"
  have ab: "?a \<le> ?b" using length_be_bytes_mono assms(2) by simp
  have k: "derive_key i = (0x80 + word_of_nat ?a) # be_pad ?a i" "derive_key j = (0x80 + word_of_nat ?b) # be_pad ?b j" "?b \<le> 8"
    using derive_key_large [of i] derive_key_large [of j] assms by simp_all
  have u: "unat (0x80 + word_of_nat ?a :: byte) = 0x80 + ?a" "unat (0x80 + word_of_nat ?b :: byte) = 0x80 + ?b"
    using ab k(3) by (simp_all add: unat_byte_add)
  show ?thesis
  proof (cases "?a = ?b")
    case True
    have "j < 256 ^ ?b" using be_num_bound [of "be_bytes j"] by simp
    then show ?thesis using True k(1,2) be_pad_less [OF assms(2)] by simp
  next
    case False
    then have "(0x80 + word_of_nat ?a :: byte) < 0x80 + word_of_nat ?b" using ab u by (simp add: word_less_nat_alt)
    then show ?thesis unfolding k(1,2) by simp
  qed
qed

lemma derive_key_less_128:
  assumes "0 < i" and "i < 128" and "j = 0 \<or> (i < j \<and> j < 2 ^ 64)"
  shows "key_less (derive_key i) (derive_key j)"
proof -
  have ui: "unat (word_of_nat i :: byte) = i" using assms(2) by (simp add: unat_of_nat)
  consider "j = 0" | "i < j" "j < 128" | "128 \<le> j" "j < 2 ^ 64" using assms by linarith
  then show ?thesis
  proof cases
    case 1
    then show ?thesis using assms(1,2) ui by (simp add: derive_key_small derive_key_0 word_less_nat_alt)
  next
    case 2
    then have "unat (word_of_nat j :: byte) = j" by (simp add: unat_of_nat)
    with 2 show ?thesis using assms(1,2) ui by (simp add: derive_key_small word_less_nat_alt)
  next
    case 3
    note k = derive_key_large [OF 3]
    have "unat (0x80 + word_of_nat (length (be_bytes j)) :: byte) = 0x80 + length (be_bytes j)"
      using k(3) by (simp add: unat_byte_add)
    then show ?thesis using assms(1,2) ui k(1) by (simp add: derive_key_small word_less_nat_alt)
  qed
qed

lemma derive_key_0_less:
  assumes "128 \<le> j" and "j < 2 ^ 64"
  shows "key_less (derive_key 0) (derive_key j)"
proof -
  note k = derive_key_large [OF assms]
  have "unat (0x80 + word_of_nat (length (be_bytes j)) :: byte) = 0x80 + length (be_bytes j)"
    using k(3) by (simp add: unat_byte_add)
  then show ?thesis using k(1,2) assms(1) by (simp add: derive_key_0 word_less_nat_alt)
qed

text \<open>
  Property C11.  The trie root of a transaction list updates every index exactly once, and the keys
  arrive in strictly increasing order, as the stack trie needs them.
\<close>

theorem derive_updates_increasing:
  assumes "length txs < 2 ^ 64"
  shows "sorted_wrt key_less (map fst (derive_updates txs)) \<and>
    (\<forall>i < length txs. (AppendUint64 [] (word_of_nat i), EncodeIndex txs i) \<in> set (derive_updates txs)) \<and>
    length (derive_updates txs) = length txs"
proof -
  let ?n = "length txs"
  have "sorted_wrt (\<lambda>i j. key_less (derive_key i) (derive_key j)) (derive_order ?n)"
    unfolding derive_order_def sorted_wrt_append
  proof (intro conjI ballI)
    show "sorted_wrt (\<lambda>i j. key_less (derive_key i) (derive_key j)) [1..<min ?n 0x80]"
      by (rule sorted_wrt_mono_rel [OF _ sorted_wrt_upt]) (auto intro: derive_key_less_128)
    show "sorted_wrt (\<lambda>i j. key_less (derive_key i) (derive_key j)) [0x80..<?n]"
      using assms by (intro sorted_wrt_mono_rel [OF _ sorted_wrt_upt]) (auto intro: derive_key_less_large)
  qed (use assms in \<open>auto intro: derive_key_less_128 derive_key_0_less split: if_splits\<close>)
  then have "sorted_wrt key_less (map fst (derive_updates txs))"
    by (simp add: derive_updates_def sorted_wrt_map comp_def)
  moreover have "set (derive_order ?n) = {0..<?n}" by (auto simp: derive_order_def)
  moreover have "length (derive_order ?n) = ?n" by (cases "?n \<le> 0x80") (auto simp: derive_order_def min_def)
  ultimately show ?thesis by (auto simp: derive_updates_def derive_key_def)
qed

theorem derive_updates_increasing_witness:
  "sorted_wrt key_less (map fst (derive_updates (replicate 200 sample_dynamic_tx))) \<and>
    length (derive_updates (replicate 200 sample_dynamic_tx)) = 200"
  using derive_updates_increasing [of "replicate 200 sample_dynamic_tx"] by simp

end
