(* ===== verification/BitArray.thy ===== *)
theory BitArray
  imports Sesa_Prelude
begin

unbundle bit_operations_syntax

text \<open>
  The bit array of \<^verbatim>\<open>utils/bits/bits.go\<close>: a writer that packs numbers of a few bits into
  bytes, least significant bit first, and a reader that takes them out again.  The Go structs
  share the array through a pointer; each is a record here that holds the bytes itself.
  A slice index out of range is a \<^const>\<open>Panic\<close>.  The lemmas show that a writer is a bit
  queue (\<open>wrepr\<close>) and that a reader is a position in the same queue (\<open>rbits\<close>).
\<close>

record bits_writer =
  w_Bytes :: "byte list"
  w_bitOffset :: nat

record bits_reader =
  r_Bytes :: "byte list"
  r_byteOffset :: nat
  r_bitOffset :: nat

definition bits_NewWriter :: "byte list \<Rightarrow> bits_writer" where
  "bits_NewWriter arr = \<lparr>w_Bytes = arr, w_bitOffset = 0\<rparr>"

definition bits_NewReader :: "byte list \<Rightarrow> bits_reader" where
  "bits_NewReader arr = \<lparr>r_Bytes = arr, r_byteOffset = 0, r_bitOffset = 0\<rparr>"

definition writer_byteBitsFree :: "bits_writer \<Rightarrow> nat" where
  "writer_byteBitsFree a = 8 - w_bitOffset a"

definition writeIntoLastByte :: "u64 \<Rightarrow> (bits_writer, unit) action" where
  "writeIntoLastByte v a =
     (if w_Bytes a = [] then Panic
      else Ok ((), a\<lparr>w_Bytes := (w_Bytes a)[length (w_Bytes a) - 1 :=
             last (w_Bytes a) OR ucast (push_bit (w_bitOffset a) v)]\<rparr>))"

definition zeroTopByteBits :: "u64 \<Rightarrow> nat \<Rightarrow> u64" where
  "zeroTopByteBits v bits = (let mask = drop_bit bits 0xff in v AND mask)"

function bits_Write :: "nat \<Rightarrow> u64 \<Rightarrow> (bits_writer, unit) action" where
  "bits_Write bits v a =
     (let a1 = (if w_bitOffset a = 0 then a\<lparr>w_Bytes := w_Bytes a @ [0]\<rparr> else a);
          free = writer_byteBitsFree a1
      in if bits \<le> free then
           bind_outcome (writeIntoLastByte v a1) (\<lambda>(_, a2).
             Ok ((), if bits = free then a2\<lparr>w_bitOffset := 0\<rparr>
                     else a2\<lparr>w_bitOffset := w_bitOffset a2 + bits\<rparr>))
         else
           bind_outcome (writeIntoLastByte (zeroTopByteBits v (w_bitOffset a1)) a1) (\<lambda>(_, a2).
             bits_Write (bits - free) (drop_bit free v) (a2\<lparr>w_bitOffset := 0\<rparr>)))"
  by pat_completeness auto
termination
  by (relation "measures [\<lambda>(b, v, a). b, \<lambda>(b, v, a). w_bitOffset a]")
     (auto simp: writer_byteBitsFree_def split: if_splits)

definition reader_byteBitsFree :: "bits_reader \<Rightarrow> nat" where
  "reader_byteBitsFree a = 8 - r_bitOffset a"

function bits_Read :: "nat \<Rightarrow> (bits_reader, u64) action" where
  "bits_Read bits a =
     (if bits = 0 then Ok (0, a)
      else let free = reader_byteBitsFree a in
        if bits \<le> free then
          if r_byteOffset a < length (r_Bytes a) then
            let clear = 8 - (r_bitOffset a + bits);
                v = drop_bit (r_bitOffset a) (zeroTopByteBits (ucast (r_Bytes a ! r_byteOffset a)) clear)
            in Ok (v, if bits = free then a\<lparr>r_bitOffset := 0, r_byteOffset := r_byteOffset a + 1\<rparr>
                      else a\<lparr>r_bitOffset := r_bitOffset a + bits\<rparr>)
          else Panic
        else
          if r_byteOffset a < length (r_Bytes a) then
            let v = drop_bit (r_bitOffset a) (ucast (r_Bytes a ! r_byteOffset a));
                a1 = a\<lparr>r_bitOffset := 0, r_byteOffset := r_byteOffset a + 1\<rparr>
            in bind_outcome (bits_Read (bits - free) a1) (\<lambda>(rest, a2).
                 Ok (v OR push_bit free rest, a2))
          else Panic)"
  by pat_completeness auto
termination
  by (relation "measures [\<lambda>(b, a). b, \<lambda>(b, a). r_bitOffset a]")
     (auto simp: reader_byteBitsFree_def)

text \<open>\<open>View\<close> reads from a copy of the reader, so the reader itself does not move.\<close>

definition bits_View :: "nat \<Rightarrow> (bits_reader, u64) action" where
  "bits_View bits a = bind_outcome (bits_Read bits a) (\<lambda>(v, cp). Ok (v, a))"

definition NonReadBytes :: "bits_reader \<Rightarrow> nat" where
  "NonReadBytes a = length (r_Bytes a) - r_byteOffset a"

definition NonReadBits :: "bits_reader \<Rightarrow> nat" where
  "NonReadBits a = NonReadBytes a * 8 - r_bitOffset a"

declare bits_Write.simps [simp del] bits_Read.simps [simp del]

subsection \<open>The writer is a bit queue\<close>

definition bit_pad :: "nat \<Rightarrow> bool list" where
  "bit_pad n = replicate ((8 - n mod 8) mod 8) False"

definition wrepr :: "bits_writer \<Rightarrow> bool list \<Rightarrow> bool" where
  "wrepr a bs \<longleftrightarrow> w_bitOffset a = length bs mod 8 \<and>
     bytes_bits (w_Bytes a) = bs @ bit_pad (length bs)"

lemma wrepr_unique: "wrepr a bs \<Longrightarrow> wrepr b bs \<Longrightarrow> a = b"
  by (cases a; cases b) (auto simp: wrepr_def bytes_bits_inject [symmetric])

lemma wrepr_new [simp]: "wrepr (bits_NewWriter []) []"
  by (simp add: wrepr_def bits_NewWriter_def bit_pad_def)

lemma byte_bits_0: "byte_bits 0 = replicate 8 False"
  by (rule nth_equalityI) auto

text \<open>The last byte of a writer holds the bits written since the last byte boundary.\<close>

definition open_byte :: "bits_writer \<Rightarrow> byte list \<Rightarrow> byte \<Rightarrow> bool list \<Rightarrow> bool" where
  "open_byte a init b cur \<longleftrightarrow> w_Bytes a = init @ [b] \<and> length cur = w_bitOffset a \<and>
     length cur < 8 \<and> byte_bits b = cur @ replicate (8 - length cur) False"

lemma wrepr_open:
  assumes "wrepr a bs" and "w_bitOffset a \<noteq> 0"
  obtains init b cur where "open_byte a init b cur" and "bs = bytes_bits init @ cur"
proof -
  let ?k = "w_bitOffset a"
  from assms have k: "?k = length bs mod 8" and k8: "?k < 8"
    and all: "bytes_bits (w_Bytes a) = bs @ replicate (8 - ?k) False"
    by (auto simp: wrepr_def bit_pad_def)
  from all k8 have "w_Bytes a \<noteq> []" by auto
  then obtain init b where ib: "w_Bytes a = init @ [b]"
    by (meson rev_exhaust)
  define cur where "cur = drop (8 * length init) bs"
  from arg_cong [OF all, of length] ib k8
  have len: "length bs = 8 * length init + ?k" by simp
  have bs: "bs = take (8 * length init) bs @ cur" by (simp add: cur_def)
  from all ib bs have "bytes_bits init @ byte_bits b =
      take (8 * length init) bs @ (cur @ replicate (8 - ?k) False)"
    by (metis append.assoc append_Nil2 bytes_bits_Cons bytes_bits_Nil bytes_bits_append)
  moreover have "length (bytes_bits init) = length (take (8 * length init) bs)"
    using len by simp
  ultimately have "bytes_bits init = take (8 * length init) bs"
    and bb: "byte_bits b = cur @ replicate (8 - ?k) False"
    by (auto simp: append_eq_append_conv)
  moreover have "length cur = ?k" using len by (simp add: cur_def)
  ultimately show thesis
    using that [of init b cur] ib k8 bs by (simp add: open_byte_def)
qed

lemma wrepr_boundary:
  assumes "wrepr a bs" and "w_bitOffset a = 0"
  shows "open_byte (a\<lparr>w_Bytes := w_Bytes a @ [0]\<rparr>) (w_Bytes a) 0 []"
    and "bs = bytes_bits (w_Bytes a)"
  using assms by (auto simp: wrepr_def open_byte_def byte_bits_0 bit_pad_def)

lemma wrepr_close:
  assumes "byte_bits b = cur @ replicate (8 - length cur) False" and "0 < length cur"
    and "w_Bytes a = init @ [b]" and "w_bitOffset a = length cur mod 8"
  shows "wrepr a (bytes_bits init @ cur)"
proof -
  from assms(1) have "length cur \<le> 8" by (metis length_byte_bits le_add1 length_append)
  then consider "length cur = 8" | "length cur < 8" by linarith
  then show ?thesis
    using assms by cases (simp_all add: wrepr_def bit_pad_def)
qed

lemma or_into_byte:
  assumes "byte_bits b = cur @ replicate (8 - length cur) False" and "length cur < 8"
  shows "byte_bits (b OR ucast (push_bit (length cur) (v :: u64))) = cur @ num_bits (8 - length cur) v"
proof (rule nth_equalityI)
  fix i assume "i < length (byte_bits (b OR ucast (push_bit (length cur) v)))"
  then have i: "i < 8" by simp
  have "bit b i = (cur @ replicate (8 - length cur) False) ! i"
    using assms(1) i by (metis nth_byte_bits)
  then show "byte_bits (b OR ucast (push_bit (length cur) v)) ! i =
      (cur @ num_bits (8 - length cur) v) ! i"
    using i assms(2)
    by (auto simp: nth_append bit_or_iff bit_ucast_iff bit_push_bit_iff)
qed (use assms in simp)

lemma open_byte_writeInto:
  assumes "open_byte a init b cur"
  shows "\<exists>b'. writeIntoLastByte v a = Ok ((), a\<lparr>w_Bytes := init @ [b']\<rparr>) \<and>
     byte_bits b' = cur @ num_bits (8 - length cur) v"
proof -
  from assms have "byte_bits (b OR ucast (push_bit (w_bitOffset a) v)) = cur @ num_bits (8 - length cur) v"
    using or_into_byte [of b cur v] by (simp add: open_byte_def)
  moreover from assms have "writeIntoLastByte v a =
      Ok ((), a\<lparr>w_Bytes := init @ [b OR ucast (push_bit (w_bitOffset a) v)]\<rparr>)"
    by (simp add: open_byte_def writeIntoLastByte_def)
  ultimately show ?thesis by blast
qed

lemma num_bits_pad:
  assumes "\<forall>i\<ge>n. \<not> bit v i" and "n \<le> m"
  shows "num_bits m v = num_bits n v @ replicate (m - n) False"
  by (rule nth_equalityI) (use assms in \<open>auto simp: nth_append\<close>)

lemma bit_255: "bit (0xff :: int) j \<longleftrightarrow> j < 8"
  using bit_mask_iff [of 8 j, where ?'a = int] by (simp add: mask_eq_exp_minus_1)

lemma num_bits_zeroTop: "num_bits (8 - k) (zeroTopByteBits v k) = num_bits (8 - k) v"
  by (rule nth_equalityI) (auto simp: zeroTopByteBits_def bit_and_iff bit_drop_bit_eq bit_255)

lemma bits_Write_repr:
  assumes "wrepr a bs" and "0 < n" and "\<forall>i\<ge>n. \<not> bit v i"
  shows "\<exists>a'. bits_Write n v a = Ok ((), a') \<and> wrepr a' (bs @ num_bits n v)"
  using assms
proof (induction n arbitrary: v a bs rule: less_induct)
  case (less n)
  define a1 where "a1 = (if w_bitOffset a = 0 then a\<lparr>w_Bytes := w_Bytes a @ [0]\<rparr> else a)"
  obtain init b cur where ob: "open_byte a1 init b cur" and bs: "bs = bytes_bits init @ cur"
    using less.prems(1) wrepr_boundary [of a bs] wrepr_open [of a bs]
    by (metis a1_def append_Nil2)
  let ?k = "length cur"
  from ob have k: "w_bitOffset a1 = ?k" "?k < 8" by (auto simp: open_byte_def)
  show ?case
  proof (cases "n \<le> 8 - ?k")
    case True
    obtain b' where w: "writeIntoLastByte v a1 = Ok ((), a1\<lparr>w_Bytes := init @ [b']\<rparr>)"
      and b': "byte_bits b' = cur @ num_bits (8 - ?k) v"
      using open_byte_writeInto [OF ob] by blast
    from b' num_bits_pad [OF less.prems(3) True]
    have b'': "byte_bits b' = (cur @ num_bits n v) @ replicate (8 - length (cur @ num_bits n v)) False"
      by simp
    define a' where "a' = a1\<lparr>w_Bytes := init @ [b'], w_bitOffset := (?k + n) mod 8\<rparr>"
    have "bits_Write n v a = Ok ((), a')"
      using k True w unfolding a'_def
      by (subst bits_Write.simps) (auto simp: a1_def [symmetric] Let_def writer_byteBitsFree_def)
    moreover have "wrepr a' (bytes_bits init @ (cur @ num_bits n v))"
      using b'' less.prems(2) by (intro wrepr_close) (auto simp: a'_def)
    ultimately show ?thesis using bs by auto
  next
    case False
    let ?f = "8 - ?k"
    obtain b' where w: "writeIntoLastByte (zeroTopByteBits v ?k) a1 = Ok ((), a1\<lparr>w_Bytes := init @ [b']\<rparr>)"
      and b': "byte_bits b' = cur @ num_bits ?f v"
      using open_byte_writeInto [OF ob, of "zeroTopByteBits v ?k"] num_bits_zeroTop [of ?k v] by auto
    define a2 where "a2 = a1\<lparr>w_Bytes := init @ [b'], w_bitOffset := 0\<rparr>"
    have r2: "wrepr a2 (bytes_bits init @ (cur @ num_bits ?f v))"
      using b' k by (intro wrepr_close) (auto simp: a2_def)
    have "\<exists>a'. bits_Write (n - ?f) (drop_bit ?f v) a2 = Ok ((), a') \<and>
        wrepr a' ((bytes_bits init @ (cur @ num_bits ?f v)) @ num_bits (n - ?f) (drop_bit ?f v))"
      using False k less.prems(3)
      by (intro less.IH r2) (auto simp: bit_drop_bit_eq)
    moreover have "bits_Write n v a = bits_Write (n - ?f) (drop_bit ?f v) a2"
      using k False w unfolding a2_def
      by (subst bits_Write.simps) (simp add: a1_def [symmetric] Let_def writer_byteBitsFree_def)
    moreover have "num_bits n v = num_bits ?f v @ num_bits (n - ?f) (drop_bit ?f v)"
      using num_bits_split [of ?f "n - ?f" v] False by simp
    ultimately show ?thesis using bs by simp
  qed
qed

subsection \<open>The reader is a position in the queue\<close>

definition bit_pos :: "bits_reader \<Rightarrow> nat" where
  "bit_pos a = 8 * r_byteOffset a + r_bitOffset a"

definition rwf :: "bits_reader \<Rightarrow> bool" where
  "rwf a \<longleftrightarrow> r_bitOffset a < 8 \<and> bit_pos a \<le> 8 * length (r_Bytes a)"

definition rbits :: "bits_reader \<Rightarrow> bool list" where
  "rbits a = drop (bit_pos a) (bytes_bits (r_Bytes a))"

definition skip_bits :: "nat \<Rightarrow> bits_reader \<Rightarrow> bits_reader" where
  "skip_bits n a = a\<lparr>r_byteOffset := (bit_pos a + n) div 8, r_bitOffset := (bit_pos a + n) mod 8\<rparr>"

lemma bit_pos_skip [simp]: "bit_pos (skip_bits n a) = bit_pos a + n"
  by (simp add: bit_pos_def skip_bits_def)

lemma r_Bytes_skip [simp]: "r_Bytes (skip_bits n a) = r_Bytes a"
  by (simp add: skip_bits_def)

lemma skip_bits_0: "r_bitOffset a < 8 \<Longrightarrow> skip_bits 0 a = a"
  by (simp add: skip_bits_def bit_pos_def)

lemma skip_bits_add: "skip_bits m (skip_bits n a) = skip_bits (n + m) a"
  by (simp add: skip_bits_def bit_pos_def) (simp add: algebra_simps)

lemma rwf_skip: "rwf a \<Longrightarrow> n \<le> length (rbits a) \<Longrightarrow> rwf (skip_bits n a)"
  unfolding rwf_def bit_pos_skip r_Bytes_skip by (auto simp: rbits_def skip_bits_def)

lemma rbits_skip [simp]: "rbits (skip_bits n a) = drop n (rbits a)"
  by (simp add: rbits_def add.commute)

lemma length_rbits: "length (rbits a) = 8 * length (r_Bytes a) - bit_pos a"
  by (simp add: rbits_def)

lemma NonReadBits_eq: "rwf a \<Longrightarrow> NonReadBits a = length (rbits a)"
  by (auto simp: NonReadBits_def NonReadBytes_def length_rbits bit_pos_def rwf_def)

lemma nth_bytes_bits:
  "i < 8 * length bs \<Longrightarrow> bytes_bits bs ! i = bit (bs ! (i div 8)) (i mod 8)"
proof (induction bs arbitrary: i)
  case (Cons b bs)
  show ?case
  proof (cases "i < 8")
    case False
    with Cons show ?thesis
      by (simp add: nth_append le_div_geq le_mod_geq)
  qed (simp add: nth_append)
qed simp

lemma nth_rbits:
  "bit_pos a + i < 8 * length (r_Bytes a) \<Longrightarrow> r_bitOffset a + i < 8 \<Longrightarrow>
   rbits a ! i = bit (r_Bytes a ! r_byteOffset a) (r_bitOffset a + i)"
  by (simp add: rbits_def nth_bytes_bits bit_pos_def add.assoc)

lemma take_rbits_eq:
  assumes "rwf a" and "r_bitOffset a + n \<le> 8" and "n \<le> length (rbits a)"
  shows "bits_num (take n (rbits a)) =
    take_bit n (drop_bit (r_bitOffset a) (ucast (r_Bytes a ! r_byteOffset a)))"
proof (rule bit_word_eqI)
  fix i
  have "rbits a ! i = bit (r_Bytes a ! r_byteOffset a) (r_bitOffset a + i)" if "i < n"
    using assms that by (intro nth_rbits) (auto simp: length_rbits)
  then show "bit (bits_num (take n (rbits a))) i =
      bit (take_bit n (drop_bit (r_bitOffset a) (ucast (r_Bytes a ! r_byteOffset a) :: u64))) i"
    using assms by (auto simp: bit_bits_num bit_take_bit_iff bit_drop_bit_eq bit_ucast_iff)
qed

lemma zeroTop_drop:
  assumes "k + n \<le> 8"
  shows "drop_bit k (zeroTopByteBits (ucast (b :: byte)) (8 - (k + n))) = take_bit n (drop_bit k (ucast b :: u64))"
  by (rule bit_word_eqI)
    (use assms in \<open>auto simp: zeroTopByteBits_def bit_and_iff bit_drop_bit_eq bit_take_bit_iff
       bit_ucast_iff bit_255\<close>)

lemma bits_Read_eq:
  assumes "rwf a"
  shows "bits_Read n a = (if n \<le> length (rbits a)
    then Ok (bits_num (take n (rbits a)), skip_bits n a) else Panic)"
  using assms
proof (induction n arbitrary: a rule: less_induct)
  case (less n)
  let ?k = "r_bitOffset a" and ?f = "8 - r_bitOffset a"
  from less.prems have k: "?k < 8" and pos: "bit_pos a \<le> 8 * length (r_Bytes a)"
    by (auto simp: rwf_def)
  consider (zero) "n = 0" | (eof) "n \<noteq> 0" "\<not> r_byteOffset a < length (r_Bytes a)"
    | (one) "n \<noteq> 0" "n \<le> ?f" "r_byteOffset a < length (r_Bytes a)"
    | (more) "\<not> n \<le> ?f" "r_byteOffset a < length (r_Bytes a)" by fastforce
  then show ?case
  proof cases
    case zero
    with k show ?thesis
      by (subst bits_Read.simps) (simp add: skip_bits_0 bits_num_def)
  next
    case eof
    with pos k show ?thesis
      by (subst bits_Read.simps) (auto simp: Let_def length_rbits bit_pos_def)
  next
    case one
    then have len: "n \<le> length (rbits a)" and kn: "?k + n \<le> 8"
      using k by (auto simp: length_rbits bit_pos_def)
    have "skip_bits n a = (if n = ?f then a\<lparr>r_bitOffset := 0, r_byteOffset := r_byteOffset a + 1\<rparr>
        else a\<lparr>r_bitOffset := ?k + n\<rparr>)"
      using one k by (auto simp: skip_bits_def bit_pos_def add.assoc)
    then show ?thesis
      using one len take_rbits_eq [OF less.prems kn len] zeroTop_drop [OF kn]
      by (subst bits_Read.simps) (simp add: Let_def reader_byteBitsFree_def)
  next
    case more
    define a1 where "a1 = a\<lparr>r_bitOffset := 0, r_byteOffset := r_byteOffset a + 1\<rparr>"
    have a1: "a1 = skip_bits ?f a"
      using k by (simp add: a1_def skip_bits_def bit_pos_def)
    have f: "?f \<le> length (rbits a)" using more k by (simp add: length_rbits bit_pos_def)
    have IH: "bits_Read (n - ?f) a1 = (if n - ?f \<le> length (rbits a1)
        then Ok (bits_num (take (n - ?f) (rbits a1)), skip_bits (n - ?f) a1) else Panic)"
      using more k f a1 by (intro less.IH) (auto intro: rwf_skip less.prems)
    have v: "drop_bit ?k (ucast (r_Bytes a ! r_byteOffset a)) = bits_num (take ?f (rbits a))"
      using take_rbits_eq [OF less.prems _ f] k
      by (simp, intro bit_word_eqI) (auto simp: bit_take_bit_iff bit_drop_bit_eq bit_ucast_iff dest: bit_imp_le_length)
    have step: "bits_Read n a = bind_outcome (bits_Read (n - ?f) a1)
        (\<lambda>(rest, a2). Ok (bits_num (take ?f (rbits a)) OR push_bit ?f rest, a2))"
      using more v by (subst bits_Read.simps) (simp add: Let_def reader_byteBitsFree_def a1_def)
    have "bits_num (take ?f (rbits a)) OR push_bit ?f (bits_num (take (n - ?f) (rbits a1)))
        = bits_num (take n (rbits a))" if "n \<le> length (rbits a)"
      using that more a1 by (simp add: bits_num_split)
    with step IH more a1 f show ?thesis
      by (auto simp: skip_bits_add)
  qed
qed

subsection \<open>Sequences of fields\<close>

primrec bits_ReadAll :: "nat list \<Rightarrow> (bits_reader, u64 list) action" where
  "bits_ReadAll [] = ret []"
| "bits_ReadAll (n # ns) = andThen (bits_Read n) (\<lambda>v. andThen (bits_ReadAll ns) (\<lambda>vs. ret (v # vs)))"

definition field_ok :: "nat \<times> u64 \<Rightarrow> bool" where
  "field_ok f \<longleftrightarrow> 0 < fst f \<and> fst f \<le> 64 \<and> unat (snd f) < 2 ^ fst f"

definition field_bits :: "(nat \<times> u64) list \<Rightarrow> bool list" where
  "field_bits fs = concat (map (\<lambda>(n, v). num_bits n v) fs)"

lemma write_fields:
  "wrepr a bs \<Longrightarrow> \<forall>f \<in> set fs. field_ok f \<Longrightarrow>
    \<exists>a'. seqs (map (\<lambda>(n, v). bits_Write n v) fs) a = Ok ((), a') \<and> wrepr a' (bs @ field_bits fs)"
proof (induction fs arbitrary: a bs)
  case Nil
  then show ?case by (simp add: seqs.simps ret_def field_bits_def)
next
  case (Cons f fs)
  obtain n v where f: "f = (n, v)" by (cases f)
  with Cons.prems have ok: "0 < n" "unat v < 2 ^ n" by (auto simp: field_ok_def)
  from ok(2) have "\<forall>i\<ge>n. \<not> bit v i" using take_bit_of_small by (metis bit_take_bit_iff not_less)
  with Cons.prems(1) ok(1) obtain a1 where a1: "bits_Write n v a = Ok ((), a1)" "wrepr a1 (bs @ num_bits n v)"
    using bits_Write_repr by blast
  with Cons.IH [OF a1(2)] Cons.prems(2) f show ?case
    by (auto simp: seqs.simps andThen_apply_Ok field_bits_def)
qed

lemma read_fields:
  "rwf r \<Longrightarrow> rbits r = field_bits fs @ rest \<Longrightarrow> \<forall>f \<in> set fs. field_ok f \<Longrightarrow>
    \<exists>r'. bits_ReadAll (map fst fs) r = Ok (map snd fs, r')"
proof (induction fs arbitrary: r)
  case Nil
  then show ?case by (simp add: ret_def)
next
  case (Cons f fs)
  obtain n v where f: "f = (n, v)" by (cases f)
  with Cons.prems have ok: "n \<le> 64" "unat v < 2 ^ n" by (auto simp: field_ok_def)
  from f Cons.prems(2) have bits: "rbits r = num_bits n v @ field_bits fs @ rest" by (simp add: field_bits_def)
  then have rd: "bits_Read n r = Ok (v, skip_bits n r)"
    using bits_Read_eq [OF Cons.prems(1)] ok by (simp add: bits_num_num_bits take_bit_of_small)
  have "n \<le> length (rbits r)" using bits by simp
  with Cons.prems(1) have "rwf (skip_bits n r)" "rbits (skip_bits n r) = drop n (rbits r)"
    by (auto simp: rwf_def rbits_def skip_bits_def bit_pos_def add.commute)
  with Cons.IH [of "skip_bits n r"] Cons.prems(3) bits f rd show ?case
    by (fastforce simp: andThen_apply_Ok ret_def)
qed

text \<open>
  Property C5.  Numbers that fit into the widths they are written with come back: writing any
  sequence of fields into a fresh bit array and reading fields of the same widths from the bytes
  returns the numbers that were written, in order.
\<close>

theorem bits_fields_round_trip:
  assumes "list_all field_ok fs"
  shows "\<exists>w r. seqs (map (\<lambda>(n, v). bits_Write n v) fs) (bits_NewWriter []) = Ok ((), w) \<and>
    bits_ReadAll (map fst fs) (bits_NewReader (w_Bytes w)) = Ok (map snd fs, r)"
proof -
  have ok: "\<forall>f \<in> set fs. field_ok f" using assms by (simp add: list_all_iff)
  obtain w where w: "seqs (map (\<lambda>(n, v). bits_Write n v) fs) (bits_NewWriter []) = Ok ((), w)"
    "wrepr w ([] @ field_bits fs)" using write_fields [OF wrepr_new ok] by blast
  have "rwf (bits_NewReader (w_Bytes w))" "rbits (bits_NewReader (w_Bytes w)) = field_bits fs @ bit_pad (length (field_bits fs))"
    using w(2) by (simp_all add: rwf_def rbits_def bit_pos_def bits_NewReader_def wrepr_def)
  with read_fields [OF _ _ ok] w(1) show ?thesis by blast
qed

theorem bits_fields_round_trip_witness:
  "list_all field_ok [(3, 5), (6, 33), (1, 1)] \<and>
   (\<exists>w r. seqs (map (\<lambda>(n, v). bits_Write n v) [(3, 5), (6, 33), (1, 1)]) (bits_NewWriter []) = Ok ((), w) \<and>
     bits_ReadAll (map fst [(3, 5 :: u64), (6, 33), (1, 1)]) (bits_NewReader (w_Bytes w)) = Ok (map snd [(3 :: nat, 5), (6, 33), (1, 1)], r))"
proof -
  have "list_all field_ok [(3, 5), (6, 33), (1, 1)]" by (simp add: field_ok_def)
  then show ?thesis using bits_fields_round_trip by blast
qed

text \<open>
  Property C6.  Reading is total and never reads past the array: a read of \<open>n\<close> bits succeeds
  exactly when \<open>n\<close> bits are left, returns their number and moves the reader by \<open>n\<close>, and panics
  otherwise.
\<close>

theorem bits_Read_exact:
  assumes "rwf a"
  shows "bits_Read n a = (if n \<le> NonReadBits a then Ok (bits_num (take n (rbits a)), skip_bits n a) else Panic)"
  using assms by (simp add: bits_Read_eq NonReadBits_eq)

theorem bits_Read_exact_witness:
  "rwf \<lparr>r_Bytes = [0xA5, 0x0F], r_byteOffset = 0, r_bitOffset = 6\<rparr> \<and>
   bits_Read 4 \<lparr>r_Bytes = [0xA5, 0x0F], r_byteOffset = 0, r_bitOffset = 6\<rparr>
     = Ok (14, \<lparr>r_Bytes = [0xA5, 0x0F], r_byteOffset = 1, r_bitOffset = 2\<rparr>) \<and>
   bits_Read 11 \<lparr>r_Bytes = [0xA5, 0x0F], r_byteOffset = 0, r_bitOffset = 6\<rparr> = Panic"
proof -
  let ?a = "\<lparr>r_Bytes = [0xA5, 0x0F], r_byteOffset = 0, r_bitOffset = 6\<rparr>"
  have "rwf ?a" by (simp add: rwf_def bit_pos_def)
  note * = bits_Read_exact [OF this]
  have "bits_num (take 4 (rbits ?a)) = 14" by code_simp
  then show ?thesis using \<open>rwf ?a\<close> unfolding *
    by (simp add: NonReadBits_def NonReadBytes_def skip_bits_def bit_pos_def)
qed

end
