(* ===== verification/FastBuf.thy ===== *)
theory FastBuf
  imports Sesa_Prelude
begin

text \<open>
  The byte buffers of \<^verbatim>\<open>utils/fast/buffer.go\<close>.  A Go slice expression \<open>buf[lo:hi]\<close> is
  bounded by the capacity of \<open>buf\<close>, not by its length, so the reader carries the bytes that
  lie between the length and the capacity (\<open>fr_spare\<close>): \<open>Read\<close> can run into them,
  \<open>ReadByte\<close> (an index expression) cannot.
\<close>

record fast_reader =
  fr_buf :: "byte list"
  fr_spare :: "byte list"
  fr_offset :: nat

record fast_writer =
  fw_buf :: "byte list"

definition fast_NewReader :: "byte list \<Rightarrow> byte list \<Rightarrow> fast_reader" where
  "fast_NewReader bb spare = \<lparr>fr_buf = bb, fr_spare = spare, fr_offset = 0\<rparr>"

definition fast_NewWriter :: "byte list \<Rightarrow> fast_writer" where
  "fast_NewWriter bb = \<lparr>fw_buf = bb\<rparr>"

definition fast_WriteByte :: "byte \<Rightarrow> fast_writer \<Rightarrow> fast_writer" where
  "fast_WriteByte v b = b\<lparr>fw_buf := fw_buf b @ [v]\<rparr>"

definition fast_Write :: "byte list \<Rightarrow> fast_writer \<Rightarrow> fast_writer" where
  "fast_Write v b = b\<lparr>fw_buf := fw_buf b @ v\<rparr>"

definition fast_Read :: "nat \<Rightarrow> (fast_reader, byte list) action" where
  "fast_Read n b =
     (if fr_offset b + n \<le> length (fr_buf b) + length (fr_spare b)
      then Ok (take n (drop (fr_offset b) (fr_buf b @ fr_spare b)), b\<lparr>fr_offset := fr_offset b + n\<rparr>)
      else Panic)"

definition fast_ReadByte :: "(fast_reader, byte) action" where
  "fast_ReadByte b =
     (if fr_offset b < length (fr_buf b)
      then Ok (fr_buf b ! fr_offset b, b\<lparr>fr_offset := fr_offset b + 1\<rparr>)
      else Panic)"

definition fast_Position :: "fast_reader \<Rightarrow> nat" where
  "fast_Position b = fr_offset b"

definition fast_Empty :: "fast_reader \<Rightarrow> bool" where
  "fast_Empty b \<longleftrightarrow> length (fr_buf b) = fr_offset b"

subsection \<open>The reader is a queue of the remaining bytes\<close>

definition frest :: "fast_reader \<Rightarrow> byte list" where
  "frest b = drop (fr_offset b) (fr_buf b)"

definition fwf :: "fast_reader \<Rightarrow> bool" where
  "fwf b \<longleftrightarrow> fr_offset b \<le> length (fr_buf b)"

lemma fast_Read_in_range:
  assumes "fwf b" and "frest b = ys @ ys'"
  shows "\<exists>b'. fast_Read (length ys) b = Ok (ys, b') \<and> fwf b' \<and> frest b' = ys' \<and>
    fr_buf b' = fr_buf b"
proof -
  let ?b' = "b\<lparr>fr_offset := fr_offset b + length ys\<rparr>"
  from assms have len: "fr_offset b + length ys \<le> length (fr_buf b)"
    unfolding frest_def fwf_def by (metis length_append length_drop le_add1 le_diff_conv2 add.commute)
  have "frest ?b' = drop (length ys) (frest b)"
    by (simp add: frest_def add.commute)
  with assms(2) have "frest ?b' = ys'" by simp
  moreover have "take (length ys) (drop (fr_offset b) (fr_buf b @ fr_spare b)) = ys"
    using assms(2) len by (simp add: frest_def)
  ultimately show ?thesis
    using len by (auto simp: fast_Read_def fwf_def)
qed

lemma fast_ReadByte_in_range:
  assumes "fwf b" and "frest b = y # ys'"
  shows "\<exists>b'. fast_ReadByte b = Ok (y, b') \<and> fwf b' \<and> frest b' = ys' \<and> fr_buf b' = fr_buf b \<and>
    fr_offset b' = fr_offset b + 1"
proof -
  from assms(2) have len: "fr_offset b < length (fr_buf b)"
    by (metis frest_def drop_eq_Nil list.distinct(1) not_le)
  with assms(2) have "fr_buf b ! fr_offset b = y" and "drop (Suc (fr_offset b)) (fr_buf b) = ys'"
    by (auto simp: frest_def Cons_nth_drop_Suc [symmetric])
  with len show ?thesis
    by (auto simp: fast_ReadByte_def frest_def fwf_def)
qed

end
