(* ===== verification/Cser.thy ===== *)
theory Cser
  imports BitArray FastBuf
begin

unbundle bit_operations_syntax

text \<open>
  The compact serialization of \<^verbatim>\<open>utils/cser\<close>: a writer and a reader over one bit array (sizes,
  flags) and one byte buffer (payload), and the packing of the two into one byte string.
  Method \<open>M\<close> of Go's \<open>Writer\<close> is \<open>Writer_M\<close> here and of \<open>Reader\<close> it is \<open>Reader_M\<close>; a Go
  \<open>panic\<close> is \<^const>\<open>Panic\<close>, which \<open>UnmarshalBinaryAdapter\<close> recovers from.
\<close>

record cser_writer =
  BitsW :: bits_writer
  BytesW :: fast_writer

record cser_reader =
  BitsR :: bits_reader
  BytesR :: fast_reader

definition cser_NewWriter :: cser_writer where
  "cser_NewWriter = \<lparr>BitsW = bits_NewWriter [], BytesW = fast_NewWriter []\<rparr>"

text \<open>An operation on one half of the pair, as an operation on the pair.\<close>

definition on_BitsW :: "(bits_writer, 'a) action \<Rightarrow> (cser_writer, 'a) action" where
  "on_BitsW m w = bind_outcome (m (BitsW w)) (\<lambda>(x, b). Ok (x, w\<lparr>BitsW := b\<rparr>))"

definition on_BytesW :: "(fast_writer \<Rightarrow> fast_writer) \<Rightarrow> (cser_writer, unit) action" where
  "on_BytesW f w = Ok ((), w\<lparr>BytesW := f (BytesW w)\<rparr>)"

definition on_BitsR :: "(bits_reader, 'a) action \<Rightarrow> (cser_reader, 'a) action" where
  "on_BitsR m r = bind_outcome (m (BitsR r)) (\<lambda>(x, b). Ok (x, r\<lparr>BitsR := b\<rparr>))"

definition on_BytesR :: "(fast_reader, 'a) action \<Rightarrow> (cser_reader, 'a) action" where
  "on_BytesR m r = bind_outcome (m (BytesR r)) (\<lambda>(x, b). Ok (x, r\<lparr>BytesR := b\<rparr>))"

subsection \<open>Numbers\<close>

function writeUint64Compact :: "u64 \<Rightarrow> fast_writer \<Rightarrow> fast_writer" where
  "writeUint64Compact v bytesW =
     (let chunk = v AND 0b01111111;
          v' = drop_bit 7 v;
          chunk' = (if v' = 0 then chunk OR 0b10000000 else chunk);
          bytesW' = fast_WriteByte (ucast chunk') bytesW
      in if v' = 0 then bytesW' else writeUint64Compact v' bytesW')"
  by pat_completeness auto
termination
  by (relation "measure (\<lambda>(v, b). unat v)") (auto intro!: unat_drop_bit_less)

function readUint64Compact_loop :: "nat \<Rightarrow> u64 \<Rightarrow> (fast_reader, u64) action" where
  "readUint64Compact_loop i v bytesR =
     bind_outcome (fast_ReadByte bytesR) (\<lambda>(b, bytesR').
       let chunk = ucast b :: u64;
           stop = (chunk AND 0b10000000 \<noteq> 0);
           word = chunk AND 0b01111111;
           v' = v OR push_bit (i * 7) word
       in if i > 0 \<and> stop \<and> word = 0 then Panic
          else if stop then Ok (v', bytesR')
          else readUint64Compact_loop (i + 1) v' bytesR')"
  by pat_completeness auto
termination
  by (relation "measure (\<lambda>(i, v, b). length (fr_buf b) - fr_offset b)")
     (auto simp: fast_ReadByte_def split: if_splits)

definition readUint64Compact :: "(fast_reader, u64) action" where
  "readUint64Compact = readUint64Compact_loop 0 0"

function writeUint64BitCompact_loop :: "nat \<Rightarrow> u64 \<Rightarrow> nat \<Rightarrow> fast_writer \<Rightarrow> nat \<times> fast_writer" where
  "writeUint64BitCompact_loop sz v minSize bytesW =
     (if sz < minSize \<or> v \<noteq> 0
      then writeUint64BitCompact_loop (sz + 1) (drop_bit 8 v) minSize (fast_WriteByte (ucast v) bytesW)
      else (sz, bytesW))"
  by pat_completeness auto
termination
proof (relation "measure (\<lambda>(sz, v, minSize, b). (minSize - sz) + unat v)", goal_cases)
  case (2 sz v minSize bytesW)
  then show ?case
    using unat_drop_bit_less [of v 8] by (cases "v = 0") auto
qed simp

definition writeUint64BitCompact :: "u64 \<Rightarrow> nat \<Rightarrow> fast_writer \<Rightarrow> nat \<times> fast_writer" where
  "writeUint64BitCompact v minSize bytesW = writeUint64BitCompact_loop 0 v minSize bytesW"

text \<open>The loop over the bytes read: the number so far and the last byte seen.\<close>

fun readUint64BitCompact_loop :: "nat \<Rightarrow> byte list \<Rightarrow> u64 \<Rightarrow> byte \<Rightarrow> u64 \<times> byte" where
  "readUint64BitCompact_loop i [] v lastb = (v, lastb)"
| "readUint64BitCompact_loop i (b # bs) v lastb =
     readUint64BitCompact_loop (i + 1) bs (v OR push_bit (8 * i) (ucast b)) b"

definition readUint64BitCompact :: "nat \<Rightarrow> (fast_reader, u64) action" where
  "readUint64BitCompact sz bytesR =
     bind_outcome (fast_Read sz bytesR) (\<lambda>(buf, bytesR').
       let (v, lastb) = readUint64BitCompact_loop 0 buf 0 0
       in if sz > 1 \<and> lastb = 0 then Panic else Ok (v, bytesR'))"

definition Reader_U8 :: "(cser_reader, byte) action" where
  "Reader_U8 = on_BytesR fast_ReadByte"

definition Writer_U8 :: "byte \<Rightarrow> (cser_writer, unit) action" where
  "Writer_U8 v = on_BytesW (fast_WriteByte v)"

definition readU64_bits :: "nat \<Rightarrow> nat \<Rightarrow> (cser_reader, u64) action" where
  "readU64_bits minSize bitsForSize =
     andThen (on_BitsR (bits_Read bitsForSize)) (\<lambda>sz.
       on_BytesR (readUint64BitCompact (unat (sz + word_of_nat minSize))))"

definition writeU64_bits :: "nat \<Rightarrow> nat \<Rightarrow> u64 \<Rightarrow> (cser_writer, unit) action" where
  "writeU64_bits minSize bitsForSize v w =
     (let (sz, b) = writeUint64BitCompact v minSize (BytesW w)
      in on_BitsW (bits_Write bitsForSize (word_of_nat (sz - minSize))) (w\<lparr>BytesW := b\<rparr>))"

definition Reader_U16 :: "(cser_reader, u16) action" where
  "Reader_U16 = andThen (readU64_bits 1 1) (\<lambda>v64. ret (ucast v64))"

definition Writer_U16 :: "u16 \<Rightarrow> (cser_writer, unit) action" where
  "Writer_U16 v = writeU64_bits 1 1 (ucast v)"

definition Reader_U32 :: "(cser_reader, u32) action" where
  "Reader_U32 = andThen (readU64_bits 1 2) (\<lambda>v64. ret (ucast v64))"

definition Writer_U32 :: "u32 \<Rightarrow> (cser_writer, unit) action" where
  "Writer_U32 v = writeU64_bits 1 2 (ucast v)"

definition Reader_U64 :: "(cser_reader, u64) action" where
  "Reader_U64 = readU64_bits 1 3"

definition Writer_U64 :: "u64 \<Rightarrow> (cser_writer, unit) action" where
  "Writer_U64 v = writeU64_bits 1 3 v"

definition Reader_VarUint :: "(cser_reader, u64) action" where
  "Reader_VarUint = readU64_bits 1 3"

definition Writer_VarUint :: "u64 \<Rightarrow> (cser_writer, unit) action" where
  "Writer_VarUint v = writeU64_bits 1 3 v"

definition Reader_Bool :: "(cser_reader, bool) action" where
  "Reader_Bool = andThen (on_BitsR (bits_Read 1)) (\<lambda>u8. ret (u8 \<noteq> 0))"

definition Writer_Bool :: "bool \<Rightarrow> (cser_writer, unit) action" where
  "Writer_Bool v = (let u8 = (if v then 1 else 0) in on_BitsW (bits_Write 1 u8))"

text \<open>An \<open>int64\<close> is the word that represents it in two's complement.\<close>

definition Reader_I64 :: "(cser_reader, u64) action" where
  "Reader_I64 =
     andThen Reader_Bool (\<lambda>neg. andThen Reader_U64 (\<lambda>abs.
       if neg \<and> abs = 0 then panic
       else if neg then ret (- abs) else ret abs))"

definition Writer_I64 :: "u64 \<Rightarrow> (cser_writer, unit) action" where
  "Writer_I64 v =
     seqs [Writer_Bool (sint v < 0), if sint v < 0 then Writer_U64 (- v) else Writer_U64 v]"

definition Reader_U56 :: "(cser_reader, u64) action" where
  "Reader_U56 = readU64_bits 0 3"

definition Writer_U56 :: "u64 \<Rightarrow> (cser_writer, unit) action" where
  "Writer_U56 v = (if v > 2 ^ (8 * 7) - 1 then panic else writeU64_bits 0 3 v)"

subsection \<open>Byte strings and big integers\<close>

definition Reader_FixedBytes :: "nat \<Rightarrow> (cser_reader, byte list) action" where
  "Reader_FixedBytes n = on_BytesR (fast_Read n)"

definition Writer_FixedBytes :: "byte list \<Rightarrow> (cser_writer, unit) action" where
  "Writer_FixedBytes v = on_BytesW (fast_Write v)"

definition Reader_SliceBytes :: "nat \<Rightarrow> (cser_reader, byte list) action" where
  "Reader_SliceBytes maxLen =
     andThen Reader_U56 (\<lambda>sz.
       if unat sz > maxLen then panic else Reader_FixedBytes (unat sz))"

definition Writer_SliceBytes :: "byte list \<Rightarrow> (cser_writer, unit) action" where
  "Writer_SliceBytes v = seqs [Writer_U56 (word_of_nat (length v)), Writer_FixedBytes v]"

definition PaddedBytes :: "byte list \<Rightarrow> nat \<Rightarrow> byte list" where
  "PaddedBytes b n = (if length b \<ge> n then b else replicate (n - length b) 0 @ b)"

definition Writer_BigInt :: "int \<Rightarrow> (cser_writer, unit) action" where
  "Writer_BigInt v =
     (let bigBytes = (if sgn v \<noteq> 0 then be_bytes (nat \<bar>v\<bar>) else [])
      in Writer_SliceBytes bigBytes)"

definition Reader_BigInt :: "(cser_reader, int) action" where
  "Reader_BigInt =
     andThen (Reader_SliceBytes 512) (\<lambda>buf.
       if length buf = 0 then ret 0 else ret (int (be_num buf)))"

subsection \<open>Packing into one byte string\<close>

definition reversed :: "byte list \<Rightarrow> byte list" where
  "reversed b = rev b"

definition tail :: "byte list \<Rightarrow> nat \<Rightarrow> byte list" where
  "tail b cap = (if length b > cap then drop (length b - cap) b else b)"

definition binaryFromCSER :: "byte list \<Rightarrow> byte list \<Rightarrow> byte list" where
  "binaryFromCSER bbits bbytes =
     (let bodyBytes = fast_Write bbits (fast_NewWriter bbytes);
          sizeWriter = writeUint64Compact (word_of_nat (length bbits)) (fast_NewWriter [])
      in fw_buf (fast_Write (reversed (fw_buf sizeWriter)) bodyBytes))"

text \<open>
  The result also names the bytes behind the end of the body inside the array of \<open>raw\<close>, which
  the capacity of the body slice reaches: \<open>raw_spare\<close> are those behind \<open>raw\<close> itself.
\<close>

definition binaryToCSER :: "byte list \<Rightarrow> byte list \<Rightarrow> (byte list \<times> byte list \<times> byte list) outcome" where
  "binaryToCSER raw raw_spare =
     (let bitsSizeBuf = reversed (tail raw 9);
          bitsSizeReader = fast_NewReader bitsSizeBuf []
      in bind_outcome (readUint64Compact bitsSizeReader) (\<lambda>(bitsSize, bitsSizeReader').
           let raw1 = take (length raw - fast_Position bitsSizeReader') raw
           in if (word_of_nat (length raw1) :: u64) < bitsSize then Fail ErrMalformedEncoding
              else let k = unat (word_of_nat (length raw1) - bitsSize)
                   in Ok (drop k raw1, take k raw1, drop k raw @ raw_spare)))"

definition MarshalBinaryAdapter :: "(cser_writer, unit) action \<Rightarrow> byte list outcome" where
  "MarshalBinaryAdapter marshalCser =
     bind_outcome (marshalCser cser_NewWriter) (\<lambda>(_, w).
       Ok (binaryFromCSER (w_Bytes (BitsW w)) (fw_buf (BytesW w))))"

fun recover :: "error \<Rightarrow> 'a outcome \<Rightarrow> 'a outcome" where
  "recover e Panic = Fail e"
| "recover e x = x"

definition UnmarshalBinaryAdapter ::
    "byte list \<Rightarrow> byte list \<Rightarrow> (cser_reader, 'a) action \<Rightarrow> 'a outcome" where
  "UnmarshalBinaryAdapter raw raw_spare unmarshalCser = recover ErrMalformedEncoding
     (bind_outcome (binaryToCSER raw raw_spare) (\<lambda>(bbits, bbytes, spare).
        let bodyReader = \<lparr>BitsR = bits_NewReader bbits, BytesR = fast_NewReader bbytes spare\<rparr>
        in bind_outcome (unmarshalCser bodyReader) (\<lambda>(v, bodyReader').
             if NonReadBytes (BitsR bodyReader') > 1 then Fail ErrNonCanonicalEncoding
             else bind_outcome (bits_Read (NonReadBits (BitsR bodyReader')) (BitsR bodyReader')) (\<lambda>(t, _).
               if t \<noteq> 0 then Fail ErrNonCanonicalEncoding
               else if \<not> fast_Empty (BytesR bodyReader') then Fail ErrNonCanonicalEncoding
               else Ok v))))"

declare writeUint64Compact.simps [simp del] readUint64Compact_loop.simps [simp del]
  writeUint64BitCompact_loop.simps [simp del]

end
