(* ===== verification/EventHash.thy ===== *)
theory EventHash
  imports MpsRlp DeriveSha Cser
begin

text \<open>
  The hashes of the package \<^verbatim>\<open>native\<close> and what is built on them: the transaction root, the hash
  of misbehaviour proofs and votes, the payload hash, locators, event identifiers and the signed
  vote envelopes (\<^verbatim>\<open>event.go\<close>, \<^verbatim>\<open>native_llr.go\<close>).

  Functions of other modules are the fields of the record \<open>vassalo\<close>, an argument of the
  definitions that call them: the hash functions, the big-endian index encodings, the way
  \<^verbatim>\<open>dag.MutableBaseEvent\<close> assembles an event identifier, and the hash a trie hasher returns after
  a sequence of updates.
\<close>

section \<open>The functions of other modules\<close>

record vassalo =
  hash_Of :: "byte list list \<Rightarrow> hash"
  sha256 :: "byte list \<Rightarrow> hash"
  u16_Bytes :: "u16 \<Rightarrow> byte list"
  u32_Bytes :: "u32 \<Rightarrow> byte list"
  u64_Bytes :: "u64 \<Rightarrow> byte list"
  event_ID :: "u32 \<Rightarrow> u32 \<Rightarrow> byte list \<Rightarrow> hash"
  id_Epoch :: "hash \<Rightarrow> u32"
  id_Lamport :: "hash \<Rightarrow> u32"
  trie_Hash :: "(byte list \<times> byte list) list \<Rightarrow> hash"

section \<open>Hashes\<close>

definition CalcTxHash :: "vassalo \<Rightarrow> transaction list \<Rightarrow> hash" where
  "CalcTxHash x txs = DeriveSha (trie_Hash x) txs"

definition CalcMisbehaviourProofsHash :: "vassalo \<Rightarrow> MisbehaviourProof list \<Rightarrow> hash outcome" where
  "CalcMisbehaviourProofsHash x mps =
     bind_outcome (written (rlp_Encode (makeSliceWriter writeMisbehaviourProof mps))) (\<lambda>b. Ok (sha256 x b))"

definition LlrEpochVote_Hash :: "vassalo \<Rightarrow> LlrEpochVote \<Rightarrow> hash" where
  "LlrEpochVote_Hash x ers = sha256 x (u32_Bytes x (ev_Epoch ers) @ ev_Vote ers)"

definition LlrBlockVotes_Hash :: "vassalo \<Rightarrow> LlrBlockVotes \<Rightarrow> hash" where
  "LlrBlockVotes_Hash x bvs = sha256 x (u64_Bytes x (bv_Start bvs) @ u32_Bytes x (bv_Epoch bvs)
     @ u32_Bytes x (word_of_nat (length (bv_Votes bvs))) @ concat (bv_Votes bvs))"

definition txs_mps_hash :: "vassalo \<Rightarrow> event_payload \<Rightarrow> hash outcome" where
  "txs_mps_hash x e = bind_outcome (CalcMisbehaviourProofsHash x (e_misbehaviourProofs e)) (\<lambda>m.
     Ok (hash_Of x [CalcTxHash x (e_txs e), m]))"

definition CalcPayloadHash :: "vassalo \<Rightarrow> event_payload \<Rightarrow> hash outcome" where
  "CalcPayloadHash x e =
     (if e_version e = 0 then Ok (CalcTxHash x (e_txs e))
      else bind_outcome (txs_mps_hash x e) (\<lambda>tm.
        Ok (hash_Of x [tm, hash_Of x [LlrEpochVote_Hash x (e_epochVote e),
                                      LlrBlockVotes_Hash x (e_blockVotes e)]])))"

definition LlrSignedBlockVotes_CalcPayloadHash :: "vassalo \<Rightarrow> LlrSignedBlockVotes \<Rightarrow> hash" where
  "LlrSignedBlockVotes_CalcPayloadHash x bvs = hash_Of x [sbv_TxsAndMisbehaviourProofsHash bvs,
     hash_Of x [sbv_EpochVoteHash bvs, LlrBlockVotes_Hash x (sbv_Val bvs)]]"

definition LlrSignedEpochVote_CalcPayloadHash :: "vassalo \<Rightarrow> LlrSignedEpochVote \<Rightarrow> hash" where
  "LlrSignedEpochVote_CalcPayloadHash x ev = hash_Of x [sev_TxsAndMisbehaviourProofsHash ev,
     hash_Of x [LlrEpochVote_Hash x (sev_Val ev), sev_BlockVotesHash ev]]"

text \<open>\<^verbatim>\<open>types.EmptyRootHash\<close>, and the hash of an empty payload of version 1.\<close>

definition EmptyRootHash :: hash where
  "EmptyRootHash = [0x56, 0xe8, 0x1f, 0x17, 0x1b, 0xcc, 0x55, 0xa6, 0xff, 0x83, 0x45, 0xe6, 0x92, 0xc0, 0xf8, 0x6e,
     0x5b, 0x48, 0xe0, 0x1b, 0x99, 0x6c, 0xad, 0xc0, 0x01, 0x62, 0x2f, 0xb5, 0xe3, 0x63, 0xb4, 0x21]"

definition emptyPayloadHash1 :: "vassalo \<Rightarrow> hash outcome" where
  "emptyPayloadHash1 x = CalcPayloadHash x (MutableEventPayload_zero\<lparr>e_version := 1\<rparr>)"

definition EmptyPayloadHash :: "vassalo \<Rightarrow> byte \<Rightarrow> hash outcome" where
  "EmptyPayloadHash x version = (if version = 0 then Ok EmptyRootHash else emptyPayloadHash1 x)"

section \<open>Setters that keep the flags\<close>

definition SetTxs :: "transaction list \<Rightarrow> event_payload \<Rightarrow> event_payload" where
  "SetTxs v e = e\<lparr>e_txs := v, e_anyTxs := length v \<noteq> 0\<rparr>"

definition SetMisbehaviourProofs :: "MisbehaviourProof list \<Rightarrow> event_payload \<Rightarrow> event_payload" where
  "SetMisbehaviourProofs v e = e\<lparr>e_misbehaviourProofs := v, e_anyMisbehaviourProofs := length v \<noteq> 0\<rparr>"

definition SetBlockVotes :: "LlrBlockVotes \<Rightarrow> event_payload \<Rightarrow> event_payload" where
  "SetBlockVotes v e = e\<lparr>e_blockVotes := v, e_anyBlockVotes := length (bv_Votes v) \<noteq> 0\<rparr>"

definition SetEpochVote :: "LlrEpochVote \<Rightarrow> event_payload \<Rightarrow> event_payload" where
  "SetEpochVote v e = e\<lparr>e_epochVote := v, e_anyEpochVote := (ev_Epoch v \<noteq> 0 \<and> ev_Vote v \<noteq> Zero_hash)\<rparr>"

section \<open>Locators\<close>

definition asLocator :: "hash \<Rightarrow> 'a event_data_scheme \<Rightarrow> EventLocator" where
  "asLocator basehash e = \<lparr>lo_BaseHash = basehash, lo_NetForkID = e_netForkID e, lo_Epoch = e_Epoch e,
     lo_Seq = e_Seq e, lo_Lamport = e_Lamport e, lo_Creator = e_Creator e, lo_PayloadHash = e_payloadHash e\<rparr>"

definition HashToSign :: "vassalo \<Rightarrow> EventLocator \<Rightarrow> hash" where
  "HashToSign x l = hash_Of x [lo_BaseHash l, u16_Bytes x (lo_NetForkID l), u32_Bytes x (lo_Epoch l),
     u32_Bytes x (lo_Seq l), u32_Bytes x (lo_Lamport l), u32_Bytes x (lo_Creator l), lo_PayloadHash l]"

text \<open>\<^verbatim>\<open>copy(h[i:j], b)\<close>: as many bytes as both sides have.\<close>

definition copy_range :: "nat \<Rightarrow> nat \<Rightarrow> byte list \<Rightarrow> byte list \<Rightarrow> byte list" where
  "copy_range i j b h = (let n = min (j - i) (length b) in take i h @ take n b @ drop (i + n) h)"

definition EventLocator_ID :: "vassalo \<Rightarrow> EventLocator \<Rightarrow> hash" where
  "EventLocator_ID x l = copy_range 4 8 (u32_Bytes x (lo_Lamport l))
     (copy_range 0 4 (u32_Bytes x (lo_Epoch l)) (HashToSign x l))"

definition calcEventID :: "hash \<Rightarrow> byte list" where "calcEventID h = take 24 h"

definition calcEventHashes :: "vassalo \<Rightarrow> byte list \<Rightarrow> 'a event_data_scheme \<Rightarrow> hash \<times> hash" where
  "calcEventHashes x ser e = (let base = hash_Of x [ser] in
     if e_version e < 1 then (base, base) else (HashToSign x (asLocator base e), base))"

definition build :: "vassalo \<Rightarrow> hash \<Rightarrow> hash \<Rightarrow> nat \<Rightarrow> event_payload \<Rightarrow> built_event" where
  "build x locatorHash baseHash siz e =
     \<lparr>b_event = e, b_id = event_ID x (e_Epoch e) (e_Lamport e) (calcEventID locatorHash),
      b_baseHash = baseHash, b_locatorHash = locatorHash, b_size = siz\<rparr>"

definition Event_HashToSign :: "built_event \<Rightarrow> hash" where
  "Event_HashToSign e = b_locatorHash e"

definition Event_Locator :: "built_event \<Rightarrow> EventLocator" where
  "Event_Locator e = asLocator (b_baseHash e) (b_event e)"

definition AsSignedEventLocator :: "built_event \<Rightarrow> SignedEventLocator" where
  "AsSignedEventLocator e = \<lparr>sl_Locator = Event_Locator e, sl_Sig = e_sig (b_event e)\<rparr>"

definition AsSignedBlockVotes :: "vassalo \<Rightarrow> built_event \<Rightarrow> LlrSignedBlockVotes outcome" where
  "AsSignedBlockVotes x e = bind_outcome (txs_mps_hash x (b_event e)) (\<lambda>tm.
     Ok \<lparr>sbv_Signed = AsSignedEventLocator e, sbv_TxsAndMisbehaviourProofsHash = tm,
         sbv_EpochVoteHash = LlrEpochVote_Hash x (e_epochVote (b_event e)),
         sbv_Val = e_blockVotes (b_event e)\<rparr>)"

definition AsSignedEpochVote :: "vassalo \<Rightarrow> built_event \<Rightarrow> LlrSignedEpochVote outcome" where
  "AsSignedEpochVote x e = bind_outcome (txs_mps_hash x (b_event e)) (\<lambda>tm.
     Ok \<lparr>sev_Signed = AsSignedEventLocator e, sev_TxsAndMisbehaviourProofsHash = tm,
         sev_BlockVotesHash = LlrBlockVotes_Hash x (e_blockVotes (b_event e)),
         sev_Val = e_epochVote (b_event e)\<rparr>)"

section \<open>The vote envelopes carry the payload hash of their event\<close>

lemma AsSignedBlockVotes_hash:
  assumes "e_version (b_event e) \<noteq> 0" and "AsSignedBlockVotes x e = Ok s"
  shows "CalcPayloadHash x (b_event e) = Ok (LlrSignedBlockVotes_CalcPayloadHash x s)"
  using assms by (auto simp: AsSignedBlockVotes_def CalcPayloadHash_def LlrSignedBlockVotes_CalcPayloadHash_def
      bind_outcome_eq_Ok)

lemma AsSignedEpochVote_hash:
  assumes "e_version (b_event e) \<noteq> 0" and "AsSignedEpochVote x e = Ok s"
  shows "CalcPayloadHash x (b_event e) = Ok (LlrSignedEpochVote_CalcPayloadHash x s)"
  using assms by (auto simp: AsSignedEpochVote_def CalcPayloadHash_def LlrSignedEpochVote_CalcPayloadHash_def
      bind_outcome_eq_Ok)

end
