(* ===== verification/Intrinsic.thy ===== *)
theory Intrinsic
  imports Transaction
begin

text \<open>
  The intrinsic gas of a message (\<^verbatim>\<open>evmcore/state_transition.go\<close>): the gas a transaction must provide
  before any of its code runs.  Data is priced with checks against overflow, the access list without.
\<close>

section \<open>Errors of package \<^verbatim>\<open>evmcore\<close>\<close>

datatype evm_error =
    ErrNonceTooLow | ErrNonceTooHigh | ErrGasLimitReached | ErrInsufficientFunds
  | ErrGasUintOverflow | ErrOutOfGas | ErrIntrinsicGas | ErrSenderNoEOA
  | vm_error string

section \<open>Intrinsic gas\<close>

definition TxGas :: u64 where "TxGas = 21000"
definition TxGasContractCreation :: u64 where "TxGasContractCreation = 53000"
definition TxDataZeroGas :: u64 where "TxDataZeroGas = 4"
definition TxDataNonZeroGasEIP2028 :: u64 where "TxDataNonZeroGasEIP2028 = 16"
definition TxAccessListAddressGas :: u64 where "TxAccessListAddressGas = 2400"
definition TxAccessListStorageKeyGas :: u64 where "TxAccessListStorageKeyGas = 1900"

lemmas tx_gas_defs = TxGas_def TxGasContractCreation_def TxDataZeroGas_def TxDataNonZeroGasEIP2028_def
  TxAccessListAddressGas_def TxAccessListStorageKeyGas_def

definition StorageKeys :: "access_tuple list \<Rightarrow> nat" where
  "StorageKeys al = foldl (\<lambda>s t. s + length (at_StorageKeys t)) 0 al"

definition nonzero_bytes :: "byte list \<Rightarrow> u64" where
  "nonzero_bytes d = foldl (\<lambda>nz b. if b \<noteq> 0 then nz + 1 else nz) 0 d"

definition IntrinsicGas :: "byte list \<Rightarrow> access_tuple list \<Rightarrow> bool \<Rightarrow> evm_error + u64" where
  "IntrinsicGas dat accessList isContractCreation =
     (let gas = (if isContractCreation then TxGasContractCreation else TxGas);
          list_gas = (\<lambda>gas. gas + word_of_nat (length accessList) * TxAccessListAddressGas
                            + word_of_nat (StorageKeys accessList) * TxAccessListStorageKeyGas)
      in if length dat > 0 then
           let nz = nonzero_bytes dat in
           if (- 1 - gas) div TxDataNonZeroGasEIP2028 < nz then Inl ErrOutOfGas
           else
             let gas = gas + nz * TxDataNonZeroGasEIP2028;
                 z = word_of_nat (length dat) - nz
             in if (- 1 - gas) div TxDataZeroGas < z then Inl ErrGasUintOverflow
                else Inr (list_gas (gas + z * TxDataZeroGas))
         else Inr (list_gas gas))"

section \<open>The price in unbounded arithmetic\<close>

definition intrinsic_price :: "byte list \<Rightarrow> access_tuple list \<Rightarrow> bool \<Rightarrow> nat" where
  "intrinsic_price dat al create = (if create then 53000 else 21000)
     + 16 * length (filter (\<lambda>b. b \<noteq> 0) dat) + 4 * length (filter (\<lambda>b. b = 0) dat)
     + 2400 * length al + 1900 * sum_list (map (\<lambda>t. length (at_StorageKeys t)) al)"

lemma StorageKeys_sum: "StorageKeys al = sum_list (map (\<lambda>t. length (at_StorageKeys t)) al)"
proof -
  have "foldl (\<lambda>s t. s + length (at_StorageKeys t)) n al = n + sum_list (map (\<lambda>t. length (at_StorageKeys t)) al)" for n
    by (induction al arbitrary: n) simp_all
  then show ?thesis by (simp add: StorageKeys_def)
qed

lemma nonzero_bytes_eq: "nonzero_bytes d = word_of_nat (length (filter (\<lambda>b. b \<noteq> 0) d))"
proof -
  have "foldl (\<lambda>nz b. if b \<noteq> 0 then nz + 1 else nz) n d = n + word_of_nat (length (filter (\<lambda>b. b \<noteq> 0) d))" for n :: u64
    by (induction d arbitrary: n) simp_all
  then show ?thesis by (simp add: nonzero_bytes_def)
qed

text \<open>
  As long as the true price is below \<open>2 ^ 64\<close>, \<^verbatim>\<open>IntrinsicGas\<close> returns it; no slice that fits in the
  memory of a machine is long enough to pass that bound.
\<close>

lemma unat_word_of_nat_small: "n < 2 ^ 64 \<Longrightarrow> unat (word_of_nat n :: u64) = n"
  by (simp add: unat_of_nat)

lemma no_wrap_add: "unat (a :: u64) + unat b < 2 ^ 64 \<Longrightarrow> unat (a + b) = unat a + unat b"
  using unat_add_lem [of a b] by simp

lemma no_wrap_mult: "unat (a :: u64) * unat b < 2 ^ 64 \<Longrightarrow> unat (a * b) = unat a * unat b"
  using unat_mult_lem [of a b] by simp

lemma unat_max_minus: "unat (- 1 - a :: u64) = 2 ^ 64 - 1 - unat a"
proof -
  have "unat (- 1 - a :: u64) = unat (- 1 :: u64) - unat a" by (rule unat_sub) simp
  moreover have "unat (- 1 :: u64) = 2 ^ 64 - 1" by (simp add: unsigned_minus_1_eq_mask mask_eq_exp_minus_1)
  ultimately show ?thesis by simp
qed

lemma IntrinsicGas_exact:
  assumes "intrinsic_price d al create < 2 ^ 64"
  shows "IntrinsicGas d al create = Inr (word_of_nat (intrinsic_price d al create))"
proof -
  define nz z where "nz = length (filter (\<lambda>b. b \<noteq> 0) d)" and "z = length (filter (\<lambda>b. b = 0) d)"
  define base :: nat where "base = (if create then 53000 else 21000)"
  have len: "length d = nz + z" unfolding nz_def z_def by (induction d) auto
  have price: "intrinsic_price d al create
      = base + 16 * nz + 4 * z + 2400 * length al + 1900 * StorageKeys al"
    unfolding intrinsic_price_def base_def nz_def z_def StorageKeys_sum by simp
  with assms have small: "base + 16 * nz + 4 * z < 2 ^ 64" by simp
  let ?g = "word_of_nat base :: u64" and ?n = "word_of_nat nz :: u64" and ?z = "word_of_nat z :: u64"
  have base: "(if create then TxGasContractCreation else TxGas) = ?g" by (simp add: tx_gas_defs base_def)
  have "16 * nz + base \<le> 2 ^ 64 - 1" using small by simp
  then have "nz * 16 \<le> 2 ^ 64 - 1 - base" by simp
  then have "nz \<le> (2 ^ 64 - 1 - base) div 16" by (simp add: less_eq_div_iff_mult_less_eq)
  then have c1: "\<not> (- 1 - ?g) div TxDataNonZeroGasEIP2028 < ?n"
    using small by (simp add: word_less_nat_alt unat_div unat_max_minus unat_word_of_nat_small TxDataNonZeroGasEIP2028_def)
  have g2: "?g + ?n * TxDataNonZeroGasEIP2028 = word_of_nat (base + 16 * nz)"
    by (simp add: TxDataNonZeroGasEIP2028_def)
  have "z * 4 \<le> 2 ^ 64 - 1 - (base + 16 * nz)" using small by simp
  then have "z \<le> (2 ^ 64 - 1 - (base + 16 * nz)) div 4" by (simp add: less_eq_div_iff_mult_less_eq)
  then have c2: "\<not> (- 1 - (word_of_nat (base + 16 * nz) :: u64)) div TxDataZeroGas < ?z"
    using small unat_word_of_nat_small [of "base + 16 * nz"] unat_word_of_nat_small [of z]
    by (simp add: word_less_nat_alt unat_div unat_max_minus TxDataZeroGas_def del: of_nat_add of_nat_mult)
  have z: "word_of_nat (length d) - ?n = ?z" unfolding len by simp
  show ?thesis
  proof (cases "length d > 0")
    case True
    then show ?thesis
      unfolding IntrinsicGas_def Let_def base nonzero_bytes_eq nz_def [symmetric] g2 z
      using c1 c2 by (simp add: price tx_gas_defs algebra_simps)
  next
    case False
    with len have "nz = 0" "z = 0" by auto
    with False show ?thesis
      unfolding price IntrinsicGas_def Let_def base by (simp add: tx_gas_defs algebra_simps)
  qed
qed

end
