(* ===== verification/BasicCheck.thy ===== *)
theory BasicCheck
  imports EventHash Intrinsic
begin

text \<open>
  The checks of an event that need nothing but the event (\<^verbatim>\<open>eventcheck/basiccheck\<close>), and the vocabulary
  the other checks share: the errors they return and the sequencing of checks.  The basic checker of
  go-vassalo is an argument, as are the other functions of that module.
\<close>

section \<open>Verdicts\<close>

text \<open>The errors of the packages under \<^verbatim>\<open>eventcheck\<close>; \<open>base_error\<close> stands for an error of go-vassalo's checkers that this code never names.\<close>

datatype check_error =
    ErrWrongNetForkID | ErrZeroTime | ErrNegativeValue | basic_ErrIntrinsicGas | ErrTipAboveFeeCap
  | ErrWrongMP | ErrNoCrimeInMP | ErrWrongCreatorMP | ErrMPTooLate | ErrMalformedMP
  | FutureBVsEpoch | FutureEVEpoch | MalformedBVs | MalformedEV | TooManyBVs | EmptyEV | EmptyBVs
  | ErrTooManyParents | ErrTooBigGasUsed | ErrWrongGasUsed | ErrUnderpriced | ErrTooBigExtra | ErrWrongVersion
  | ErrUnsupportedTxType | ErrPastTime | ErrWrongGasPowerLeft
  | ErrWrongEventSig | ErrMalformedTxSig | ErrWrongPayloadHash | ErrPubkeyChanged | ErrUnknownEpochEventLocator
  | ErrImpossibleBVsEpoch | ErrUnknownEpochBVs | ErrUnknownEpochEV
  | ErrAlreadyProcessedBVs | ErrAlreadyProcessedBR | ErrAlreadyProcessedEV | ErrAlreadyProcessedER
  | ErrUndecidedBR | ErrUndecidedER
  | ErrHugeValue | ErrNotRelevant | ErrAuth | ErrWrongSelfParent
  | ErrAlreadyConnectedEvent | ErrSpilledEvent | ErrDuplicateEvent
  | evm_err evm_error | base_error string

text \<open>A check returns nil, returns an error, or panics.\<close>

datatype verdict = Accept | Reject check_error | Crash

definition reject_if :: "bool \<Rightarrow> check_error \<Rightarrow> verdict" where
  "reject_if c err = (if c then Reject err else Accept)"

fun first_of :: "verdict list \<Rightarrow> verdict" where
  "first_of [] = Accept"
| "first_of (Accept # vs) = first_of vs"
| "first_of (v # vs) = v"

definition on_ok :: "'a outcome \<Rightarrow> ('a \<Rightarrow> verdict) \<Rightarrow> verdict" where
  "on_ok r k = (case r of Ok a \<Rightarrow> k a | _ \<Rightarrow> Crash)"

lemma reject_if_Accept [simp]: "reject_if c err = Accept \<longleftrightarrow> \<not> c"
  and reject_if_Crash [simp]: "reject_if c err \<noteq> Crash"
  and reject_if_Reject [simp]: "reject_if c err = Reject err' \<longleftrightarrow> c \<and> err' = err"
  by (auto simp: reject_if_def)

lemma first_of_Cons: "first_of (v # vs) = (if v = Accept then first_of vs else v)"
  by (cases v) auto

lemma first_of_Accept [simp]: "first_of vs = Accept \<longleftrightarrow> (\<forall>v \<in> set vs. v = Accept)"
  by (induction vs rule: first_of.induct) auto

lemma first_of_Crash: "first_of vs = Crash \<Longrightarrow> Crash \<in> set vs"
  and first_of_Reject: "first_of vs = Reject err \<Longrightarrow> Reject err \<in> set vs"
  by (induction vs rule: first_of.induct) auto

lemma first_of_no_crash: "(\<And>v. v \<in> set vs \<Longrightarrow> v \<noteq> Crash) \<Longrightarrow> first_of vs \<noteq> Crash"
  using first_of_Crash [of vs] by blast

lemma first_of_guarded: "v \<noteq> Crash \<Longrightarrow> (v = Accept \<Longrightarrow> first_of vs \<noteq> Crash) \<Longrightarrow> first_of (v # vs) \<noteq> Crash"
  by (cases v) auto

lemma first_of_Nil_no_crash: "first_of [] \<noteq> Crash"
  by simp

lemmas no_crash_intros = first_of_guarded first_of_Nil_no_crash reject_if_Crash

lemma on_ok_Accept: "on_ok r k = Accept \<longleftrightarrow> (\<exists>a. r = Ok a \<and> k a = Accept)"
  by (auto simp: on_ok_def split: outcome.splits)

section \<open>Transactions\<close>

definition MaxBlockVotesPerEvent :: nat where "MaxBlockVotesPerEvent = 64"
definition MaxLiableEpochs :: u32 where "MaxLiableEpochs = 32768"

definition validateTx :: "transaction \<Rightarrow> verdict" where
  "validateTx tx = first_of
     [reject_if (tx_Value tx < 0 \<or> tx_GasPrice tx < 0) ErrNegativeValue,
      (case IntrinsicGas (tx_Data tx) (tx_AccessList tx) (tx_To tx = None) of
         Inl err \<Rightarrow> Reject (evm_err err)
       | Inr intrGas \<Rightarrow> reject_if (tx_Gas tx < intrGas) basic_ErrIntrinsicGas),
      reject_if (tx_GasFeeCapIntCmp tx (tx_GasTipCap tx) < 0) ErrTipAboveFeeCap]"

definition checkTxs :: "event_payload \<Rightarrow> verdict" where
  "checkTxs e = first_of (map validateTx (e_txs e))"

section \<open>Votes\<close>

text \<open>\<open>MaxInt32 - 1\<close>, \<open>MaxInt64 - 1\<close> and \<open>MaxInt64 / 2\<close>.\<close>

definition validateEventLocator :: "EventLocator \<Rightarrow> verdict" where
  "validateEventLocator e = first_of
     [reject_if (lo_NetForkID e \<noteq> 0) ErrWrongNetForkID,
      reject_if (lo_Seq e \<ge> 0x7ffffffe \<or> lo_Epoch e \<ge> 0x7ffffffe \<or> lo_Lamport e \<ge> 0x7ffffffe) ErrHugeValue]"

definition validateBVs :: "u32 \<Rightarrow> LlrBlockVotes \<Rightarrow> bool \<Rightarrow> verdict" where
  "validateBVs eventEpoch bvs greedy = first_of
     [reject_if (bv_Epoch bvs > eventEpoch) FutureBVsEpoch,
      reject_if (bv_Start bvs \<ge> 0x3fffffffffffffff) ErrHugeValue,
      reject_if (bv_Epoch bvs \<ge> 0x7ffffffe) ErrHugeValue,
      reject_if (length (bv_Votes bvs) > MaxBlockVotesPerEvent) TooManyBVs,
      reject_if ((bv_Start bvs = 0) \<noteq> (length (bv_Votes bvs) = 0) \<or> (bv_Start bvs = 0) \<noteq> (bv_Epoch bvs = 0)) MalformedBVs,
      reject_if (greedy \<and> bv_Epoch bvs = 0) EmptyBVs]"

definition validateEV :: "u32 \<Rightarrow> LlrEpochVote \<Rightarrow> bool \<Rightarrow> verdict" where
  "validateEV eventEpoch ev greedy = first_of
     [reject_if (ev_Epoch ev > eventEpoch) FutureEVEpoch,
      reject_if ((ev_Epoch ev = 0) \<noteq> (ev_Vote ev = Zero_hash)) MalformedEV,
      reject_if (ev_Epoch ev \<ge> 0x7ffffffe) ErrHugeValue,
      reject_if (greedy \<and> ev_Epoch ev = 0) EmptyEV]"

definition basic_ValidateBVs :: "LlrSignedBlockVotes \<Rightarrow> verdict" where
  "basic_ValidateBVs bvs = first_of
     [validateEventLocator (sl_Locator (sbv_Signed bvs)),
      validateBVs (lo_Epoch (sl_Locator (sbv_Signed bvs))) (sbv_Val bvs) True]"

definition basic_ValidateEV :: "LlrSignedEpochVote \<Rightarrow> verdict" where
  "basic_ValidateEV ev = first_of
     [validateEventLocator (sl_Locator (sev_Signed ev)),
      validateEV (lo_Epoch (sl_Locator (sev_Signed ev))) (sev_Val ev) True]"

section \<open>Misbehaviour proofs\<close>

text \<open>The part of \<^verbatim>\<open>validateMP\<close> for each of the five proofs, then the count of the proofs.\<close>

definition out_of_range :: "u64 \<Rightarrow> LlrBlockVotes \<Rightarrow> bool" where
  "out_of_range b bvs = (b < bv_Start bvs \<or> b \<ge> bv_Start bvs + word_of_nat (length (bv_Votes bvs)))"

definition validate_EventsDoublesign :: "u32 \<Rightarrow> SignedEventLocator \<times> SignedEventLocator \<Rightarrow> verdict" where
  "validate_EventsDoublesign msgEpoch p = (let a = sl_Locator (fst p); b = sl_Locator (snd p) in first_of
     [validateEventLocator a, validateEventLocator b,
      reject_if (lo_Creator a \<noteq> lo_Creator b) ErrWrongCreatorMP,
      reject_if (lo_Epoch a \<noteq> lo_Epoch b) ErrNoCrimeInMP,
      reject_if (lo_Seq a \<noteq> lo_Seq b) ErrNoCrimeInMP,
      reject_if (a = b) ErrNoCrimeInMP,
      reject_if (msgEpoch > lo_Epoch a + MaxLiableEpochs) ErrMPTooLate])"

definition sbv_Creator :: "LlrSignedBlockVotes \<Rightarrow> u32" where
  "sbv_Creator v = lo_Creator (sl_Locator (sbv_Signed v))"

definition sev_Creator :: "LlrSignedEpochVote \<Rightarrow> u32" where
  "sev_Creator v = lo_Creator (sl_Locator (sev_Signed v))"

definition validate_BlockVoteDoublesign :: "u32 \<Rightarrow> BlockVoteDoublesign \<Rightarrow> verdict" where
  "validate_BlockVoteDoublesign msgEpoch p =
    (let a = fst (bvd_Pair p); b = snd (bvd_Pair p) in first_of
     [basic_ValidateBVs a, basic_ValidateBVs b,
      reject_if (sbv_Creator a \<noteq> sbv_Creator b) ErrWrongCreatorMP,
      reject_if (out_of_range (bvd_Block p) (sbv_Val a)) ErrWrongMP,
      reject_if (out_of_range (bvd_Block p) (sbv_Val b)) ErrWrongMP,
      on_ok (BlockVoteDoublesign_GetVote p False) (\<lambda>v. on_ok (BlockVoteDoublesign_GetVote p True) (\<lambda>w.
        reject_if (v = w \<and> bv_Epoch (sbv_Val a) = bv_Epoch (sbv_Val b)) ErrNoCrimeInMP)),
      reject_if (msgEpoch > bv_Epoch (sbv_Val a) + MaxLiableEpochs \<or> msgEpoch > bv_Epoch (sbv_Val b) + MaxLiableEpochs)
        ErrMPTooLate])"

definition validate_WrongBlockVote :: "u32 \<Rightarrow> WrongBlockVote \<Rightarrow> verdict" where
  "validate_WrongBlockVote msgEpoch p =
    (let a = fst (wbv_Pals p); b = snd (wbv_Pals p) in first_of
     [basic_ValidateBVs a,
      reject_if (out_of_range (wbv_Block p) (sbv_Val a)) ErrWrongMP,
      reject_if (msgEpoch > bv_Epoch (sbv_Val a) + MaxLiableEpochs) ErrMPTooLate,
      basic_ValidateBVs b,
      reject_if (out_of_range (wbv_Block p) (sbv_Val b)) ErrWrongMP,
      reject_if (msgEpoch > bv_Epoch (sbv_Val b) + MaxLiableEpochs) ErrMPTooLate,
      if wbv_WrongEpoch p then reject_if (bv_Epoch (sbv_Val b) \<noteq> bv_Epoch (sbv_Val a)) ErrNoCrimeInMP
      else on_ok (WrongBlockVote_GetVote p False) (\<lambda>v. on_ok (WrongBlockVote_GetVote p True) (\<lambda>w.
        reject_if (v \<noteq> w) ErrNoCrimeInMP)),
      reject_if (sbv_Creator a = sbv_Creator b) ErrWrongCreatorMP])"

definition validate_EpochVoteDoublesign :: "u32 \<Rightarrow> LlrSignedEpochVote \<times> LlrSignedEpochVote \<Rightarrow> verdict" where
  "validate_EpochVoteDoublesign msgEpoch p = (let a = fst p; b = snd p in first_of
     [basic_ValidateEV a, basic_ValidateEV b,
      reject_if (sev_Creator a \<noteq> sev_Creator b) ErrWrongCreatorMP,
      reject_if (ev_Epoch (sev_Val a) \<noteq> ev_Epoch (sev_Val b)) ErrNoCrimeInMP,
      reject_if (ev_Vote (sev_Val a) = ev_Vote (sev_Val b)) ErrNoCrimeInMP,
      reject_if (msgEpoch > ev_Epoch (sev_Val a) + MaxLiableEpochs) ErrMPTooLate])"

definition validate_WrongEpochVote :: "u32 \<Rightarrow> LlrSignedEpochVote \<times> LlrSignedEpochVote \<Rightarrow> verdict" where
  "validate_WrongEpochVote msgEpoch p = (let a = fst p; b = snd p in first_of
     [basic_ValidateEV a,
      reject_if (msgEpoch > ev_Epoch (sev_Val a) + MaxLiableEpochs) ErrMPTooLate,
      basic_ValidateEV b,
      reject_if (msgEpoch > ev_Epoch (sev_Val b) + MaxLiableEpochs) ErrMPTooLate,
      reject_if (sev_Val a \<noteq> sev_Val b) ErrNoCrimeInMP,
      reject_if (sev_Creator a = sev_Creator b) ErrWrongCreatorMP])"

definition if_given :: "'a option \<Rightarrow> ('a \<Rightarrow> verdict) \<Rightarrow> verdict" where
  "if_given p check = (case p of None \<Rightarrow> Accept | Some a \<Rightarrow> check a)"

definition mp_count :: "MisbehaviourProof \<Rightarrow> nat" where
  "mp_count mp = of_bool (mp_EventsDoublesign mp \<noteq> None) + of_bool (mp_BlockVoteDoublesign mp \<noteq> None)
     + of_bool (mp_WrongBlockVote mp \<noteq> None) + of_bool (mp_EpochVoteDoublesign mp \<noteq> None)
     + of_bool (mp_WrongEpochVote mp \<noteq> None)"

definition validateMP :: "u32 \<Rightarrow> MisbehaviourProof \<Rightarrow> verdict" where
  "validateMP msgEpoch mp = first_of
     [if_given (mp_EventsDoublesign mp) (validate_EventsDoublesign msgEpoch),
      if_given (mp_BlockVoteDoublesign mp) (validate_BlockVoteDoublesign msgEpoch),
      if_given (mp_WrongBlockVote mp) (validate_WrongBlockVote msgEpoch),
      if_given (mp_EpochVoteDoublesign mp) (validate_EpochVoteDoublesign msgEpoch),
      if_given (mp_WrongEpochVote mp) (validate_WrongEpochVote msgEpoch),
      reject_if (mp_count mp \<noteq> 1) ErrMalformedMP]"

section \<open>Events\<close>

text \<open>
  The checkers of go-vassalo return nil or an error; \<^verbatim>\<open>SelfParent\<close> and \<^verbatim>\<open>IsSelfParent\<close> are methods of its
  \<^verbatim>\<open>dag.BaseEvent\<close>.
\<close>

record base_checkers =
  base_basic :: "event_payload \<Rightarrow> check_error option"
  base_epoch :: "event_payload \<Rightarrow> check_error option"
  base_parents :: "event_payload \<Rightarrow> built_event list \<Rightarrow> check_error option"
  dag_SelfParent :: "event_payload \<Rightarrow> hash option"
  dag_IsSelfParent :: "event_payload \<Rightarrow> hash \<Rightarrow> bool"

definition of_base :: "check_error option \<Rightarrow> verdict" where
  "of_base r = (case r of None \<Rightarrow> Accept | Some err \<Rightarrow> Reject err)"

definition basic_Validate :: "base_checkers \<Rightarrow> event_payload \<Rightarrow> verdict" where
  "basic_Validate vc e = first_of
     [reject_if (e_netForkID e \<noteq> 0) ErrWrongNetForkID,
      of_base (base_basic vc e),
      reject_if (e_gasPowerUsed e \<ge> 0x7ffffffffffffffe \<or> GasPowerLeft_Max (e_gasPowerLeft e) \<ge> 0x7ffffffffffffffe) ErrHugeValue,
      reject_if (e_creationTime e \<le> 0 \<or> e_medianTime e \<le> 0) ErrZeroTime,
      checkTxs e,
      first_of (map (validateMP (e_Epoch e)) (e_misbehaviourProofs e)),
      validateEV (e_Epoch e) (e_epochVote e) False,
      validateBVs (e_Epoch e) (e_blockVotes e) False]"

section \<open>What a proof must show\<close>

text \<open>
  The reference: the same conditions over natural numbers, where block and epoch numbers do not wrap, and
  a vote is looked up, not indexed.
\<close>

definition locator_ok :: "EventLocator \<Rightarrow> bool" where
  "locator_ok l \<longleftrightarrow> lo_NetForkID l = 0 \<and> unat (lo_Seq l) < 2 ^ 31 - 2 \<and> unat (lo_Epoch l) < 2 ^ 31 - 2
     \<and> unat (lo_Lamport l) < 2 ^ 31 - 2"

definition bvs_ok :: "LlrSignedBlockVotes \<Rightarrow> bool" where
  "bvs_ok v \<longleftrightarrow> locator_ok (sl_Locator (sbv_Signed v))
     \<and> 0 < unat (bv_Epoch (sbv_Val v)) \<and> unat (bv_Epoch (sbv_Val v)) \<le> unat (lo_Epoch (sl_Locator (sbv_Signed v)))
     \<and> 0 < unat (bv_Start (sbv_Val v)) \<and> unat (bv_Start (sbv_Val v)) < 2 ^ 62 - 1
     \<and> 0 < length (bv_Votes (sbv_Val v)) \<and> length (bv_Votes (sbv_Val v)) \<le> 64"

definition ev_ok :: "LlrSignedEpochVote \<Rightarrow> bool" where
  "ev_ok v \<longleftrightarrow> locator_ok (sl_Locator (sev_Signed v))
     \<and> 0 < unat (ev_Epoch (sev_Val v)) \<and> unat (ev_Epoch (sev_Val v)) \<le> unat (lo_Epoch (sl_Locator (sev_Signed v)))
     \<and> ev_Vote (sev_Val v) \<noteq> Zero_hash"

definition vote_for :: "LlrBlockVotes \<Rightarrow> nat \<Rightarrow> hash option" where
  "vote_for bvs b = (if unat (bv_Start bvs) \<le> b \<and> b < unat (bv_Start bvs) + length (bv_Votes bvs)
     then Some (bv_Votes bvs ! (b - unat (bv_Start bvs))) else None)"

definition liable :: "u32 \<Rightarrow> u32 \<Rightarrow> bool" where
  "liable msgEpoch epoch \<longleftrightarrow> unat msgEpoch \<le> unat epoch + 32768"

fun proves_crime :: "u32 \<Rightarrow> MisbehaviourProof \<Rightarrow> bool" where
  "proves_crime now mp = (case (mp_EventsDoublesign mp, mp_BlockVoteDoublesign mp, mp_WrongBlockVote mp,
       mp_EpochVoteDoublesign mp, mp_WrongEpochVote mp) of
     (Some (a, b), None, None, None, None) \<Rightarrow>
       locator_ok (sl_Locator a) \<and> locator_ok (sl_Locator b)
       \<and> lo_Creator (sl_Locator a) = lo_Creator (sl_Locator b) \<and> lo_Epoch (sl_Locator a) = lo_Epoch (sl_Locator b)
       \<and> lo_Seq (sl_Locator a) = lo_Seq (sl_Locator b) \<and> sl_Locator a \<noteq> sl_Locator b
       \<and> liable now (lo_Epoch (sl_Locator a))
   | (None, Some p, None, None, None) \<Rightarrow> (case bvd_Pair p of (a, b) \<Rightarrow>
       bvs_ok a \<and> bvs_ok b \<and> sbv_Creator a = sbv_Creator b
       \<and> vote_for (sbv_Val a) (unat (bvd_Block p)) \<noteq> None \<and> vote_for (sbv_Val b) (unat (bvd_Block p)) \<noteq> None
       \<and> (vote_for (sbv_Val a) (unat (bvd_Block p)) \<noteq> vote_for (sbv_Val b) (unat (bvd_Block p))
          \<or> bv_Epoch (sbv_Val a) \<noteq> bv_Epoch (sbv_Val b))
       \<and> liable now (bv_Epoch (sbv_Val a)) \<and> liable now (bv_Epoch (sbv_Val b)))
   | (None, None, Some p, None, None) \<Rightarrow> (case wbv_Pals p of (a, b) \<Rightarrow>
       bvs_ok a \<and> bvs_ok b \<and> sbv_Creator a \<noteq> sbv_Creator b
       \<and> vote_for (sbv_Val a) (unat (wbv_Block p)) \<noteq> None \<and> vote_for (sbv_Val b) (unat (wbv_Block p)) \<noteq> None
       \<and> (if wbv_WrongEpoch p then bv_Epoch (sbv_Val a) = bv_Epoch (sbv_Val b)
          else vote_for (sbv_Val a) (unat (wbv_Block p)) = vote_for (sbv_Val b) (unat (wbv_Block p)))
       \<and> liable now (bv_Epoch (sbv_Val a)) \<and> liable now (bv_Epoch (sbv_Val b)))
   | (None, None, None, Some (a, b), None) \<Rightarrow>
       ev_ok a \<and> ev_ok b \<and> sev_Creator a = sev_Creator b \<and> ev_Epoch (sev_Val a) = ev_Epoch (sev_Val b)
       \<and> ev_Vote (sev_Val a) \<noteq> ev_Vote (sev_Val b) \<and> liable now (ev_Epoch (sev_Val a))
   | (None, None, None, None, Some (a, b)) \<Rightarrow>
       ev_ok a \<and> ev_ok b \<and> sev_Creator a \<noteq> sev_Creator b \<and> sev_Val a = sev_Val b
       \<and> liable now (ev_Epoch (sev_Val a)) \<and> liable now (ev_Epoch (sev_Val b))
   | _ \<Rightarrow> False)"

declare proves_crime.simps [simp del]

lemma validateEventLocator_iff: "validateEventLocator l = Accept \<longleftrightarrow> locator_ok l"
  by (auto simp: validateEventLocator_def locator_ok_def word_le_nat_alt not_le)

lemma basic_ValidateBVs_iff: "basic_ValidateBVs v = Accept \<longleftrightarrow> bvs_ok v"
  by (auto simp: basic_ValidateBVs_def validateBVs_def bvs_ok_def validateEventLocator_iff locator_ok_def
      MaxBlockVotesPerEvent_def word_le_nat_alt word_less_nat_alt not_le not_less unat_gt_0)

lemma basic_ValidateEV_iff: "basic_ValidateEV v = Accept \<longleftrightarrow> ev_ok v"
  by (auto simp: basic_ValidateEV_def validateEV_def ev_ok_def validateEventLocator_iff locator_ok_def
      word_le_nat_alt word_less_nat_alt not_le not_less unat_gt_0)

lemma validateEventLocator_no_crash: "validateEventLocator l \<noteq> Crash"
  and validateBVs_no_crash: "validateBVs ep bvs g \<noteq> Crash"
  and validateEV_no_crash: "validateEV ep ev g \<noteq> Crash"
  unfolding validateEventLocator_def validateBVs_def validateEV_def
  by (intro no_crash_intros)+

lemma basic_no_crash: "basic_ValidateBVs v \<noteq> Crash" "basic_ValidateEV w \<noteq> Crash"
  unfolding basic_ValidateBVs_def basic_ValidateEV_def
  by (intro no_crash_intros validateEventLocator_no_crash validateBVs_no_crash validateEV_no_crash)+

text \<open>The bounds of the basic check keep the ends of a vote from wrapping, so indexing is looking up.\<close>

lemma bvs_ok_range:
  assumes "bvs_ok v"
  shows "out_of_range b (sbv_Val v) \<longleftrightarrow> vote_for (sbv_Val v) (unat b) = None"
    and "vote_for (sbv_Val v) (unat b) = Some h \<Longrightarrow> vote_at b (sbv_Val v) = Ok h"
proof -
  let ?s = "bv_Start (sbv_Val v)" and ?n = "length (bv_Votes (sbv_Val v))"
  have s: "unat ?s < 2 ^ 62 - 1" and n: "?n \<le> 64" using assms by (simp_all add: bvs_ok_def)
  have len: "unat (word_of_nat ?n :: u64) = ?n" using n by (simp add: unat_of_nat)
  then have sum: "unat (?s + word_of_nat ?n) = unat ?s + ?n"
    using s n unat_add_lem [of ?s "word_of_nat ?n"] by simp
  show "out_of_range b (sbv_Val v) \<longleftrightarrow> vote_for (sbv_Val v) (unat b) = None"
    by (auto simp: out_of_range_def vote_for_def word_le_nat_alt word_less_nat_alt sum)
  show "vote_at b (sbv_Val v) = Ok h" if "vote_for (sbv_Val v) (unat b) = Some h"
  proof -
    have "unat ?s \<le> unat b" "unat b < unat ?s + ?n" "h = bv_Votes (sbv_Val v) ! (unat b - unat ?s)"
      using that by (auto simp: vote_for_def split: if_splits)
    moreover from this have "unat (b - ?s) = unat b - unat ?s" by (intro unat_sub) (simp add: word_le_nat_alt)
    ultimately show ?thesis by (simp add: vote_at_def Let_def)
  qed
qed

lemma liable_iff: "locator_ok l \<Longrightarrow> \<not> now > lo_Epoch l + MaxLiableEpochs \<longleftrightarrow> liable now (lo_Epoch l)"
  using unat_add_lem [of "lo_Epoch l" MaxLiableEpochs]
  by (simp add: liable_def locator_ok_def word_less_nat_alt MaxLiableEpochs_def not_less)

lemma liable_iff':
  assumes "locator_ok l" and "unat epoch \<le> unat (lo_Epoch l)"
  shows "now > epoch + MaxLiableEpochs \<longleftrightarrow> \<not> liable now epoch"
proof -
  have "unat epoch < 2 ^ 31 - 2" using assms by (simp add: locator_ok_def)
  then have "unat (epoch + MaxLiableEpochs) = unat epoch + 32768"
    using unat_add_lem [of epoch MaxLiableEpochs] by (simp add: MaxLiableEpochs_def)
  then show ?thesis by (simp add: liable_def word_less_nat_alt not_le)
qed

lemma liable_bvs: "bvs_ok v \<Longrightarrow> now > bv_Epoch (sbv_Val v) + MaxLiableEpochs \<longleftrightarrow> \<not> liable now (bv_Epoch (sbv_Val v))"
  and liable_ev: "ev_ok w \<Longrightarrow> now > ev_Epoch (sev_Val w) + MaxLiableEpochs \<longleftrightarrow> \<not> liable now (ev_Epoch (sev_Val w))"
  by (auto intro!: liable_iff' simp: bvs_ok_def ev_ok_def)

lemma EventsDoublesign_iff:
  "validate_EventsDoublesign now p = Accept \<longleftrightarrow>
     proves_crime now \<lparr>mp_EventsDoublesign = Some p, mp_BlockVoteDoublesign = None, mp_WrongBlockVote = None,
       mp_EpochVoteDoublesign = None, mp_WrongEpochVote = None\<rparr>"
  using liable_iff' [of "sl_Locator (fst p)" "lo_Epoch (sl_Locator (fst p))" now]
  by (cases p) (auto simp: validate_EventsDoublesign_def proves_crime.simps validateEventLocator_iff Let_def)

lemma BlockVoteDoublesign_iff:
  "validate_BlockVoteDoublesign now p = Accept \<longleftrightarrow>
     proves_crime now \<lparr>mp_EventsDoublesign = None, mp_BlockVoteDoublesign = Some p, mp_WrongBlockVote = None,
       mp_EpochVoteDoublesign = None, mp_WrongEpochVote = None\<rparr>"
proof -
  obtain a b where p: "bvd_Pair p = (a, b)" by force
  show ?thesis
  proof (cases "bvs_ok a \<and> bvs_ok b")
    case True
    then have ok: "bvs_ok a" "bvs_ok b" by auto
    show ?thesis
      using ok bvs_ok_range [OF ok(1), of "bvd_Block p"] bvs_ok_range [OF ok(2), of "bvd_Block p"]
      by (auto simp: validate_BlockVoteDoublesign_def proves_crime.simps p basic_ValidateBVs_iff Let_def on_ok_Accept
          BlockVoteDoublesign_GetVote_def liable_bvs)
  qed (auto simp: validate_BlockVoteDoublesign_def proves_crime.simps p basic_ValidateBVs_iff Let_def)
qed

lemma WrongBlockVote_iff:
  "validate_WrongBlockVote now p = Accept \<longleftrightarrow>
     proves_crime now \<lparr>mp_EventsDoublesign = None, mp_BlockVoteDoublesign = None, mp_WrongBlockVote = Some p,
       mp_EpochVoteDoublesign = None, mp_WrongEpochVote = None\<rparr>"
proof -
  obtain a b where p: "wbv_Pals p = (a, b)" by force
  show ?thesis
  proof (cases "bvs_ok a \<and> bvs_ok b")
    case True
    then have ok: "bvs_ok a" "bvs_ok b" by auto
    show ?thesis
      using ok bvs_ok_range [OF ok(1), of "wbv_Block p"] bvs_ok_range [OF ok(2), of "wbv_Block p"]
      by (auto simp: validate_WrongBlockVote_def proves_crime.simps p basic_ValidateBVs_iff Let_def on_ok_Accept
          WrongBlockVote_GetVote_def liable_bvs)
  qed (auto simp: validate_WrongBlockVote_def proves_crime.simps p basic_ValidateBVs_iff Let_def)
qed

lemma EpochVoteDoublesign_iff:
  "validate_EpochVoteDoublesign now p = Accept \<longleftrightarrow>
     proves_crime now \<lparr>mp_EventsDoublesign = None, mp_BlockVoteDoublesign = None, mp_WrongBlockVote = None,
       mp_EpochVoteDoublesign = Some p, mp_WrongEpochVote = None\<rparr>"
  by (cases p) (auto simp: validate_EpochVoteDoublesign_def proves_crime.simps basic_ValidateEV_iff Let_def liable_ev)

lemma WrongEpochVote_iff:
  "validate_WrongEpochVote now p = Accept \<longleftrightarrow>
     proves_crime now \<lparr>mp_EventsDoublesign = None, mp_BlockVoteDoublesign = None, mp_WrongBlockVote = None,
       mp_EpochVoteDoublesign = None, mp_WrongEpochVote = Some p\<rparr>"
  by (cases p) (auto simp: validate_WrongEpochVote_def proves_crime.simps basic_ValidateEV_iff Let_def liable_ev)

lemmas proof_iff = EventsDoublesign_iff BlockVoteDoublesign_iff WrongBlockVote_iff EpochVoteDoublesign_iff
  WrongEpochVote_iff

lemma proves_crime_one: "proves_crime now mp \<Longrightarrow> mp_count mp = 1"
  by (cases mp) (auto simp: proves_crime.simps mp_count_def split: option.splits)

lemma mp_count_1_cases:
  assumes "mp_count mp = 1"
  obtains (ed) p where "mp = \<lparr>mp_EventsDoublesign = Some p, mp_BlockVoteDoublesign = None, mp_WrongBlockVote = None,
       mp_EpochVoteDoublesign = None, mp_WrongEpochVote = None\<rparr>"
  | (bd) p where "mp = \<lparr>mp_EventsDoublesign = None, mp_BlockVoteDoublesign = Some p, mp_WrongBlockVote = None,
       mp_EpochVoteDoublesign = None, mp_WrongEpochVote = None\<rparr>"
  | (wb) p where "mp = \<lparr>mp_EventsDoublesign = None, mp_BlockVoteDoublesign = None, mp_WrongBlockVote = Some p,
       mp_EpochVoteDoublesign = None, mp_WrongEpochVote = None\<rparr>"
  | (vd) p where "mp = \<lparr>mp_EventsDoublesign = None, mp_BlockVoteDoublesign = None, mp_WrongBlockVote = None,
       mp_EpochVoteDoublesign = Some p, mp_WrongEpochVote = None\<rparr>"
  | (wv) p where "mp = \<lparr>mp_EventsDoublesign = None, mp_BlockVoteDoublesign = None, mp_WrongBlockVote = None,
       mp_EpochVoteDoublesign = None, mp_WrongEpochVote = Some p\<rparr>"
proof (cases mp)
  case (fields e b w v x)
  show thesis
    by (cases e; cases b; cases w; cases v; cases x) (use assms fields that in \<open>simp_all add: mp_count_def\<close>)
qed

lemma validateMP_iff: "validateMP now mp = Accept \<longleftrightarrow> proves_crime now mp"
proof (cases "mp_count mp = 1")
  case True
  then show ?thesis
    by (cases rule: mp_count_1_cases) (simp_all add: validateMP_def if_given_def proof_iff mp_count_def)
qed (auto simp: validateMP_def dest: proves_crime_one)

lemma validateMP_no_crash: "validateMP now mp \<noteq> Crash"
proof -
  have bd: "validate_BlockVoteDoublesign now p \<noteq> Crash" for p
    unfolding validate_BlockVoteDoublesign_def Let_def
    by (intro no_crash_intros basic_no_crash)
       (auto simp: basic_ValidateBVs_iff bvs_ok_range on_ok_def BlockVoteDoublesign_GetVote_def dest: bvs_ok_range(2))
  have wb: "validate_WrongBlockVote now p \<noteq> Crash" for p
    unfolding validate_WrongBlockVote_def Let_def
    by (intro no_crash_intros basic_no_crash)
       (auto simp: basic_ValidateBVs_iff bvs_ok_range on_ok_def WrongBlockVote_GetVote_def dest: bvs_ok_range(2))
  have rest: "validate_EventsDoublesign now q \<noteq> Crash" "validate_EpochVoteDoublesign now r \<noteq> Crash"
    "validate_WrongEpochVote now r \<noteq> Crash" for q r
    unfolding validate_EventsDoublesign_def validate_EpochVoteDoublesign_def validate_WrongEpochVote_def Let_def
    by (intro no_crash_intros validateEventLocator_no_crash basic_no_crash)+
  show ?thesis unfolding validateMP_def
    by (intro no_crash_intros) (simp_all add: if_given_def bd wb rest split: option.splits)
qed

section \<open>Accepted events\<close>

lemma GasPowerLeft_bounds: "shortTermGas g \<le> GasPowerLeft_Max g" "longTermGas g \<le> GasPowerLeft_Max g"
  by (simp_all add: GasPowerLeft_Max_eq)

text \<open>Gas used and gas left of an accepted event are below \<open>2 ^ 63\<close>, so their sums do not wrap.\<close>

lemma basic_gas_no_wrap:
  assumes "basic_Validate vc e = Accept"
  shows "unat (shortTermGas (e_gasPowerLeft e) + e_gasPowerUsed e) = unat (shortTermGas (e_gasPowerLeft e)) + unat (e_gasPowerUsed e)"
    and "unat (longTermGas (e_gasPowerLeft e) + e_gasPowerUsed e) = unat (longTermGas (e_gasPowerLeft e)) + unat (e_gasPowerUsed e)"
proof -
  have "unat (e_gasPowerUsed e) < 2 ^ 63" "unat (GasPowerLeft_Max (e_gasPowerLeft e)) < 2 ^ 63"
    using assms by (auto simp: basic_Validate_def word_le_nat_alt not_le)
  moreover have "unat (shortTermGas (e_gasPowerLeft e)) \<le> unat (GasPowerLeft_Max (e_gasPowerLeft e))"
    "unat (longTermGas (e_gasPowerLeft e)) \<le> unat (GasPowerLeft_Max (e_gasPowerLeft e))"
    using GasPowerLeft_bounds by (simp_all add: word_le_nat_alt [symmetric])
  ultimately show "unat (shortTermGas (e_gasPowerLeft e) + e_gasPowerUsed e) = unat (shortTermGas (e_gasPowerLeft e)) + unat (e_gasPowerUsed e)"
    and "unat (longTermGas (e_gasPowerLeft e) + e_gasPowerUsed e) = unat (longTermGas (e_gasPowerLeft e)) + unat (e_gasPowerUsed e)"
    by (auto intro!: no_wrap_add)
qed

text \<open>An accepted transaction offers its intrinsic price, whenever that price fits in 64 bits.\<close>

lemma validateTx_pays:
  assumes "validateTx tx = Accept" and "intrinsic_price (tx_Data tx) (tx_AccessList tx) (tx_To tx = None) < 2 ^ 64"
  shows "intrinsic_price (tx_Data tx) (tx_AccessList tx) (tx_To tx = None) \<le> unat (tx_Gas tx)"
  using assms unat_word_of_nat_small [OF assms(2)]
  by (simp add: validateTx_def IntrinsicGas_exact word_le_nat_alt not_less)

text \<open>
  C22. The basic check of a misbehaviour proof never panics, and it accepts exactly the proofs of a crime: one
  proof, both of its halves well formed and within the liability period, and the two halves contradicting
  each other (a double sign) or agreeing on what turned out wrong, by different validators.  The reference
  speaks of natural numbers and looks votes up, the code indexes with 64-bit differences.
\<close>

theorem validateMP_accepts_exactly_crimes:
  "validateMP now mp \<noteq> Crash \<and> (validateMP now mp = Accept \<longleftrightarrow> proves_crime now mp)"
  using validateMP_iff validateMP_no_crash by simp

end
