(* ===== verification/ChainConfig.thy ===== *)
theory ChainConfig
  imports Sesa_Prelude
begin

text \<open>
  The fork schedule of the package \<^verbatim>\<open>params\<close> (\<^verbatim>\<open>config.go\<close>): which forks are active at a block,
  whether a schedule orders its forks, and whether a node that has imported blocks under one schedule
  may continue under another (\<^verbatim>\<open>CheckCompatible\<close>).  A nil \<^verbatim>\<open>*big.Int\<close> is \<open>None\<close>.
\<close>

section \<open>Configuration and forks\<close>

record ChainConfig =
  cc_ChainID :: "int option"
  cc_HomesteadBlock :: "int option"
  cc_DAOForkBlock :: "int option"
  cc_DAOForkSupport :: bool
  cc_EIP150Block :: "int option"
  cc_EIP150Hash :: hash
  cc_EIP155Block :: "int option"
  cc_EIP158Block :: "int option"
  cc_ByzantiumBlock :: "int option"
  cc_ConstantinopleBlock :: "int option"
  cc_PetersburgBlock :: "int option"
  cc_IstanbulBlock :: "int option"
  cc_MuirGlacierBlock :: "int option"
  cc_BerlinBlock :: "int option"
  cc_LondonBlock :: "int option"
  cc_CatalystBlock :: "int option"

definition AllProtocolChanges :: ChainConfig where
  "AllProtocolChanges = \<lparr>cc_ChainID = Some 1337, cc_HomesteadBlock = Some 0, cc_DAOForkBlock = None,
     cc_DAOForkSupport = False, cc_EIP150Block = Some 0, cc_EIP150Hash = replicate 32 0,
     cc_EIP155Block = Some 0, cc_EIP158Block = Some 0, cc_ByzantiumBlock = Some 0,
     cc_ConstantinopleBlock = Some 0, cc_PetersburgBlock = Some 0, cc_IstanbulBlock = Some 0,
     cc_MuirGlacierBlock = Some 0, cc_BerlinBlock = Some 0, cc_LondonBlock = Some 0, cc_CatalystBlock = None\<rparr>"

fun isForked :: "int option \<Rightarrow> int option \<Rightarrow> bool" where
  "isForked (Some s) (Some head) = (s \<le> head)"
| "isForked _ _ = False"

fun configNumEqual :: "int option \<Rightarrow> int option \<Rightarrow> bool" where
  "configNumEqual None y = (y = None)"
| "configNumEqual (Some x) None = False"
| "configNumEqual (Some x) (Some y) = (x = y)"

definition isForkIncompatible :: "int option \<Rightarrow> int option \<Rightarrow> int option \<Rightarrow> bool" where
  "isForkIncompatible s1 s2 head = ((isForked s1 head \<or> isForked s2 head) \<and> \<not> configNumEqual s1 s2)"

definition IsHomestead :: "ChainConfig \<Rightarrow> int option \<Rightarrow> bool" where
  "IsHomestead c num = isForked (cc_HomesteadBlock c) num"

definition IsDAOFork :: "ChainConfig \<Rightarrow> int option \<Rightarrow> bool" where
  "IsDAOFork c num = isForked (cc_DAOForkBlock c) num"

definition IsEIP150 :: "ChainConfig \<Rightarrow> int option \<Rightarrow> bool" where
  "IsEIP150 c num = isForked (cc_EIP150Block c) num"

definition IsEIP155 :: "ChainConfig \<Rightarrow> int option \<Rightarrow> bool" where
  "IsEIP155 c num = isForked (cc_EIP155Block c) num"

definition IsEIP158 :: "ChainConfig \<Rightarrow> int option \<Rightarrow> bool" where
  "IsEIP158 c num = isForked (cc_EIP158Block c) num"

definition IsByzantium :: "ChainConfig \<Rightarrow> int option \<Rightarrow> bool" where
  "IsByzantium c num = isForked (cc_ByzantiumBlock c) num"

definition IsConstantinople :: "ChainConfig \<Rightarrow> int option \<Rightarrow> bool" where
  "IsConstantinople c num = isForked (cc_ConstantinopleBlock c) num"

definition IsMuirGlacier :: "ChainConfig \<Rightarrow> int option \<Rightarrow> bool" where
  "IsMuirGlacier c num = isForked (cc_MuirGlacierBlock c) num"

definition IsPetersburg :: "ChainConfig \<Rightarrow> int option \<Rightarrow> bool" where
  "IsPetersburg c num = (isForked (cc_PetersburgBlock c) num
     \<or> cc_PetersburgBlock c = None \<and> isForked (cc_ConstantinopleBlock c) num)"

definition IsIstanbul :: "ChainConfig \<Rightarrow> int option \<Rightarrow> bool" where
  "IsIstanbul c num = isForked (cc_IstanbulBlock c) num"

definition IsBerlin :: "ChainConfig \<Rightarrow> int option \<Rightarrow> bool" where
  "IsBerlin c num = isForked (cc_BerlinBlock c) num"

definition IsLondon :: "ChainConfig \<Rightarrow> int option \<Rightarrow> bool" where
  "IsLondon c num = isForked (cc_LondonBlock c) num"

definition IsCatalyst :: "ChainConfig \<Rightarrow> int option \<Rightarrow> bool" where
  "IsCatalyst c num = isForked (cc_CatalystBlock c) num"

lemmas fork_defs = IsHomestead_def IsDAOFork_def IsEIP150_def IsEIP155_def IsEIP158_def IsByzantium_def
  IsConstantinople_def IsMuirGlacier_def IsPetersburg_def IsIstanbul_def IsBerlin_def IsLondon_def IsCatalyst_def

record ChainRules =
  cr_ChainID :: int
  cr_IsHomestead :: bool
  cr_IsEIP150 :: bool
  cr_IsEIP155 :: bool
  cr_IsEIP158 :: bool
  cr_IsByzantium :: bool
  cr_IsConstantinople :: bool
  cr_IsPetersburg :: bool
  cr_IsIstanbul :: bool
  cr_IsBerlin :: bool
  cr_IsLondon :: bool
  cr_IsCatalyst :: bool

definition ChainConfig_Rules :: "ChainConfig \<Rightarrow> int option \<Rightarrow> ChainRules" where
  "ChainConfig_Rules c num = \<lparr>cr_ChainID = (case cc_ChainID c of None \<Rightarrow> 0 | Some i \<Rightarrow> i),
     cr_IsHomestead = IsHomestead c num, cr_IsEIP150 = IsEIP150 c num, cr_IsEIP155 = IsEIP155 c num,
     cr_IsEIP158 = IsEIP158 c num, cr_IsByzantium = IsByzantium c num,
     cr_IsConstantinople = IsConstantinople c num, cr_IsPetersburg = IsPetersburg c num,
     cr_IsIstanbul = IsIstanbul c num, cr_IsBerlin = IsBerlin c num, cr_IsLondon = IsLondon c num,
     cr_IsCatalyst = IsCatalyst c num\<rparr>"

section \<open>Compatibility of two schedules\<close>

record ConfigCompatError =
  ce_What :: string
  ce_StoredConfig :: "int option"
  ce_NewConfig :: "int option"
  ce_RewindTo :: u64

text \<open>\<^verbatim>\<open>big.Int.Uint64\<close> keeps the low 64 bits of the magnitude.\<close>

definition newCompatError :: "string \<Rightarrow> int option \<Rightarrow> int option \<Rightarrow> ConfigCompatError" where
  "newCompatError what stored new =
     (let rew = (case (stored, new) of (None, _) \<Rightarrow> new
                  | (Some s, None) \<Rightarrow> stored
                  | (Some s, Some n) \<Rightarrow> if s < n then stored else new)
      in \<lparr>ce_What = what, ce_StoredConfig = stored, ce_NewConfig = new,
          ce_RewindTo = (case rew of None \<Rightarrow> 0 | Some r \<Rightarrow> if r > 0 then word_of_int r - 1 else 0)\<rparr>)"

definition checkCompatible :: "ChainConfig \<Rightarrow> ChainConfig \<Rightarrow> int option \<Rightarrow> ConfigCompatError option" where
  "checkCompatible c newcfg head =
   (if isForkIncompatible (cc_HomesteadBlock c) (cc_HomesteadBlock newcfg) head
    then Some (newCompatError ''Homestead fork block'' (cc_HomesteadBlock c) (cc_HomesteadBlock newcfg))
    else if isForkIncompatible (cc_DAOForkBlock c) (cc_DAOForkBlock newcfg) head
    then Some (newCompatError ''DAO fork block'' (cc_DAOForkBlock c) (cc_DAOForkBlock newcfg))
    else if IsDAOFork c head \<and> cc_DAOForkSupport c \<noteq> cc_DAOForkSupport newcfg
    then Some (newCompatError ''DAO fork support flag'' (cc_DAOForkBlock c) (cc_DAOForkBlock newcfg))
    else if isForkIncompatible (cc_EIP150Block c) (cc_EIP150Block newcfg) head
    then Some (newCompatError ''EIP150 fork block'' (cc_EIP150Block c) (cc_EIP150Block newcfg))
    else if isForkIncompatible (cc_EIP155Block c) (cc_EIP155Block newcfg) head
    then Some (newCompatError ''EIP155 fork block'' (cc_EIP155Block c) (cc_EIP155Block newcfg))
    else if isForkIncompatible (cc_EIP158Block c) (cc_EIP158Block newcfg) head
    then Some (newCompatError ''EIP158 fork block'' (cc_EIP158Block c) (cc_EIP158Block newcfg))
    else if IsEIP158 c head \<and> \<not> configNumEqual (cc_ChainID c) (cc_ChainID newcfg)
    then Some (newCompatError ''EIP158 chain ID'' (cc_EIP158Block c) (cc_EIP158Block newcfg))
    else if isForkIncompatible (cc_ByzantiumBlock c) (cc_ByzantiumBlock newcfg) head
    then Some (newCompatError ''Byzantium fork block'' (cc_ByzantiumBlock c) (cc_ByzantiumBlock newcfg))
    else if isForkIncompatible (cc_ConstantinopleBlock c) (cc_ConstantinopleBlock newcfg) head
    then Some (newCompatError ''Constantinople fork block'' (cc_ConstantinopleBlock c) (cc_ConstantinopleBlock newcfg))
    else if isForkIncompatible (cc_PetersburgBlock c) (cc_PetersburgBlock newcfg) head
       \<and> isForkIncompatible (cc_ConstantinopleBlock c) (cc_PetersburgBlock newcfg) head
    then Some (newCompatError ''Petersburg fork block'' (cc_PetersburgBlock c) (cc_PetersburgBlock newcfg))
    else if isForkIncompatible (cc_IstanbulBlock c) (cc_IstanbulBlock newcfg) head
    then Some (newCompatError ''Istanbul fork block'' (cc_IstanbulBlock c) (cc_IstanbulBlock newcfg))
    else if isForkIncompatible (cc_MuirGlacierBlock c) (cc_MuirGlacierBlock newcfg) head
    then Some (newCompatError ''Muir Glacier fork block'' (cc_MuirGlacierBlock c) (cc_MuirGlacierBlock newcfg))
    else if isForkIncompatible (cc_BerlinBlock c) (cc_BerlinBlock newcfg) head
    then Some (newCompatError ''Berlin fork block'' (cc_BerlinBlock c) (cc_BerlinBlock newcfg))
    else if isForkIncompatible (cc_LondonBlock c) (cc_LondonBlock newcfg) head
    then Some (newCompatError ''London fork block'' (cc_LondonBlock c) (cc_LondonBlock newcfg))
    else None)"

lemma configNumEqual_iff [simp]: "configNumEqual x y \<longleftrightarrow> x = y"
  by (cases x; cases y) auto

lemma isForked_iff: "isForked s (Some h) \<longleftrightarrow> (\<exists>b. s = Some b \<and> b \<le> h)"
  by (cases s) auto

text \<open>An error that concerns a fork which is active in one of the schedules asks for a lower head.\<close>

lemma newCompatError_rewinds:
  assumes active: "isForked s (Some (uint head)) \<or> isForked n (Some (uint head))"
  shows "ce_RewindTo (newCompatError w s n) < head \<or> ce_RewindTo (newCompatError w s n) = 0"
proof -
  define rew where "rew = (case (s, n) of (None, _) \<Rightarrow> n | (Some a, None) \<Rightarrow> s | (Some a, Some b) \<Rightarrow> if a < b then s else n)"
  have "\<exists>r. rew = Some r \<and> r \<le> uint head"
    using active unfolding rew_def by (cases s; cases n) (auto simp: isForked_iff)
  then obtain r where r: "rew = Some r" "r \<le> uint head" by blast
  have eq: "ce_RewindTo (newCompatError w s n) = (if r > 0 then word_of_int r - 1 else 0)"
    using r(1) unfolding rew_def by (simp add: newCompatError_def Let_def split: option.splits)
  show ?thesis
  proof (cases "r > 0")
    case True
    have "uint head < 2 ^ 64" using uint_bounded [of head] by simp
    with True r(2) have "uint (word_of_int r :: u64) = r"
      by (simp add: uint_word_of_int)
    with True r(2) have "word_of_int r - 1 < head"
      using uint_minus_simple_alt [of 1 "word_of_int r :: u64"]
      by (simp add: word_less_def uint_sub_if')
    with True eq show ?thesis by simp
  qed (simp add: eq)
qed

lemma isForkIncompatible_active:
  "isForkIncompatible s n h \<Longrightarrow> isForked s h \<or> isForked n h"
  by (simp add: isForkIncompatible_def)

lemma guard_SomeE:
  assumes "(if P then Some e else r) = Some err"
  obtains "P" "e = err" | "r = Some err"
  using assms by (auto split: if_splits)

lemma guard_None: "(if P then Some e else r) = None \<longleftrightarrow> \<not> P \<and> r = None"
  by simp

lemma checkCompatible_rewinds:
  assumes "checkCompatible c n (Some (uint head)) = Some err"
  shows "ce_RewindTo err < head \<or> ce_RewindTo err = 0"
proof -
  have fin: ?thesis if "newCompatError w s m = err" "isForked s (Some (uint head)) \<or> isForked m (Some (uint head))" for w s m
    using newCompatError_rewinds [OF that(2)] that(1) by blast
  show ?thesis
    using assms unfolding checkCompatible_def IsDAOFork_def IsEIP158_def
    by (elim guard_SomeE conjE) (erule fin, (erule isForkIncompatible_active | erule disjI1) | simp)+
qed

text \<open>
  The loop of \<^verbatim>\<open>CheckCompatible\<close>.  The head falls with every round until an error repeats, so it ends.
\<close>

function compat_loop :: "ChainConfig \<Rightarrow> ChainConfig \<Rightarrow> ConfigCompatError option \<Rightarrow> u64 \<Rightarrow> ConfigCompatError option" where
  "compat_loop c newcfg lasterr bhead =
     (case checkCompatible c newcfg (Some (uint bhead)) of
        None \<Rightarrow> lasterr
      | Some err \<Rightarrow>
          if (case lasterr of None \<Rightarrow> False | Some l \<Rightarrow> ce_RewindTo err = ce_RewindTo l) then lasterr
          else compat_loop c newcfg (Some err) (ce_RewindTo err))"
  by pat_completeness auto
termination
proof (relation "measure (\<lambda>(c, n, l, h). 2 * unat h + (case l of None \<Rightarrow> 1 | Some e \<Rightarrow> if ce_RewindTo e = 0 then 0 else 1))",
    goal_cases)
  case (2 c n l h err)
  then have "ce_RewindTo err < h \<or> ce_RewindTo err = 0" by (intro checkCompatible_rewinds)
  with 2(2) show ?case
    by (cases "h = 0") (auto simp: word_less_nat_alt unat_eq_0 unat_gt_0 split: option.splits if_splits)
qed simp

declare compat_loop.simps [simp del]

definition CheckCompatible :: "ChainConfig \<Rightarrow> ChainConfig \<Rightarrow> u64 \<Rightarrow> ConfigCompatError option" where
  "CheckCompatible c newcfg height = compat_loop c newcfg None height"

section \<open>Order of the forks\<close>

record fork =
  fk_name :: string
  fk_block :: "int option"
  fk_optional :: bool





section \<open>Properties\<close>

lemma isForked_mono: "isForked s (Some h') \<Longrightarrow> h' \<le> h \<Longrightarrow> isForked s (Some h)"
  by (auto simp: isForked_iff)



lemma compat_loop_result:
  assumes "compat_loop c n l h = r"
  shows "(r = l \<and> (checkCompatible c n (Some (uint h)) = None
            \<or> (\<exists>e e'. checkCompatible c n (Some (uint h)) = Some e \<and> l = Some e' \<and> ce_RewindTo e = ce_RewindTo e')))
       \<or> (\<exists>err. r = Some err \<and> ce_RewindTo err \<le> h
            \<and> (ce_RewindTo err = 0 \<or> checkCompatible c n (Some (uint (ce_RewindTo err))) = None))"
  using assms
proof (induction c n l h arbitrary: r rule: compat_loop.induct)
  case (1 c n l h)
  show ?case
  proof (cases "checkCompatible c n (Some (uint h))")
    case None
    with 1 show ?thesis by (simp add: compat_loop.simps [of c n l h])
  next
    case (Some err)
    show ?thesis
    proof (cases "case l of None \<Rightarrow> False | Some l' \<Rightarrow> ce_RewindTo err = ce_RewindTo l'")
      case True
      with 1(2) Some show ?thesis
        by (auto simp: compat_loop.simps [of c n l h] split: option.splits)
    next
      case False
      have down: "ce_RewindTo err \<le> h"
        using checkCompatible_rewinds [OF Some] by auto
      have r: "compat_loop c n (Some err) (ce_RewindTo err) = r"
        using 1(2) Some False by (simp add: compat_loop.simps [of c n l h])
      have repeat: "ce_RewindTo err = 0" if "checkCompatible c n (Some (uint (ce_RewindTo err))) = Some e"
        and "ce_RewindTo e = ce_RewindTo err" for e
        using checkCompatible_rewinds [OF that(1)] that(2) by auto
      from 1(1) [OF Some False r] show ?thesis
        using down repeat by (auto intro: order_trans)
    qed
  qed
qed

lemma CheckCompatible_None:
  "CheckCompatible c n h = None \<longleftrightarrow> checkCompatible c n (Some (uint h)) = None"
proof
  assume "CheckCompatible c n h = None"
  then show "checkCompatible c n (Some (uint h)) = None"
    using compat_loop_result [of c n None h None] by (auto simp: CheckCompatible_def)
next
  assume "checkCompatible c n (Some (uint h)) = None"
  then show "CheckCompatible c n h = None" by (simp add: CheckCompatible_def compat_loop.simps)
qed

text \<open>Two fork blocks a compatible pair of schedules gives: both in the future, or the same.\<close>

lemma compatible_isForked:
  "\<not> isForkIncompatible s n (Some h) \<Longrightarrow> b \<le> h \<Longrightarrow> isForked s (Some b) = isForked n (Some b)"
  by (auto simp: isForkIncompatible_def isForked_iff)







section \<open>Theorems\<close>

text \<open>
  C17. A schedule that \<^verbatim>\<open>CheckCompatible\<close> lets a node at block \<open>h\<close> adopt does not rewrite its past: at
  every block up to \<open>h\<close> the two schedules have the same forks active (Petersburg and Catalyst apart), the
  same answer on the DAO fork, and, once EIP-158 is active, the same chain identifier.
\<close>

theorem compatible_keeps_history:
  assumes "CheckCompatible c n h = None" and "b \<le> uint h"
  shows "(ChainConfig_Rules c (Some b))\<lparr>cr_ChainID := 0, cr_IsPetersburg := False, cr_IsCatalyst := False\<rparr>
       = (ChainConfig_Rules n (Some b))\<lparr>cr_ChainID := 0, cr_IsPetersburg := False, cr_IsCatalyst := False\<rparr>
     \<and> IsDAOFork c (Some b) = IsDAOFork n (Some b) \<and> IsMuirGlacier c (Some b) = IsMuirGlacier n (Some b)
     \<and> (IsDAOFork c (Some b) \<longrightarrow> cc_DAOForkSupport c = cc_DAOForkSupport n)
     \<and> (IsEIP158 c (Some b) \<longrightarrow> cc_ChainID c = cc_ChainID n)"
proof -
  have ok: "checkCompatible c n (Some (uint h)) = None" using assms(1) by (simp add: CheckCompatible_None)
  note mono = isForked_mono [OF _ assms(2)]
  show ?thesis
    using ok mono unfolding checkCompatible_def guard_None ChainConfig_Rules_def fork_defs
    by (auto dest: compatible_isForked [OF _ assms(2)])
qed

text \<open>The schedule of all protocol changes, with London at block 100, may be moved to 200 at block 50.\<close>

theorem compatible_keeps_history_witness:
  "CheckCompatible (AllProtocolChanges\<lparr>cc_LondonBlock := Some 100\<rparr>) (AllProtocolChanges\<lparr>cc_LondonBlock := Some 200\<rparr>) 50 = None
   \<and> IsLondon (AllProtocolChanges\<lparr>cc_LondonBlock := Some 100\<rparr>) (Some 50) = IsLondon (AllProtocolChanges\<lparr>cc_LondonBlock := Some 200\<rparr>) (Some 50)"
proof -
  have ok: "CheckCompatible (AllProtocolChanges\<lparr>cc_LondonBlock := Some 100\<rparr>) (AllProtocolChanges\<lparr>cc_LondonBlock := Some 200\<rparr>) 50 = None"
    by (simp add: CheckCompatible_None checkCompatible_def AllProtocolChanges_def isForkIncompatible_def fork_defs)
  then show ?thesis
    using compatible_keeps_history [OF ok, of 50] by (simp add: ChainConfig_Rules_def)
qed






end
