(* ===== verification/Rules.thy ===== *)
theory Rules
  imports NativeEvent ChainConfig
begin

text \<open>
  The network rules of the package \<^verbatim>\<open>sesa\<close> (\<^verbatim>\<open>rules.go\<close>): the constants of the DAG, of epochs, blocks
  and gas, the rules of the three networks, and the EVM fork schedule derived from the heights at which
  upgrades were switched.  Durations are nanoseconds.
\<close>

section \<open>Rules\<close>

record GasPowerRules =
  gp_AllocPerSec :: u64
  gp_MaxAllocPeriod :: u64
  gp_StartupAllocPeriod :: u64
  gp_MinStartupGas :: u64

record GasRules =
  gr_MaxEventGas :: u64
  gr_EventGas :: u64
  gr_ParentGas :: u64
  gr_ExtraDataGas :: u64
  gr_BlockVotesBaseGas :: u64
  gr_BlockVoteGas :: u64
  gr_EpochVoteGas :: u64
  gr_MisbehaviourProofGas :: u64

record EpochsRules =
  er_MaxEpochGas :: u64
  er_MaxEpochDuration :: u64

record DagRules =
  dr_MaxParents :: u32
  dr_MaxFreeParents :: u32
  dr_MaxExtraData :: u32

record EconomyRules =
  ec_BlockMissedSlack :: u64
  ec_Gas :: GasRules
  ec_MinGasPrice :: int
  ec_ShortGasPower :: GasPowerRules
  ec_LongGasPower :: GasPowerRules

record BlocksRules =
  br_MaxBlockGas :: u64
  br_MaxEmptyBlockSkipPeriod :: u64

record Upgrades =
  up_Berlin :: bool
  up_London :: bool
  up_Llr :: bool

record Rules =
  ru_Name :: string
  ru_NetworkID :: u64
  ru_Dag :: DagRules
  ru_Epochs :: EpochsRules
  ru_Blocks :: BlocksRules
  ru_Economy :: EconomyRules
  ru_Upgrades :: Upgrades


definition MainNetworkID :: u64 where "MainNetworkID = 39"
definition TestNetworkID :: u64 where "TestNetworkID = 2484"
definition FakeNetworkID :: u64 where "FakeNetworkID = 4439"
definition DefaultEventGas :: u64 where "DefaultEventGas = 28000"

text \<open>The constants of package \<^verbatim>\<open>time\<close>, in nanoseconds.\<close>

definition Second :: u64 where "Second = 1000000000"
definition Minute :: u64 where "Minute = 60 * Second"

definition DefaultDagRules :: DagRules where
  "DefaultDagRules = \<lparr>dr_MaxParents = 10, dr_MaxFreeParents = 3, dr_MaxExtraData = 128\<rparr>"

definition DefaultEpochsRules :: EpochsRules where
  "DefaultEpochsRules = \<lparr>er_MaxEpochGas = 300000000, er_MaxEpochDuration = 7 * Minute\<rparr>"

definition DefaultGasRules :: GasRules where
  "DefaultGasRules = \<lparr>gr_MaxEventGas = 10000000 + DefaultEventGas, gr_EventGas = DefaultEventGas,
     gr_ParentGas = 2400, gr_ExtraDataGas = 25, gr_BlockVotesBaseGas = 1024, gr_BlockVoteGas = 512,
     gr_EpochVoteGas = 1536, gr_MisbehaviourProofGas = 71536\<rparr>"

definition FakeNetEpochsRules :: EpochsRules where
  "FakeNetEpochsRules = (let cfg = DefaultEpochsRules in
     \<lparr>er_MaxEpochGas = er_MaxEpochGas cfg div 5, er_MaxEpochDuration = 5 * Second\<rparr>)"

definition DefaulLongGasPowerRules :: GasPowerRules where
  "DefaulLongGasPowerRules = \<lparr>gp_AllocPerSec = 100 * DefaultEventGas, gp_MaxAllocPeriod = 60 * Minute,
     gp_StartupAllocPeriod = 5 * Second, gp_MinStartupGas = DefaultEventGas * 20\<rparr>"

definition DefaultShortGasPowerRules :: GasPowerRules where
  "DefaultShortGasPowerRules = (let cfg = DefaulLongGasPowerRules in
     cfg\<lparr>gp_AllocPerSec := gp_AllocPerSec cfg * 2, gp_StartupAllocPeriod := gp_StartupAllocPeriod cfg div 2,
         gp_MaxAllocPeriod := gp_MaxAllocPeriod cfg div (2 * 6)\<rparr>)"

definition FakeLongGasPowerRules :: GasPowerRules where
  "FakeLongGasPowerRules = (let config = DefaulLongGasPowerRules in
     config\<lparr>gp_AllocPerSec := gp_AllocPerSec config * 1000\<rparr>)"

definition FakeShortGasPowerRules :: GasPowerRules where
  "FakeShortGasPowerRules = (let config = DefaultShortGasPowerRules in
     config\<lparr>gp_AllocPerSec := gp_AllocPerSec config * 1000\<rparr>)"

definition DefaultEconomyRules :: EconomyRules where
  "DefaultEconomyRules = \<lparr>ec_BlockMissedSlack = 50, ec_Gas = DefaultGasRules, ec_MinGasPrice = 1000000000,
     ec_ShortGasPower = DefaultShortGasPowerRules, ec_LongGasPower = DefaulLongGasPowerRules\<rparr>"

definition FakeEconomyRules :: EconomyRules where
  "FakeEconomyRules = DefaultEconomyRules
     \<lparr>ec_ShortGasPower := FakeShortGasPowerRules, ec_LongGasPower := FakeLongGasPowerRules\<rparr>"

definition MainNetRules :: Rules where
  "MainNetRules = \<lparr>ru_Name = ''main'', ru_NetworkID = MainNetworkID, ru_Dag = DefaultDagRules,
     ru_Epochs = DefaultEpochsRules,
     ru_Blocks = \<lparr>br_MaxBlockGas = 20500000, br_MaxEmptyBlockSkipPeriod = 1 * Second\<rparr>,
     ru_Economy = DefaultEconomyRules,
     ru_Upgrades = \<lparr>up_Berlin = True, up_London = True, up_Llr = True\<rparr>\<rparr>"

definition TestNetRules :: Rules where
  "TestNetRules = \<lparr>ru_Name = ''test'', ru_NetworkID = TestNetworkID, ru_Dag = DefaultDagRules,
     ru_Epochs = DefaultEpochsRules,
     ru_Blocks = \<lparr>br_MaxBlockGas = 20500000, br_MaxEmptyBlockSkipPeriod = 1 * Second\<rparr>,
     ru_Economy = DefaultEconomyRules,
     ru_Upgrades = \<lparr>up_Berlin = True, up_London = True, up_Llr = True\<rparr>\<rparr>"

definition FakeNetRules :: Rules where
  "FakeNetRules = \<lparr>ru_Name = ''fake'', ru_NetworkID = FakeNetworkID, ru_Dag = DefaultDagRules,
     ru_Epochs = FakeNetEpochsRules,
     ru_Blocks = \<lparr>br_MaxBlockGas = 20500000, br_MaxEmptyBlockSkipPeriod = 3 * Second\<rparr>,
     ru_Economy = FakeEconomyRules,
     ru_Upgrades = \<lparr>up_Berlin = True, up_London = True, up_Llr = True\<rparr>\<rparr>"

lemmas rules_defs = MainNetRules_def TestNetRules_def FakeNetRules_def DefaultEconomyRules_def FakeEconomyRules_def
  DefaultDagRules_def DefaultEpochsRules_def FakeNetEpochsRules_def DefaultGasRules_def DefaulLongGasPowerRules_def
  DefaultShortGasPowerRules_def FakeLongGasPowerRules_def FakeShortGasPowerRules_def DefaultEventGas_def
  Second_def Minute_def MainNetworkID_def TestNetworkID_def FakeNetworkID_def

section \<open>The EVM schedule of the upgrades\<close>














end
