(* ===== verification/GasPowerCheck.thy ===== *)
theory GasPowerCheck
  imports BasicCheck Rules
begin

text \<open>
  Gas power (\<^verbatim>\<open>eventcheck/gaspowercheck\<close>): a validator accumulates gas at a rate proportional to its stake,
  up to a maximum, and every event states how much is left after it.  The validator set of go-vassalo is an
  argument, the record \<open>Validators\<close> of its three methods used here.  \<^verbatim>\<open>big.Int.Uint64\<close> keeps the low 64 bits.
\<close>

section \<open>Context\<close>

record Validators =
  vs_Get :: "u32 \<Rightarrow> u32"
  vs_TotalWeight :: u32
  vs_GetIdx :: "u32 \<Rightarrow> nat"

record EventInfo =
  ei_ID :: hash
  ei_GasPowerLeft :: GasPowerLeft
  ei_Time :: u64

record ValidatorState =
  vst_PrevEpochEvent :: EventInfo
  vst_GasRefund :: u64

record Config =
  cf_Idx :: nat
  cf_AllocPerSec :: u64
  cf_MaxAllocPeriod :: u64
  cf_MinEnsuredAlloc :: u64
  cf_StartupAllocPeriod :: u64
  cf_MinStartupGas :: u64

record ValidationContext =
  vx_Epoch :: u32
  vx_Configs :: "Config \<times> Config"
  vx_EpochStart :: u64
  vx_Validators :: Validators
  vx_ValidatorStates :: "ValidatorState list"

section \<open>Calculation\<close>

definition CalcValidatorGasPowerPerSec :: "u32 \<Rightarrow> Validators \<Rightarrow> Config \<Rightarrow> (u64 \<times> u64 \<times> u64) outcome" where
  "CalcValidatorGasPowerPerSec v vs gas =
     (let stake = vs_Get vs v in
      if stake = 0 then Ok (0, 0, 0)
      else if vs_TotalWeight vs = 0 then Panic
      else
        let perSec = word_of_nat (unat (cf_AllocPerSec gas) * unat stake div unat (vs_TotalWeight vs)) :: u64;
            maxGasPower = perSec * (cf_MaxAllocPeriod gas div Second);
            maxGasPower = (if maxGasPower < cf_MinEnsuredAlloc gas then cf_MinEnsuredAlloc gas else maxGasPower);
            startup = perSec * (cf_StartupAllocPeriod gas div Second);
            startup = (if startup < cf_MinStartupGas gas then cf_MinStartupGas gas else startup)
        in Ok (perSec, maxGasPower, startup))"

definition CalcValidatorGasPower :: "base_checkers \<Rightarrow> event_payload \<Rightarrow> u64 \<Rightarrow> u64 \<Rightarrow> u64 \<Rightarrow> Validators \<Rightarrow> Config \<Rightarrow> u64 outcome" where
  "CalcValidatorGasPower vc e eTime prevTime prevGasPowerLeft vs config =
     bind_outcome (CalcValidatorGasPowerPerSec (e_Creator e) vs config) (\<lambda>(gasPowerPerSec, maxGasPower, startup).
       let prevGasPowerLeft = (if dag_SelfParent vc e = None \<and> prevGasPowerLeft < startup then startup else prevGasPowerLeft);
           prevTime = (if prevTime > eTime then eTime else prevTime);
           allocated = unat (eTime - prevTime) * unat gasPowerPerSec div unat Second;
           gasPower = word_of_nat allocated + prevGasPowerLeft
       in Ok (if gasPower > maxGasPower then maxGasPower else gasPower))"

definition gas_at :: "GasPowerLeft \<Rightarrow> nat \<Rightarrow> u64 outcome" where
  "gas_at g i = (if i < length (Gas g) then Ok (Gas g ! i) else Panic)"

text \<open>The gas left and the time the calculation starts from.\<close>

definition calcGasPower :: "base_checkers \<Rightarrow> event_payload \<Rightarrow> event_payload option \<Rightarrow> ValidationContext \<Rightarrow> Config \<Rightarrow> u64 outcome" where
  "calcGasPower vc e selfParent ctx config =
     bind_outcome
       (if dag_SelfParent vc e \<noteq> None then
          (case selfParent of None \<Rightarrow> Panic
           | Some sp \<Rightarrow> bind_outcome (gas_at (e_gasPowerLeft sp) (cf_Idx config)) (\<lambda>g. Ok (g, e_medianTime sp)))
        else
          let i = vs_GetIdx (vx_Validators ctx) (e_Creator e) in
          if i < length (vx_ValidatorStates ctx) then
            let st = vx_ValidatorStates ctx ! i; prev = vst_PrevEpochEvent st in
            bind_outcome
              (if ei_ID prev \<noteq> Zero_hash
               then bind_outcome (gas_at (ei_GasPowerLeft prev) (cf_Idx config)) (\<lambda>g. Ok (g, ei_Time prev))
               else Ok (0, vx_EpochStart ctx))
              (\<lambda>(g, t). Ok (g + vst_GasRefund st, t))
          else Panic)
       (\<lambda>(prevGasPowerLeft, prevTime).
          CalcValidatorGasPower vc e (e_medianTime e) prevTime prevGasPowerLeft (vx_Validators ctx) config)"

definition CalcGasPower :: "base_checkers \<Rightarrow> ValidationContext \<Rightarrow> event_payload \<Rightarrow> event_payload option
    \<Rightarrow> (check_error + GasPowerLeft) outcome" where
  "CalcGasPower vc ctx e selfParent =
     (if vx_Epoch ctx \<noteq> e_Epoch e then Ok (Inl ErrNotRelevant)
      else bind_outcome (calcGasPower vc e selfParent ctx (fst (vx_Configs ctx))) (\<lambda>s.
           bind_outcome (calcGasPower vc e selfParent ctx (snd (vx_Configs ctx))) (\<lambda>l.
             Ok (Inr \<lparr>shortTermGas = s, longTermGas = l\<rparr>))))"

definition gas_Validate :: "base_checkers \<Rightarrow> ValidationContext \<Rightarrow> event_payload \<Rightarrow> event_payload option \<Rightarrow> verdict" where
  "gas_Validate vc ctx e selfParent = on_ok (CalcGasPower vc ctx e selfParent) (\<lambda>r. case r of
     Inl err \<Rightarrow> Reject err
   | Inr gasPowers \<Rightarrow> first_of
       [reject_if (shortTermGas (e_gasPowerLeft e) + e_gasPowerUsed e \<noteq> shortTermGas gasPowers) ErrWrongGasPowerLeft,
        reject_if (longTermGas (e_gasPowerLeft e) + e_gasPowerUsed e \<noteq> longTermGas gasPowers) ErrWrongGasPowerLeft])"

section \<open>Bounds\<close>

text \<open>Truncation to 64 bits and wrapping sums only ever take gas away.\<close>

lemma unat_word_of_nat_le: "unat (word_of_nat n :: u64) \<le> n"
  by (simp add: unat_of_nat)

lemma unat_add_le: "unat (a + b :: u64) \<le> unat a + unat b"
  by (simp add: unat_word_ariths)

lemma perSec_le:
  assumes "CalcValidatorGasPowerPerSec v vs cfg = Ok (p, m, s)"
  shows "unat p \<le> unat (cf_AllocPerSec cfg) * unat (vs_Get vs v) div unat (vs_TotalWeight vs)"
  using assms unat_word_of_nat_le by (auto simp: CalcValidatorGasPowerPerSec_def Let_def split: if_splits)

lemma CalcValidatorGasPower_le:
  assumes "CalcValidatorGasPower vc e t t0 g vs cfg = Ok pow" and "dag_SelfParent vc e \<noteq> None"
    and "CalcValidatorGasPowerPerSec (e_Creator e) vs cfg = Ok (p, m, s)"
  shows "pow \<le> m" and "unat pow \<le> unat g + (unat t - unat t0) * unat p div 1000000000"
proof -
  define dt where "dt = t - (if t0 > t then t else t0)"
  have dt: "unat dt = unat t - unat t0"
  proof (cases "t0 > t")
    case True
    then show ?thesis by (simp add: dt_def word_less_nat_alt)
  next
    case False
    then have "unat (t - t0) = unat t - unat t0" by (intro unat_sub) (simp add: not_less)
    with False show ?thesis by (simp add: dt_def)
  qed
  define gas where "gas = (word_of_nat (unat dt * unat p div unat Second) + g :: u64)"
  have pw: "pow = (if gas > m then m else gas)"
    using assms unfolding gas_def dt_def by (simp add: CalcValidatorGasPower_def Let_def)
  then show "pow \<le> m" by auto
  have "unat gas \<le> unat dt * unat p div 1000000000 + unat g"
    using unat_add_le [of "word_of_nat (unat dt * unat p div unat Second)" g]
      unat_word_of_nat_le [of "unat dt * unat p div unat Second"] by (simp add: gas_def Second_def)
  moreover have "unat pow \<le> unat gas" using pw by (auto simp: word_le_nat_alt [symmetric])
  ultimately show "unat pow \<le> unat g + (unat t - unat t0) * unat p div 1000000000" by (simp add: dt)
qed

section \<open>Chains of events\<close>

text \<open>Events of one validator, each accepted with its predecessor as self-parent; the time that passed along them.\<close>

fun gas_chain :: "base_checkers \<Rightarrow> ValidationContext \<Rightarrow> event_payload \<Rightarrow> event_payload list \<Rightarrow> bool" where
  "gas_chain vc ctx p [] = True"
| "gas_chain vc ctx p (e # es) = (dag_SelfParent vc e \<noteq> None \<and> e_Creator e = e_Creator p
     \<and> basic_Validate vc e = Accept \<and> gas_Validate vc ctx e (Some p) = Accept \<and> gas_chain vc ctx e es)"

fun elapsed :: "event_payload \<Rightarrow> event_payload list \<Rightarrow> nat" where
  "elapsed p [] = 0"
| "elapsed p (e # es) = (unat (e_medianTime e) - unat (e_medianTime p)) + elapsed e es"

lemma calcGasPower_self:
  assumes "dag_SelfParent vc e \<noteq> None" and "cf_Idx cfg < 2"
  shows "calcGasPower vc e (Some p) ctx cfg =
    CalcValidatorGasPower vc e (e_medianTime e) (e_medianTime p) (Gas (e_gasPowerLeft p) ! cf_Idx cfg) (vx_Validators ctx) cfg"
  using assms by (simp add: calcGasPower_def gas_at_def Gas_def)

lemma CalcGasPower_Inr:
  "CalcGasPower vc ctx e sp = Ok (Inr g) \<longleftrightarrow> vx_Epoch ctx = e_Epoch e
     \<and> calcGasPower vc e sp ctx (fst (vx_Configs ctx)) = Ok (shortTermGas g)
     \<and> calcGasPower vc e sp ctx (snd (vx_Configs ctx)) = Ok (longTermGas g)"
  by (cases g) (auto simp: CalcGasPower_def bind_outcome_eq_Ok)

lemma gas_Validate_Accept:
  "gas_Validate vc ctx e sp = Accept \<longleftrightarrow> (\<exists>g. CalcGasPower vc ctx e sp = Ok (Inr g)
     \<and> shortTermGas (e_gasPowerLeft e) + e_gasPowerUsed e = shortTermGas g
     \<and> longTermGas (e_gasPowerLeft e) + e_gasPowerUsed e = longTermGas g)"
proof -
  have "gas_Validate vc ctx e sp = Accept \<longleftrightarrow> (\<exists>r. CalcGasPower vc ctx e sp = Ok r \<and> (\<exists>g. r = Inr g
     \<and> shortTermGas (e_gasPowerLeft e) + e_gasPowerUsed e = shortTermGas g
     \<and> longTermGas (e_gasPowerLeft e) + e_gasPowerUsed e = longTermGas g))"
    unfolding gas_Validate_def on_ok_Accept by (intro ex_cong1 conj_cong refl) (simp split: sum.split)
  then show ?thesis by auto
qed

lemma gas_Validate_step:
  assumes "basic_Validate vc e = Accept" and "gas_Validate vc ctx e (Some p) = Accept" and sp: "dag_SelfParent vc e \<noteq> None"
    and idx: "cf_Idx (fst (vx_Configs ctx)) = 0" "cf_Idx (snd (vx_Configs ctx)) = 1"
    and rs: "CalcValidatorGasPowerPerSec (e_Creator e) (vx_Validators ctx) (fst (vx_Configs ctx)) = Ok (rs, ms, ss)"
    and rl: "CalcValidatorGasPowerPerSec (e_Creator e) (vx_Validators ctx) (snd (vx_Configs ctx)) = Ok (rl, ml, sl)"
  shows "unat (shortTermGas (e_gasPowerLeft e)) + unat (e_gasPowerUsed e)
      \<le> min (unat ms) (unat (shortTermGas (e_gasPowerLeft p)) + (unat (e_medianTime e) - unat (e_medianTime p)) * unat rs div 1000000000)"
    and "unat (longTermGas (e_gasPowerLeft e)) + unat (e_gasPowerUsed e)
      \<le> min (unat ml) (unat (longTermGas (e_gasPowerLeft p)) + (unat (e_medianTime e) - unat (e_medianTime p)) * unat rl div 1000000000)"
proof -
  obtain g where g: "CalcGasPower vc ctx e (Some p) = Ok (Inr g)"
    and left: "shortTermGas (e_gasPowerLeft e) + e_gasPowerUsed e = shortTermGas g"
      "longTermGas (e_gasPowerLeft e) + e_gasPowerUsed e = longTermGas g"
    using assms(2) unfolding gas_Validate_Accept by blast
  have s: "CalcValidatorGasPower vc e (e_medianTime e) (e_medianTime p) (shortTermGas (e_gasPowerLeft p)) (vx_Validators ctx) (fst (vx_Configs ctx)) = Ok (shortTermGas g)"
    and l: "CalcValidatorGasPower vc e (e_medianTime e) (e_medianTime p) (longTermGas (e_gasPowerLeft p)) (vx_Validators ctx) (snd (vx_Configs ctx)) = Ok (longTermGas g)"
    using g idx unfolding CalcGasPower_Inr by (simp_all add: calcGasPower_self [OF sp] Gas_def)
  show "unat (shortTermGas (e_gasPowerLeft e)) + unat (e_gasPowerUsed e)
      \<le> min (unat ms) (unat (shortTermGas (e_gasPowerLeft p)) + (unat (e_medianTime e) - unat (e_medianTime p)) * unat rs div 1000000000)"
    using CalcValidatorGasPower_le [OF s sp rs] basic_gas_no_wrap(1) [OF assms(1)] left(1)
    by (simp add: word_le_nat_alt)
  show "unat (longTermGas (e_gasPowerLeft e)) + unat (e_gasPowerUsed e)
      \<le> min (unat ml) (unat (longTermGas (e_gasPowerLeft p)) + (unat (e_medianTime e) - unat (e_medianTime p)) * unat rl div 1000000000)"
    using CalcValidatorGasPower_le [OF l sp rl] basic_gas_no_wrap(2) [OF assms(1)] left(2)
    by (simp add: word_le_nat_alt)
qed

lemma div_superadditive: "a div k + b div k \<le> (a + b) div (k :: nat)"
  using div_add1_eq [of a b k] by linarith

lemma chain_budget:
  assumes "gas_chain vc ctx p es" and "\<And>e q. dag_SelfParent vc e \<noteq> None \<Longrightarrow> e_Creator e = e_Creator p \<Longrightarrow> basic_Validate vc e = Accept
      \<Longrightarrow> gas_Validate vc ctx e (Some q) = Accept
      \<Longrightarrow> gas_of e + unat (e_gasPowerUsed e) \<le> gas_of q + (unat (e_medianTime e) - unat (e_medianTime q)) * r div k"
  shows "sum_list (map (\<lambda>e. unat (e_gasPowerUsed e)) es) + gas_of (last (p # es)) \<le> gas_of p + elapsed p es * r div k"
  using assms
proof (induction es arbitrary: p)
  case (Cons e es)
  let ?d = "unat (e_medianTime e) - unat (e_medianTime p)"
  have "gas_of e + unat (e_gasPowerUsed e) \<le> gas_of p + ?d * r div k"
    using Cons.prems(1) by (intro Cons.prems(2)) auto
  moreover have "sum_list (map (\<lambda>e. unat (e_gasPowerUsed e)) es) + gas_of (last (e # es)) \<le> gas_of e + elapsed e es * r div k"
    using Cons.prems by (intro Cons.IH) auto
  moreover have "?d * r div k + elapsed e es * r div k \<le> elapsed p (e # es) * r div k"
    using div_superadditive [of "?d * r" k "elapsed e es * r"] by (simp add: add_mult_distrib)
  ultimately show ?case by simp
qed simp

text \<open>
  C23. Gas power limits the rate of a validator.  Along any chain of accepted events the gas the events use,
  together with what the last one has left, is at most what the first had left plus what the rate of the
  validator allocates over the time that passed; for the short-term and for the long-term gas power.  No
  product or sum of the calculation can wrap to a larger value.
\<close>

theorem gas_power_limits_rate:
  assumes "gas_chain vc ctx p es"
    and "cf_Idx (fst (vx_Configs ctx)) = 0" "cf_Idx (snd (vx_Configs ctx)) = 1"
    and "CalcValidatorGasPowerPerSec (e_Creator p) (vx_Validators ctx) (fst (vx_Configs ctx)) = Ok (rs, ms, ss)"
    and "CalcValidatorGasPowerPerSec (e_Creator p) (vx_Validators ctx) (snd (vx_Configs ctx)) = Ok (rl, ml, sl)"
  shows "sum_list (map (\<lambda>e. unat (e_gasPowerUsed e)) es) + unat (shortTermGas (e_gasPowerLeft (last (p # es))))
       \<le> unat (shortTermGas (e_gasPowerLeft p)) + elapsed p es * unat rs div 1000000000
     \<and> sum_list (map (\<lambda>e. unat (e_gasPowerUsed e)) es) + unat (longTermGas (e_gasPowerLeft (last (p # es))))
       \<le> unat (longTermGas (e_gasPowerLeft p)) + elapsed p es * unat rl div 1000000000"
proof (intro conjI)
  show "sum_list (map (\<lambda>e. unat (e_gasPowerUsed e)) es) + unat (shortTermGas (e_gasPowerLeft (last (p # es))))
       \<le> unat (shortTermGas (e_gasPowerLeft p)) + elapsed p es * unat rs div 1000000000"
  proof (rule chain_budget [OF assms(1), where gas_of = "\<lambda>e. unat (shortTermGas (e_gasPowerLeft e))"])
    fix e q
    assume e: "dag_SelfParent vc e \<noteq> None" "e_Creator e = e_Creator p" "basic_Validate vc e = Accept"
      "gas_Validate vc ctx e (Some q) = Accept"
    note rates = assms(4,5) [folded e(2)]
    from gas_Validate_step(1) [OF e(3,4,1) assms(2,3) rates]
    show "unat (shortTermGas (e_gasPowerLeft e)) + unat (e_gasPowerUsed e)
      \<le> unat (shortTermGas (e_gasPowerLeft q)) + (unat (e_medianTime e) - unat (e_medianTime q)) * unat rs div 1000000000"
      by simp
  qed
  show "sum_list (map (\<lambda>e. unat (e_gasPowerUsed e)) es) + unat (longTermGas (e_gasPowerLeft (last (p # es))))
       \<le> unat (longTermGas (e_gasPowerLeft p)) + elapsed p es * unat rl div 1000000000"
  proof (rule chain_budget [OF assms(1), where gas_of = "\<lambda>e. unat (longTermGas (e_gasPowerLeft e))"])
    fix e q
    assume e: "dag_SelfParent vc e \<noteq> None" "e_Creator e = e_Creator p" "basic_Validate vc e = Accept"
      "gas_Validate vc ctx e (Some q) = Accept"
    note rates = assms(4,5) [folded e(2)]
    from gas_Validate_step(2) [OF e(3,4,1) assms(2,3) rates]
    show "unat (longTermGas (e_gasPowerLeft e)) + unat (e_gasPowerUsed e)
      \<le> unat (longTermGas (e_gasPowerLeft q)) + (unat (e_medianTime e) - unat (e_medianTime q)) * unat rl div 1000000000"
      by simp
  qed
qed

text \<open>A network of one validator under the rules of the main network, and its first two events.\<close>

definition sample_checkers :: base_checkers where
  "sample_checkers = \<lparr>base_basic = (\<lambda>e. None), base_epoch = (\<lambda>e. None), base_parents = (\<lambda>e ps. None),
     dag_SelfParent = (\<lambda>e. if e_Seq e \<le> 1 \<or> e_Parents e = [] then None else Some (hd (e_Parents e))),
     dag_IsSelfParent = (\<lambda>e h. e_Seq e > 1 \<and> e_Parents e \<noteq> [] \<and> hd (e_Parents e) = h)\<rparr>"

definition config_of :: "nat \<Rightarrow> GasPowerRules \<Rightarrow> Config" where
  "config_of i r = \<lparr>cf_Idx = i, cf_AllocPerSec = gp_AllocPerSec r, cf_MaxAllocPeriod = gp_MaxAllocPeriod r,
     cf_MinEnsuredAlloc = 10028000, cf_StartupAllocPeriod = gp_StartupAllocPeriod r, cf_MinStartupGas = gp_MinStartupGas r\<rparr>"

definition sample_context :: ValidationContext where
  "sample_context = \<lparr>vx_Epoch = 1, vx_Configs = (config_of 0 DefaultShortGasPowerRules, config_of 1 DefaulLongGasPowerRules),
     vx_EpochStart = 1, vx_Validators = \<lparr>vs_Get = (\<lambda>v. if v = 1 then 1 else 0), vs_TotalWeight = 1, vs_GetIdx = (\<lambda>v. 0)\<rparr>,
     vx_ValidatorStates = []\<rparr>"

definition sample_parent :: event_payload where
  "sample_parent = MutableEventPayload_zero\<lparr>e_Epoch := 1, e_Seq := 1, e_Creator := 1, e_medianTime := 1000000000, e_creationTime := 1\<rparr>"

definition sample_child :: event_payload where
  "sample_child = sample_parent\<lparr>e_Seq := 2, e_Parents := [Zero_hash], e_medianTime := 2000000000, e_gasPowerUsed := 28000,
     e_gasPowerLeft := \<lparr>shortTermGas = 5572000, longTermGas = 2772000\<rparr>\<rparr>"

lemma two_not_le_one: "\<not> (2 :: u32) \<le> 1"
  by (simp add: word_le_nat_alt)

lemmas sample_defs = two_not_le_one sample_checkers_def config_of_def sample_context_def sample_parent_def sample_child_def
  MutableEventPayload_zero_def

lemma sample_rates:
  "CalcValidatorGasPowerPerSec 1 (vx_Validators sample_context) (fst (vx_Configs sample_context)) = Ok (5600000, 1680000000, 11200000)"
  "CalcValidatorGasPowerPerSec 1 (vx_Validators sample_context) (snd (vx_Configs sample_context)) = Ok (2800000, 10080000000, 14000000)"
  by (simp_all add: CalcValidatorGasPowerPerSec_def sample_defs rules_defs)

lemma sample_child_ok: "gas_chain sample_checkers sample_context sample_parent [sample_child]"
proof -
  have "basic_Validate sample_checkers sample_child = Accept"
    by (simp add: basic_Validate_def sample_defs of_base_def GasPowerLeft_Max_eq checkTxs_def validateEV_def validateBVs_def
        LlrEpochVote_zero_def LlrBlockVotes_zero_def MaxBlockVotesPerEvent_def)
  moreover have "gas_Validate sample_checkers sample_context sample_child (Some sample_parent) = Accept"
    unfolding gas_Validate_Accept CalcGasPower_Inr
    by (rule exI [of _ "\<lparr>shortTermGas = 5600000, longTermGas = 2800000\<rparr>"])
       (simp add: calcGasPower_def CalcValidatorGasPower_def CalcValidatorGasPowerPerSec_def gas_at_def Gas_def sample_defs rules_defs)
  ultimately show ?thesis by (simp add: sample_defs)
qed

theorem gas_power_limits_rate_witness:
  "gas_chain sample_checkers sample_context sample_parent [sample_child]
   \<and> unat (e_gasPowerUsed sample_child) + unat (shortTermGas (e_gasPowerLeft sample_child)) \<le> 5600000"
proof -
  have c: "e_Creator sample_parent = 1" by (simp add: sample_defs)
  have i: "cf_Idx (fst (vx_Configs sample_context)) = 0" "cf_Idx (snd (vx_Configs sample_context)) = 1" by (simp_all add: sample_defs)
  from gas_power_limits_rate [OF sample_child_ok i sample_rates [folded c]] sample_child_ok
  show ?thesis by (simp add: sample_defs)
qed

section \<open>Shares of the validators\<close>

text \<open>
  C24. The rates of all validators together stay within the rate of the network: with the total weight the sum
  of the weights, as the validator set of go-vassalo keeps it, the per-second allocations add up to at most
  \<^verbatim>\<open>AllocPerSec\<close>, and none of them panics.
\<close>

theorem allocation_rates_fit_network_rate:
  assumes "distinct ids" and "unat (vs_TotalWeight vs) = sum_list (map (\<lambda>v. unat (vs_Get vs v)) ids)"
  shows "\<exists>rates. map (\<lambda>v. CalcValidatorGasPowerPerSec v vs cfg) ids = map Ok rates
     \<and> sum_list (map (\<lambda>(p, m, s). unat p) rates) \<le> unat (cf_AllocPerSec cfg)"
proof -
  let ?W = "unat (vs_TotalWeight vs)" and ?A = "unat (cf_AllocPerSec cfg)"
  have ok: "\<exists>r. CalcValidatorGasPowerPerSec v vs cfg = Ok r" if "v \<in> set ids" for v
  proof (cases "vs_Get vs v = 0")
    case False
    then have "0 < unat (vs_Get vs v)" by (simp add: unat_gt_0)
    also have "\<dots> \<le> ?W" using that assms(2) by (simp add: member_le_sum_list)
    finally have "vs_TotalWeight vs \<noteq> 0" by auto
    then show ?thesis by (simp add: CalcValidatorGasPowerPerSec_def Let_def)
  qed (simp add: CalcValidatorGasPowerPerSec_def)
  define rate where "rate v = (case CalcValidatorGasPowerPerSec v vs cfg of Ok r \<Rightarrow> r)" for v
  have rate: "CalcValidatorGasPowerPerSec v vs cfg = Ok (rate v)" if "v \<in> set ids" for v
    using ok [OF that] by (auto simp: rate_def)
  have each: "unat (fst (rate v)) \<le> ?A * unat (vs_Get vs v) div ?W" if "v \<in> set ids" for v
    using perSec_le [of v vs cfg "fst (rate v)" "fst (snd (rate v))" "snd (snd (rate v))"] rate [OF that] by simp
  have "sum_list (map (\<lambda>v. unat (fst (rate v))) ids) \<le> sum_list (map (\<lambda>v. ?A * unat (vs_Get vs v) div ?W) ids)"
    by (rule sum_list_mono) (rule each)
  also have "\<dots> \<le> sum_list (map (\<lambda>v. ?A * unat (vs_Get vs v)) ids) div ?W"
    using div_superadditive by (induction ids) (simp_all, meson add_left_mono order_trans)
  also have "\<dots> = ?A * ?W div ?W" unfolding assms(2) by (simp add: sum_list_const_mult)
  also have "\<dots> \<le> ?A" by simp
  finally have "sum_list (map (\<lambda>(p, m, s). unat p) (map rate ids)) \<le> ?A"
    by (simp add: o_def case_prod_beta)
  moreover have "map (\<lambda>v. CalcValidatorGasPowerPerSec v vs cfg) ids = map Ok (map rate ids)" using rate by simp
  ultimately show ?thesis by blast
qed

theorem allocation_rates_fit_network_rate_witness:
  "\<exists>rates. map (\<lambda>v. CalcValidatorGasPowerPerSec v
        \<lparr>vs_Get = (\<lambda>v. if v = 1 then 2 else if v = 2 then 1 else 0), vs_TotalWeight = 3, vs_GetIdx = (\<lambda>v. 0)\<rparr>
        (config_of 0 DefaultShortGasPowerRules)) [1, 2] = map Ok rates
     \<and> sum_list (map (\<lambda>(p, m, s). unat p) rates) \<le> unat (cf_AllocPerSec (config_of 0 DefaultShortGasPowerRules))"
  by (rule allocation_rates_fit_network_rate) simp_all

section \<open>An event that states its gas power as calculated\<close>



end
