(* ===== verification/EpochCheck.thy ===== *)
theory EpochCheck
  imports GasPowerCheck
begin

text \<open>
  The checks that need the rules of the current epoch (\<^verbatim>\<open>eventcheck/epochcheck\<close>): limits on parents and
  extra data, transaction types and prices, the version, and the gas an event must declare.
\<close>

section \<open>Gas of an event\<close>

definition CalcGasPowerUsed :: "event_payload \<Rightarrow> Rules \<Rightarrow> u64" where
  "CalcGasPowerUsed e rules =
     (let txsGas = foldl (\<lambda>g tx. g + tx_Gas tx) 0 (e_txs e);
          gasCfg = ec_Gas (ru_Economy rules);
          parents = word_of_nat (length (e_Parents e)) :: u32;
          free = dr_MaxFreeParents (ru_Dag rules);
          parentsGas = (if parents > free then ucast (parents - free) * gr_ParentGas gasCfg else 0);
          extraGas = word_of_nat (length (e_extra e)) * gr_ExtraDataGas gasCfg;
          mpsGas = word_of_nat (length (e_misbehaviourProofs e)) * gr_MisbehaviourProofGas gasCfg;
          bvsGas = (if bv_Start (e_blockVotes e) \<noteq> 0
                    then gr_BlockVotesBaseGas gasCfg + word_of_nat (length (bv_Votes (e_blockVotes e))) * gr_BlockVoteGas gasCfg
                    else 0);
          ersGas = (if ev_Epoch (e_epochVote e) \<noteq> 0 then gr_EpochVoteGas gasCfg else 0)
      in txsGas + parentsGas + extraGas + gr_EventGas gasCfg + mpsGas + bvsGas + ersGas)"

definition checkGas :: "event_payload \<Rightarrow> Rules \<Rightarrow> verdict" where
  "checkGas e rules = first_of
     [reject_if (e_gasPowerUsed e > gr_MaxEventGas (ec_Gas (ru_Economy rules))) ErrTooBigGasUsed,
      reject_if (e_gasPowerUsed e \<noteq> CalcGasPowerUsed e rules) ErrWrongGasUsed]"

definition CheckTxs :: "transaction list \<Rightarrow> Rules \<Rightarrow> verdict" where
  "CheckTxs txs rules =
     (let maxType = (if up_London (ru_Upgrades rules) then 2 else if up_Berlin (ru_Upgrades rules) then 1 else 0) :: byte
      in first_of (concat (map (\<lambda>tx.
           [reject_if (tx_Type tx > maxType) ErrUnsupportedTxType,
            reject_if (tx_GasFeeCapIntCmp tx (ec_MinGasPrice (ru_Economy rules)) < 0) ErrUnderpriced]) txs)))"

text \<open>\<open>rules\<close> and \<open>epoch\<close> are what \<^verbatim>\<open>reader.GetEpochRules\<close> returns.\<close>

definition epoch_Validate :: "base_checkers \<Rightarrow> Rules \<Rightarrow> u32 \<Rightarrow> event_payload \<Rightarrow> verdict" where
  "epoch_Validate vc rules epoch e = first_of
     [of_base (base_epoch vc e),
      reject_if (e_Epoch e \<noteq> epoch) ErrNotRelevant,
      reject_if ((word_of_nat (length (e_Parents e)) :: u32) > dr_MaxParents (ru_Dag rules)) ErrTooManyParents,
      reject_if ((word_of_nat (length (e_extra e)) :: u32) > dr_MaxExtraData (ru_Dag rules)) ErrTooBigExtra,
      checkGas e rules,
      CheckTxs (e_txs e) rules,
      reject_if (e_version e \<noteq> (if up_Llr (ru_Upgrades rules) then 1 else 0)) ErrWrongVersion]"

section \<open>The gas in unbounded arithmetic\<close>

definition true_gas :: "event_payload \<Rightarrow> Rules \<Rightarrow> nat" where
  "true_gas e rules = (let g = ec_Gas (ru_Economy rules) in
     sum_list (map (\<lambda>tx. unat (tx_Gas tx)) (e_txs e))
     + (length (e_Parents e) - unat (dr_MaxFreeParents (ru_Dag rules))) * unat (gr_ParentGas g)
     + length (e_extra e) * unat (gr_ExtraDataGas g) + unat (gr_EventGas g)
     + length (e_misbehaviourProofs e) * unat (gr_MisbehaviourProofGas g)
     + (if bv_Start (e_blockVotes e) \<noteq> 0
        then unat (gr_BlockVotesBaseGas g) + length (bv_Votes (e_blockVotes e)) * unat (gr_BlockVoteGas g) else 0)
     + (if ev_Epoch (e_epochVote e) \<noteq> 0 then unat (gr_EpochVoteGas g) else 0))"

lemma foldl_gas: "foldl (\<lambda>g tx. g + tx_Gas tx) (0 :: u64) txs = word_of_nat (sum_list (map (\<lambda>tx. unat (tx_Gas tx)) txs))"
proof -
  have "foldl (\<lambda>g tx. g + tx_Gas tx) n txs = n + word_of_nat (sum_list (map (\<lambda>tx. unat (tx_Gas tx)) txs))" for n :: u64
    by (induction txs arbitrary: n) simp_all
  then show ?thesis by simp
qed

text \<open>The calculation is the true gas modulo \<open>2 ^ 64\<close>, for an event with fewer than \<open>2 ^ 32\<close> parents.\<close>

lemma CalcGasPowerUsed_eq:
  assumes "length (e_Parents e) < 2 ^ 32"
  shows "CalcGasPowerUsed e rules = word_of_nat (true_gas e rules)"
proof -
  let ?p = "word_of_nat (length (e_Parents e)) :: u32" and ?f = "dr_MaxFreeParents (ru_Dag rules)"
  have p: "unat ?p = length (e_Parents e)" using assms by (simp add: unat_of_nat)
  have parents: "(if ?p > ?f then ucast (?p - ?f) * gr_ParentGas (ec_Gas (ru_Economy rules)) else 0)
    = word_of_nat ((length (e_Parents e) - unat ?f) * unat (gr_ParentGas (ec_Gas (ru_Economy rules))))"
  proof (cases "?p > ?f")
    case True
    then have "unat (?p - ?f) = length (e_Parents e) - unat ?f" using p by (simp add: unat_sub word_less_nat_alt less_imp_le)
    then have "(ucast (?p - ?f) :: u64) = word_of_nat (length (e_Parents e) - unat ?f)"
      by (metis of_nat_unat)
    with True show ?thesis by simp
  next
    case False
    then have "length (e_Parents e) \<le> unat ?f" using p by (simp add: not_less word_le_nat_alt)
    with False show ?thesis by simp
  qed
  show ?thesis
    unfolding CalcGasPowerUsed_def Let_def parents foldl_gas true_gas_def by simp
qed

lemma checkGas_Accept:
  "checkGas e rules = Accept \<longleftrightarrow> e_gasPowerUsed e \<le> gr_MaxEventGas (ec_Gas (ru_Economy rules))
     \<and> e_gasPowerUsed e = CalcGasPowerUsed e rules"
  by (auto simp: checkGas_def not_less)

section \<open>Theorems\<close>

text \<open>
  C26. An event that passes the epoch check declares the gas it is charged for: if the gas of its transactions,
  parents, votes and proofs adds up to less than \<open>2 ^ 64\<close>, then that sum is the declared gas, and it is within
  the limit for events.  The transactions of the event have a supported type and pay the minimum price.
\<close>

theorem accepted_event_declares_its_gas:
  assumes "epoch_Validate vc rules epoch e = Accept" and "length (e_Parents e) < 2 ^ 32" and "true_gas e rules < 2 ^ 64"
  shows "unat (e_gasPowerUsed e) = true_gas e rules \<and> true_gas e rules \<le> unat (gr_MaxEventGas (ec_Gas (ru_Economy rules)))
     \<and> (\<forall>tx \<in> set (e_txs e). ec_MinGasPrice (ru_Economy rules) \<le> tx_GasFeeCap tx)"
proof -
  have gas: "checkGas e rules = Accept" and txs: "CheckTxs (e_txs e) rules = Accept"
    using assms(1) by (simp_all add: epoch_Validate_def)
  have "unat (e_gasPowerUsed e) = true_gas e rules"
    using gas assms(2,3) by (simp add: checkGas_Accept CalcGasPowerUsed_eq unat_word_of_nat_small)
  moreover have "unat (e_gasPowerUsed e) \<le> unat (gr_MaxEventGas (ec_Gas (ru_Economy rules)))"
    using gas unfolding checkGas_Accept word_le_nat_alt by blast
  moreover have "\<forall>tx \<in> set (e_txs e). ec_MinGasPrice (ru_Economy rules) \<le> tx_GasFeeCap tx"
    using txs by (auto simp: CheckTxs_def Let_def tx_GasFeeCapIntCmp_def big_Cmp_def not_less sgn_if split: if_splits)
  ultimately show ?thesis by simp
qed

definition cheap_tx :: "u64 \<Rightarrow> transaction" where
  "cheap_tx gas = Legacy \<lparr>lt_Nonce = 0, lt_GasPrice = 1000000000, lt_Gas = gas, lt_To = Some (replicate 20 0), lt_Value = 0,
     lt_Data = [], lt_V = 27, lt_R = 1, lt_S = 1\<rparr>"


lemma cheap_tx_priced: "CheckTxs [cheap_tx g, cheap_tx h] MainNetRules = Accept" "CheckTxs [cheap_tx g] MainNetRules = Accept"
  by (simp_all add: CheckTxs_def cheap_tx_def tx_type_simps tx_GasFeeCapIntCmp_def big_Cmp_def rules_defs)

definition sample_with :: "transaction list \<Rightarrow> u64 \<Rightarrow> event_payload" where
  "sample_with txs used = sample_child\<lparr>e_version := 1, e_txs := txs, e_gasPowerUsed := used\<rparr>"

theorem accepted_event_declares_its_gas_witness:
  "epoch_Validate sample_checkers MainNetRules 1 (sample_with [cheap_tx 21000] 49000) = Accept
   \<and> true_gas (sample_with [cheap_tx 21000] 49000) MainNetRules = 49000"
proof -
  have ok: "epoch_Validate sample_checkers MainNetRules 1 (sample_with [cheap_tx 21000] 49000) = Accept"
    using cheap_tx_priced(2) [of 21000]
    by (simp add: epoch_Validate_def sample_with_def sample_defs of_base_def checkGas_Accept CalcGasPowerUsed_def cheap_tx_def
        LlrEpochVote_zero_def LlrBlockVotes_zero_def rules_defs)
  moreover have "length (e_Parents (sample_with [cheap_tx 21000] 49000)) < 2 ^ 32"
    "true_gas (sample_with [cheap_tx 21000] 49000) MainNetRules < 2 ^ 64"
    by (simp_all add: true_gas_def sample_with_def sample_defs cheap_tx_def LlrEpochVote_zero_def LlrBlockVotes_zero_def rules_defs)
  moreover have "unat (e_gasPowerUsed (sample_with [cheap_tx 21000] 49000)) = 49000" by (simp add: sample_with_def)
  ultimately show ?thesis using accepted_event_declares_its_gas [of sample_checkers MainNetRules 1] by auto
qed


end
