(* ===== verification/CserCodec.thy ===== *)
theory CserCodec
  imports Cser
begin

unbundle bit_operations_syntax

text \<open>
  A read/write calculus for the serialization of theory \<open>Cser\<close>.  \<open>writes m bs ys\<close> says that
  the writer action \<open>m\<close> appends the bits \<open>bs\<close> and the bytes \<open>ys\<close>; \<open>reads m bs ys v\<close>
  that the reader action \<open>m\<close> consumes exactly these and returns \<open>v\<close>.  \<open>rt W R v\<close> (round
  trip) joins the two; its rules follow the structure of the code, so that the round trip of a
  whole message is proved field by field.
\<close>

subsection \<open>The calculus\<close>

definition cw_repr :: "cser_writer \<Rightarrow> bool list \<Rightarrow> byte list \<Rightarrow> bool" where
  "cw_repr w bs ys \<longleftrightarrow> wrepr (BitsW w) bs \<and> fw_buf (BytesW w) = ys"

definition cr_repr :: "cser_reader \<Rightarrow> bool list \<Rightarrow> byte list \<Rightarrow> bool" where
  "cr_repr r bs ys \<longleftrightarrow> rwf (BitsR r) \<and> rbits (BitsR r) = bs \<and> fwf (BytesR r) \<and> frest (BytesR r) = ys"

definition writes :: "(cser_writer, unit) action \<Rightarrow> bool list \<Rightarrow> byte list \<Rightarrow> bool" where
  "writes m bs ys \<longleftrightarrow>
     (\<forall>w cb cy. cw_repr w cb cy \<longrightarrow> (\<exists>w'. m w = Ok ((), w') \<and> cw_repr w' (cb @ bs) (cy @ ys)))"

definition reads :: "(cser_reader, 'a) action \<Rightarrow> bool list \<Rightarrow> byte list \<Rightarrow> 'a \<Rightarrow> bool" where
  "reads m bs ys v \<longleftrightarrow>
     (\<forall>r cb cy. cr_repr r (bs @ cb) (ys @ cy) \<longrightarrow> (\<exists>r'. m r = Ok (v, r') \<and> cr_repr r' cb cy))"

text \<open>\<open>rtp P\<close> also records a property of the bits that were written.\<close>

definition rtp :: "(bool list \<Rightarrow> bool) \<Rightarrow> (cser_writer, unit) action \<Rightarrow> (cser_reader, 'a) action \<Rightarrow> 'a \<Rightarrow> bool" where
  "rtp P W R v \<longleftrightarrow> (\<exists>bs ys. P bs \<and> writes W bs ys \<and> reads R bs ys v)"

definition rt :: "(cser_writer, unit) action \<Rightarrow> (cser_reader, 'a) action \<Rightarrow> 'a \<Rightarrow> bool" where
  "rt W R v \<longleftrightarrow> rtp (\<lambda>_. True) W R v"

lemma writes_ret: "writes (ret ()) [] []"
  by (auto simp: writes_def ret_def)

lemma writes_andThen:
  assumes "writes m bs ys" and "writes k bs' ys'"
  shows "writes (andThen m (\<lambda>_. k)) (bs @ bs') (ys @ ys')"
  unfolding writes_def
proof (intro allI impI)
  fix w cb cy assume "cw_repr w cb cy"
  with assms(1) obtain w1 where "m w = Ok ((), w1)" and "cw_repr w1 (cb @ bs) (cy @ ys)"
    unfolding writes_def by blast
  moreover from this(2) assms(2) obtain w2 where "k w1 = Ok ((), w2)"
    and "cw_repr w2 ((cb @ bs) @ bs') ((cy @ ys) @ ys')"
    unfolding writes_def by blast
  ultimately show "\<exists>w'. andThen m (\<lambda>_. k) w = Ok ((), w') \<and> cw_repr w' (cb @ bs @ bs') (cy @ ys @ ys')"
    by (auto simp: andThen_apply_Ok)
qed

lemma reads_ret: "reads (ret v) [] [] v"
  by (auto simp: reads_def ret_def)

lemma reads_andThen:
  assumes "reads m bs ys u" and "reads (k u) bs' ys' v"
  shows "reads (andThen m k) (bs @ bs') (ys @ ys') v"
  unfolding reads_def
proof (intro allI impI)
  fix r cb cy assume "cr_repr r ((bs @ bs') @ cb) ((ys @ ys') @ cy)"
  with assms(1) obtain r1 where "m r = Ok (u, r1)" and "cr_repr r1 (bs' @ cb) (ys' @ cy)"
    unfolding reads_def by (metis append.assoc)
  with assms(2) show "\<exists>r'. andThen m k r = Ok (v, r') \<and> cr_repr r' cb cy"
    unfolding reads_def by (metis andThen_apply_Ok)
qed

lemma rtpI: "P bs \<Longrightarrow> writes W bs ys \<Longrightarrow> reads R bs ys v \<Longrightarrow> rtp P W R v"
  by (auto simp: rtp_def)

lemma rt_rtp: "rtp P W R v \<Longrightarrow> rt W R v"
  by (auto simp: rt_def rtp_def)

lemma rtp_weaken: "rtp P W R v \<Longrightarrow> (\<And>bs. P bs \<Longrightarrow> Q bs) \<Longrightarrow> rtp Q W R v"
  by (auto simp: rtp_def)

lemma rt_ret: "u = v \<Longrightarrow> rt (seqs []) (ret u) v"
  unfolding rt_def seqs.simps using writes_ret reads_ret by (intro rtpI) auto

lemma rtp_seq:
  assumes "rtp P W1 R1 u" and "rtp Q (seqs Ws) (K u) v" and "\<And>bs cs. P bs \<Longrightarrow> Q cs \<Longrightarrow> S (bs @ cs)"
  shows "rtp S (seqs (W1 # Ws)) (andThen R1 K) v"
proof -
  from assms(1) obtain bs ys where 1: "P bs" "writes W1 bs ys" "reads R1 bs ys u"
    by (auto simp: rtp_def)
  from assms(2) obtain cs zs where 2: "Q cs" "writes (seqs Ws) cs zs" "reads (K u) cs zs v"
    by (auto simp: rtp_def)
  show ?thesis
    using writes_andThen [OF 1(2) 2(2)] reads_andThen [OF 1(3), of K, OF 2(3)] assms(3) [OF 1(1) 2(1)]
    by (intro rtpI [of S "bs @ cs" _ "ys @ zs"]) (auto simp: seqs.simps)
qed

lemma rt_seq:
  "rt W1 R1 u \<Longrightarrow> rt (seqs Ws) (K u) v \<Longrightarrow> rt (seqs (W1 # Ws)) (andThen R1 K) v"
  unfolding rt_def by (rule rtp_seq)

lemma rt_last: "rt W R v \<Longrightarrow> rt (seqs [W]) R v"
  by (simp add: seqs.simps)

lemma seqs_nested: "seqs (seqs xs # ys) = seqs (xs @ ys)"
  by (simp add: seqs_append seqs.simps)

text \<open>A decoder that maps the value it has read.\<close>

lemma rt_map:
  assumes "rt W R u" and "f u = v"
  shows "rt W (andThen R (\<lambda>x. ret (f x))) v"
proof -
  from assms obtain bs ys where w: "writes W bs ys" "reads R bs ys u"
    by (auto simp: rt_def rtp_def)
  show ?thesis
    using reads_andThen [OF w(2), of "\<lambda>x. ret (f x)" "[]" "[]" v] reads_ret [of v] assms(2) w(1)
    unfolding rt_def by (intro rtpI) auto
qed

subsection \<open>Single bits and bytes\<close>

lemma writes_bits:
  assumes "0 < n" and "\<forall>i\<ge>n. \<not> bit v i"
  shows "writes (on_BitsW (bits_Write n v)) (num_bits n v) []"
  unfolding writes_def
proof (intro allI impI)
  fix w cb cy assume "cw_repr w cb cy"
  then obtain a' where "bits_Write n v (BitsW w) = Ok ((), a')" and "wrepr a' (cb @ num_bits n v)"
    using bits_Write_repr [OF _ assms] unfolding cw_repr_def by blast
  then show "\<exists>w'. on_BitsW (bits_Write n v) w = Ok ((), w') \<and> cw_repr w' (cb @ num_bits n v) (cy @ [])"
    using \<open>cw_repr w cb cy\<close> by (auto simp: on_BitsW_def cw_repr_def)
qed

lemma reads_bits: "reads (on_BitsR (bits_Read (length bs))) bs [] (bits_num bs)"
  unfolding reads_def
proof (intro allI impI)
  fix r cb cy assume r: "cr_repr r (bs @ cb) ([] @ cy)"
  then have wf: "rwf (BitsR r)" and rb: "rbits (BitsR r) = bs @ cb" by (auto simp: cr_repr_def)
  from rwf_skip [OF wf, of "length bs"] rb have "rwf (skip_bits (length bs) (BitsR r))" by simp
  with r rb show "\<exists>r'. on_BitsR (bits_Read (length bs)) r = Ok (bits_num bs, r') \<and> cr_repr r' cb cy"
    by (auto simp: on_BitsR_def bits_Read_eq [OF wf] cr_repr_def)
qed

lemma writes_bytes: "writes (Writer_FixedBytes ys) [] ys"
  by (auto simp: writes_def Writer_FixedBytes_def on_BytesW_def cw_repr_def fast_Write_def)

lemma reads_on_bytes:
  assumes "\<And>b cy. fwf b \<Longrightarrow> frest b = ys @ cy \<Longrightarrow> \<exists>b'. m b = Ok (v, b') \<and> fwf b' \<and> frest b' = cy"
  shows "reads (on_BytesR m) [] ys v"
  unfolding reads_def
proof (intro allI impI)
  fix r cb cy assume r: "cr_repr r ([] @ cb) (ys @ cy)"
  then obtain b' where "m (BytesR r) = Ok (v, b')" "fwf b'" "frest b' = cy"
    using assms [of "BytesR r" cy] by (auto simp: cr_repr_def)
  with r show "\<exists>r'. on_BytesR m r = Ok (v, r') \<and> cr_repr r' cb cy"
    by (auto simp: on_BytesR_def cr_repr_def)
qed

lemma reads_bytes: "reads (Reader_FixedBytes (length ys)) [] ys ys"
  unfolding Reader_FixedBytes_def by (rule reads_on_bytes) (use fast_Read_in_range in blast)

lemma rt_FixedBytes: "length ys = n \<Longrightarrow> rt (Writer_FixedBytes ys) (Reader_FixedBytes n) ys"
  unfolding rt_def using writes_bytes reads_bytes by (metis rtpI)

lemma rt_U8: "rt (Writer_U8 v) Reader_U8 v"
proof -
  have "writes (Writer_U8 v) [] [v]"
    by (auto simp: writes_def Writer_U8_def on_BytesW_def cw_repr_def fast_WriteByte_def)
  moreover have "reads Reader_U8 [] [v] v"
    unfolding Reader_U8_def by (rule reads_on_bytes) (use fast_ReadByte_in_range in fastforce)
  ultimately show ?thesis unfolding rt_def by (intro rtpI) auto
qed

lemma writes_num_bits:
  assumes "0 < n" and "unat v < 2 ^ n"
  shows "writes (on_BitsW (bits_Write n v)) (num_bits n v) []"
proof (rule writes_bits [OF assms(1)])
  show "\<forall>i\<ge>n. \<not> bit v i"
    using take_bit_of_small [OF assms(2)] by (metis bit_take_bit_iff not_le)
qed

lemma reads_num_bits:
  assumes "n \<le> 64" and "unat v < 2 ^ n"
  shows "reads (on_BitsR (bits_Read n)) (num_bits n v) [] v"
  using reads_bits [of "num_bits n v"] assms by (simp add: bits_num_num_bits take_bit_of_small)

lemma rt_Bool: "rt (Writer_Bool v) Reader_Bool v"
proof -
  have "rt (on_BitsW (bits_Write 1 (if v then 1 else 0))) (on_BitsR (bits_Read 1)) (if v then 1 else 0)"
    unfolding rt_def by (intro rtpI [OF TrueI writes_num_bits reads_num_bits]) auto
  then show ?thesis
    unfolding Writer_Bool_def Reader_Bool_def Let_def by (rule rt_map) auto
qed

subsection \<open>Numbers of a variable number of bytes\<close>

definition le_bytes :: "nat \<Rightarrow> u64 \<Rightarrow> byte list" where
  "le_bytes n v = map (\<lambda>i. ucast (drop_bit (8 * i) v)) [0..<n]"

fun le_num :: "byte list \<Rightarrow> u64" where
  "le_num [] = 0"
| "le_num (b # bs) = ucast b OR push_bit 8 (le_num bs)"

definition byte_len :: "nat \<Rightarrow> u64 \<Rightarrow> nat" where
  "byte_len minSize v = fst (writeUint64BitCompact v minSize (fast_NewWriter []))"

lemma length_le_bytes [simp]: "length (le_bytes n v) = n"
  by (simp add: le_bytes_def)

lemma le_bytes_0 [simp]: "le_bytes 0 v = []"
  by (simp add: le_bytes_def)

lemma le_bytes_Suc: "le_bytes (Suc n) v = ucast v # le_bytes n (drop_bit 8 v)"
  by (rule nth_equalityI) (auto simp: le_bytes_def nth_Cons' algebra_simps simp del: upt_Suc)

lemma le_num_le_bytes: "le_num (le_bytes n v) = take_bit (8 * n) v"
proof (induction n arbitrary: v)
  case (Suc n)
  show ?case
    unfolding le_bytes_Suc le_num.simps Suc
    by (rule bit_word_eqI)
      (auto simp: bit_or_iff bit_push_bit_iff bit_take_bit_iff bit_ucast_iff bit_drop_bit_eq)
qed simp

text \<open>The writer's loop stops at the shortest length that holds the number and is long enough.\<close>

lemma writeUint64BitCompact_loop_spec:
  "\<exists>k. writeUint64BitCompact_loop s v m b = (s + k, b\<lparr>fw_buf := fw_buf b @ le_bytes k v\<rparr>) \<and>
     drop_bit (8 * k) v = 0 \<and> m \<le> s + k \<and>
     (k > 0 \<longrightarrow> s + k \<le> m \<or> drop_bit (8 * (k - 1)) v \<noteq> 0)"
proof (induction s v m b rule: writeUint64BitCompact_loop.induct)
  case (1 s v m b)
  show ?case
  proof (cases "s < m \<or> v \<noteq> 0")
    case False
    then show ?thesis by (subst writeUint64BitCompact_loop.simps) (auto intro!: exI [of _ 0])
  next
    case True
    from "1.IH" [OF True] obtain k where
      k: "writeUint64BitCompact_loop (s + 1) (drop_bit 8 v) m (fast_WriteByte (ucast v) b) =
        (s + 1 + k, (fast_WriteByte (ucast v) b)\<lparr>fw_buf := fw_buf (fast_WriteByte (ucast v) b) @ le_bytes k (drop_bit 8 v)\<rparr>)"
      and z: "drop_bit (8 * k) (drop_bit 8 v) = 0" "m \<le> s + 1 + k"
      and min: "k > 0 \<longrightarrow> s + 1 + k \<le> m \<or> drop_bit (8 * (k - 1)) (drop_bit 8 v) \<noteq> 0"
      by blast
    have "writeUint64BitCompact_loop s v m b = (s + Suc k, b\<lparr>fw_buf := fw_buf b @ le_bytes (Suc k) v\<rparr>)"
      using True k by (subst writeUint64BitCompact_loop.simps) (simp add: fast_WriteByte_def le_bytes_Suc)
    moreover have "drop_bit (8 * Suc k) v = 0" using z by (simp add: add.commute)
    moreover have "s + Suc k \<le> m \<or> drop_bit (8 * (Suc k - 1)) v \<noteq> 0"
      using True min z by (cases k) (auto simp: add.commute)
    ultimately show ?thesis using z by (intro exI [of _ "Suc k"]) auto
  qed
qed

lemma writeUint64BitCompact_eq:
  "writeUint64BitCompact v m b =
     (byte_len m v, b\<lparr>fw_buf := fw_buf b @ le_bytes (byte_len m v) v\<rparr>)" (is ?eq)
  and byte_len_enough: "drop_bit (8 * byte_len m v) v = 0" (is ?enough)
  and byte_len_ge: "m \<le> byte_len m v" (is ?ge)
  and byte_len_least: "m < byte_len m v \<Longrightarrow> drop_bit (8 * (byte_len m v - 1)) v \<noteq> 0"
proof -
  obtain k where k: "writeUint64BitCompact_loop 0 v m b = (k, b\<lparr>fw_buf := fw_buf b @ le_bytes k v\<rparr>)"
      "drop_bit (8 * k) v = 0" "m \<le> k" "k > 0 \<longrightarrow> k \<le> m \<or> drop_bit (8 * (k - 1)) v \<noteq> 0"
    using writeUint64BitCompact_loop_spec [of 0 v m b] by auto
  obtain l where l: "writeUint64BitCompact_loop 0 v m (fast_NewWriter []) = (l, fast_NewWriter (le_bytes l v))"
      "drop_bit (8 * l) v = 0" "m \<le> l" "l > 0 \<longrightarrow> l \<le> m \<or> drop_bit (8 * (l - 1)) v \<noteq> 0"
    using writeUint64BitCompact_loop_spec [of 0 v m "fast_NewWriter []"] by (auto simp: fast_NewWriter_def)
  have mono: "drop_bit (8 * j) v = 0" if "drop_bit (8 * i) v = 0" "i \<le> j" for i j
    using that by (auto intro: drop_bit_zero_mono)
  have bl: "byte_len m v = l" using l(1) by (simp add: byte_len_def writeUint64BitCompact_def)
  have le: "x \<le> y"
    if "drop_bit (8 * y) v = 0" "m \<le> y" "x > 0 \<longrightarrow> x \<le> m \<or> drop_bit (8 * (x - 1)) v \<noteq> 0" for x y
  proof (rule ccontr)
    assume "\<not> x \<le> y"
    with that(2) have "y \<le> x - 1" "0 < x" "\<not> x \<le> m" by auto
    with mono [OF that(1)] that(3) show False by blast
  qed
  have "k = l" using le [of l k] le [of k l] k(2-4) l(2-4) by simp
  then show ?eq ?enough ?ge using k bl by (auto simp: writeUint64BitCompact_def)
  show "m < byte_len m v \<Longrightarrow> drop_bit (8 * (byte_len m v - 1)) v \<noteq> 0"
    using l bl by auto
qed

lemma byte_len_le:
  assumes "drop_bit (8 * n) v = 0" and "m \<le> n"
  shows "byte_len m v \<le> n"
proof (rule ccontr)
  assume "\<not> byte_len m v \<le> n"
  then have "n \<le> byte_len m v - 1" and "m < byte_len m v" using assms(2) by auto
  with assms(1) have "drop_bit (8 * (byte_len m v - 1)) v = 0"
    by (auto intro: drop_bit_zero_mono)
  with byte_len_least \<open>m < byte_len m v\<close> show False by blast
qed

lemma byte_len_last:
  assumes "m < byte_len m v"
  shows "last (le_bytes (byte_len m v) v) \<noteq> 0"
proof -
  let ?n = "byte_len m v" and ?x = "drop_bit (8 * (byte_len m v - 1)) v"
  have "?x \<noteq> 0" using assms by (rule byte_len_least)
  then obtain i where i: "bit ?x i" by (auto simp only: word_nonzero_bit)
  moreover have "i < 8"
  proof (rule ccontr)
    assume "\<not> i < 8"
    then have "8 * (?n - 1) + i = 8 * ?n + (i - 8)" using assms by simp
    with i have "bit (drop_bit (8 * ?n) v) (i - 8)" by (simp add: bit_drop_bit_eq)
    then show False by (simp add: byte_len_enough)
  qed
  ultimately have "bit (ucast ?x :: byte) i" by (simp add: bit_ucast_iff)
  then have "(ucast ?x :: byte) \<noteq> 0" by (auto simp only: word_nonzero_bit)
  moreover have "last (le_bytes ?n v) = ucast ?x"
    using assms by (simp add: le_bytes_def last_map)
  ultimately show ?thesis by simp
qed

lemma readUint64BitCompact_loop_eq:
  "readUint64BitCompact_loop i bs v l =
     (v OR push_bit (8 * i) (le_num bs), if bs = [] then l else last bs)"
  by (induction i bs v l rule: readUint64BitCompact_loop.induct)
    (simp_all add: push_bit_or or.assoc add.commute)

lemma byte_len_word:
  "n \<le> 8 \<Longrightarrow> m \<le> n \<Longrightarrow> unat v < 256 ^ n \<Longrightarrow> byte_len m v \<le> n"
proof (rule byte_len_le)
  assume "unat v < 256 ^ n"
  then have "unat v < 2 ^ (8 * n)" by (simp add: power_mult)
  then have "drop_bit (8 * n) (unat v) = 0" by (simp add: drop_bit_eq_div)
  then have "unat (drop_bit (8 * n) v) = 0" by (simp only: unat_drop_bit_eq)
  then show "drop_bit (8 * n) v = 0" by (simp only: unsigned_eq_0_iff)
qed

lemma reads_readUint64BitCompact:
  assumes "m \<le> 1"
  shows "reads (on_BytesR (readUint64BitCompact (byte_len m v))) [] (le_bytes (byte_len m v) v) v"
proof (rule reads_on_bytes)
  let ?k = "byte_len m v"
  fix b cy assume "fwf b" and "frest b = le_bytes ?k v @ cy"
  from fast_Read_in_range [OF this] obtain b' where
    b': "fast_Read ?k b = Ok (le_bytes ?k v, b')" "fwf b'" "frest b' = cy" by auto
  have "take_bit (8 * ?k) v = v"
    using byte_len_enough [of m v] by (metis bits_ident push_bit_of_0 add_0)
  then have v: "le_num (le_bytes ?k v) = v" by (simp add: le_num_le_bytes)
  have "last (le_bytes ?k v) \<noteq> 0" if "?k > 1"
    using that assms by (intro byte_len_last) simp
  moreover have "le_bytes ?k v \<noteq> []" if "?k > 1"
    using that by (metis length_le_bytes list.size(3) not_less_zero)
  ultimately show "\<exists>b'. readUint64BitCompact ?k b = Ok (v, b') \<and> fwf b' \<and> frest b' = cy"
    using b' v by (auto simp: readUint64BitCompact_def readUint64BitCompact_loop_eq)
qed

lemma writes_writeU64_bits:
  assumes "writes (on_BitsW (bits_Write n (word_of_nat (byte_len m v - m)))) bs []"
  shows "writes (writeU64_bits m n v) bs (le_bytes (byte_len m v) v)"
  unfolding writes_def
proof (intro allI impI)
  let ?k = "byte_len m v"
  fix w cb cy assume "cw_repr w cb cy"
  then have "cw_repr (w\<lparr>BytesW := (BytesW w)\<lparr>fw_buf := cy @ le_bytes ?k v\<rparr>\<rparr>) cb (cy @ le_bytes ?k v)"
    and eq: "fw_buf (BytesW w) = cy"
    by (auto simp: cw_repr_def)
  with assms show "\<exists>w'. writeU64_bits m n v w = Ok ((), w') \<and> cw_repr w' (cb @ bs) (cy @ le_bytes ?k v)"
    unfolding writes_def writeU64_bits_def by (fastforce simp: writeUint64BitCompact_eq)
qed

lemma rtp_U64_bits:
  assumes "m \<le> 1" and "0 < n" and "n \<le> 3" and "byte_len m v - m < 2 ^ n"
  shows "rtp (\<lambda>bs. bs = num_bits n (word_of_nat (byte_len m v - m)))
    (writeU64_bits m n v) (readU64_bits m n) v"
proof -
  let ?k = "byte_len m v" and ?s = "word_of_nat (byte_len m v - m) :: u64"
  have "(2 :: nat) ^ n \<le> 2 ^ 3" using assms(3) by (intro power_increasing) auto
  then have small: "?k - m < 8" "unat ?s = ?k - m" using assms(4) by (auto simp: unat_of_nat)
  have w: "writes (on_BitsW (bits_Write n ?s)) (num_bits n ?s) []"
    using assms small by (intro writes_num_bits) auto
  have r: "reads (on_BitsR (bits_Read n)) (num_bits n ?s) [] ?s"
    using assms small by (intro reads_num_bits) auto
  have "?s + word_of_nat m = word_of_nat ?k"
    using byte_len_ge [of m v] by (metis le_add_diff_inverse2 of_nat_add)
  moreover have "unat (word_of_nat ?k :: u64) = ?k" using small assms(1) by (simp add: unat_of_nat)
  ultimately have "reads (on_BytesR (readUint64BitCompact (unat (?s + word_of_nat m)))) [] (le_bytes ?k v) v"
    using reads_readUint64BitCompact [OF assms(1), of v] by simp
  from reads_andThen [OF r, of "\<lambda>sz. on_BytesR (readUint64BitCompact (unat (sz + word_of_nat m)))", OF this]
  have "reads (readU64_bits m n) (num_bits n ?s) (le_bytes ?k v) v"
    by (simp add: readU64_bits_def)
  with writes_writeU64_bits [OF w] show ?thesis by (intro rtpI) auto
qed

lemma rtp_map:
  assumes "rtp P W R u" and "f u = v"
  shows "rtp P W (andThen R (\<lambda>x. ret (f x))) v"
proof -
  from assms obtain bs ys where w: "P bs" "writes W bs ys" "reads R bs ys u"
    by (auto simp: rtp_def)
  show ?thesis
    using reads_andThen [OF w(3), of "\<lambda>x. ret (f x)" "[]" "[]" v] reads_ret [of v] assms(2) w(1,2)
    by (intro rtpI) auto
qed

lemma byte_len_diff:
  assumes "unat v < 256 ^ n" and "m \<le> n" and "n \<le> 8"
  shows "byte_len m v - m \<le> n - m"
  using byte_len_word [OF assms(3,2,1)] by simp

lemma rtp_U32:
  "rtp (\<lambda>bs. bs = num_bits 2 (word_of_nat (byte_len 1 (ucast v) - 1))) (Writer_U32 v) Reader_U32 v"
proof -
  have "unat (ucast v :: u64) < 256 ^ 4"
    using unsigned_less [of v, where ?'a = nat] by (simp add: unsigned_ucast_eq take_bit_nat_eq_self)
  then have "byte_len 1 (ucast v) - 1 \<le> 4 - 1" by (rule byte_len_diff) auto
  then show ?thesis
    unfolding Writer_U32_def Reader_U32_def by (intro rtp_map [OF rtp_U64_bits]) auto
qed

lemma rtp_U64: "rtp (\<lambda>bs. bs = num_bits 3 (word_of_nat (byte_len 1 v - 1))) (Writer_U64 v) Reader_U64 v"
proof -
  have "unat v < 256 ^ 8" using unsigned_less [of v, where ?'a = nat] by simp
  then have "byte_len 1 v - 1 \<le> 8 - 1" by (rule byte_len_diff) auto
  then show ?thesis
    unfolding Writer_U64_def Reader_U64_def by (intro rtp_U64_bits) auto
qed

lemma rt_U16: "rt (Writer_U16 v) Reader_U16 v"
proof -
  have "unat (ucast v :: u64) < 256 ^ 2"
    using unsigned_less [of v, where ?'a = nat] by (simp add: unsigned_ucast_eq take_bit_nat_eq_self)
  then have "byte_len 1 (ucast v) - 1 \<le> 2 - 1" by (rule byte_len_diff) auto
  then show ?thesis
    unfolding Writer_U16_def Reader_U16_def by (intro rt_rtp [OF rtp_map [OF rtp_U64_bits]]) auto
qed

lemma rt_U32: "rt (Writer_U32 v) Reader_U32 v"
  by (rule rt_rtp [OF rtp_U32])

lemma rt_U64: "rt (Writer_U64 v) Reader_U64 v"
  by (rule rt_rtp [OF rtp_U64])

lemma rt_U56:
  assumes "unat v < 2 ^ 56"
  shows "rt (Writer_U56 v) Reader_U56 v"
proof -
  have "unat v < 256 ^ 7" using assms by simp
  then have "byte_len 0 v - 0 \<le> 7 - 0" by (rule byte_len_diff) auto
  moreover have "\<not> v > 2 ^ (8 * 7) - 1" using assms by (simp add: word_less_nat_alt)
  ultimately show ?thesis
    unfolding Writer_U56_def Reader_U56_def by (simp, intro rt_rtp [OF rtp_U64_bits]) auto
qed

lemma rt_I64: "rt (Writer_I64 v) Reader_I64 v"
proof (cases "sint v < 0")
  case True
  then have "v \<noteq> 0" by auto
  with True show ?thesis
    unfolding Writer_I64_def Reader_I64_def
    by (auto intro!: rt_seq [OF rt_Bool] rt_seq [OF rt_U64] rt_ret)
next
  case False
  then show ?thesis
    unfolding Writer_I64_def Reader_I64_def
    by (auto intro!: rt_seq [OF rt_Bool] rt_seq [OF rt_U64] rt_ret)
qed

lemma rt_SliceBytes:
  assumes "length ys \<le> n" and "length ys < 2 ^ 56"
  shows "rt (Writer_SliceBytes ys) (Reader_SliceBytes n) ys"
proof -
  have "unat (word_of_nat (length ys) :: u64) = length ys" using assms(2) by (simp add: unat_of_nat)
  with assms show ?thesis
    unfolding Writer_SliceBytes_def Reader_SliceBytes_def
    by (auto intro!: rt_seq [OF rt_U56] rt_last rt_FixedBytes)
qed

text \<open>The integers that \<open>BigInt\<close> can carry: not negative, at most 512 bytes long.\<close>

definition big_ok :: "int \<Rightarrow> bool" where
  "big_ok v \<longleftrightarrow> 0 \<le> v \<and> v < 256 ^ 512"

lemma rt_BigInt:
  assumes "big_ok v"
  shows "rt (Writer_BigInt v) Reader_BigInt v"
proof -
  have "nat v < 256 ^ 512" and pos: "0 \<le> v" using assms by (simp_all add: big_ok_def nat_less_iff)
  from this(1) have len: "length (be_bytes (nat v)) \<le> 512" by (rule length_be_bytes)
  then have "length (be_bytes (nat v)) < 2 ^ 56" by simp
  with len have "rt (Writer_SliceBytes (be_bytes (nat v))) (Reader_SliceBytes 512) (be_bytes (nat v))"
    by (rule rt_SliceBytes)
  from rt_map [OF this, of "\<lambda>buf. if length buf = 0 then 0 else int (be_num buf)" v]
  have "rt (Writer_SliceBytes (be_bytes (nat v))) Reader_BigInt v"
    using pos by (simp add: Reader_BigInt_def if_distrib [of ret, symmetric])
  moreover have "Writer_BigInt v = Writer_SliceBytes (be_bytes (nat v))"
    using pos by (simp add: Writer_BigInt_def sgn_if)
  ultimately show ?thesis by simp
qed

text \<open>One rule per kind of field, to be applied backwards along the writer's list of fields.\<close>

lemmas [codec_intros] = rt_ret rt_seq [OF rt_U8] rt_seq [OF rt_U16] rt_seq [OF rt_U32] rt_seq [OF rt_U64]
  rt_seq [OF rt_U56] rt_seq [OF rt_Bool] rt_seq [OF rt_I64] rt_seq [OF rt_FixedBytes]
  rt_seq [OF rt_SliceBytes] rt_seq [OF rt_BigInt]

subsection \<open>Looking ahead\<close>

text \<open>
  A decoder may \<open>View\<close> the next bits to tell two layouts apart: one starts with a marker of
  zero bits, the other with bits that are never all zero.
\<close>

definition marked :: "nat \<Rightarrow> bool list \<Rightarrow> bool" where
  "marked n bs \<longleftrightarrow> n \<le> length bs \<and> True \<in> set (take n bs)"

lemma bits_num_eq_0: "length bs \<le> 64 \<Longrightarrow> bits_num bs = 0 \<longleftrightarrow> True \<notin> set bs"
  by (auto simp: bit_eq_iff bit_bits_num in_set_conv_nth)

lemma marked_append: "marked n bs \<Longrightarrow> marked n (bs @ cs)"
  by (auto simp: marked_def)

lemma marked_later: "length bs = m \<Longrightarrow> marked n cs \<Longrightarrow> marked (m + n) (bs @ cs)"
  by (auto simp: marked_def)

lemma marked_num_bits:
  assumes "v \<noteq> 0" and "unat v < 2 ^ n"
  shows "marked n (num_bits n v)"
proof -
  from assms(1) obtain i where i: "bit v i" by (auto simp only: word_nonzero_bit)
  with take_bit_of_small [OF assms(2)] have "i < n" by (metis bit_take_bit_iff)
  with i show ?thesis by (force simp: marked_def in_set_conv_nth)
qed

lemma reads_view:
  assumes "n \<le> length bs" and "reads (K (bits_num (take n bs))) bs ys v"
  shows "reads (andThen (on_BitsR (bits_View n)) K) bs ys v"
  unfolding reads_def
proof (intro allI impI)
  fix r cb cy assume r: "cr_repr r (bs @ cb) (ys @ cy)"
  then have "bits_Read n (BitsR r) = Ok (bits_num (take n bs), skip_bits n (BitsR r))"
    using assms(1) by (simp add: cr_repr_def bits_Read_eq)
  then have "on_BitsR (bits_View n) r = Ok (bits_num (take n bs), r)"
    by (simp add: on_BitsR_def bits_View_def)
  with assms(2) r show "\<exists>r'. andThen (on_BitsR (bits_View n)) K r = Ok (v, r') \<and> cr_repr r' cb cy"
    unfolding reads_def by (simp add: andThen_apply_Ok)
qed

lemma rt_view_marked:
  assumes "rtp (marked n) W (K 1) v" and "n \<le> 64" and "\<And>x. x \<noteq> 0 \<Longrightarrow> K x = K 1"
  shows "rt W (andThen (on_BitsR (bits_View n)) K) v"
proof -
  from assms(1) obtain bs ys where 1: "marked n bs" "writes W bs ys" "reads (K 1) bs ys v"
    by (auto simp: rtp_def)
  then have "bits_num (take n bs) \<noteq> 0"
    using assms(2) by (simp add: bits_num_eq_0 marked_def)
  then have "reads (K (bits_num (take n bs))) bs ys v" using assms(3) 1(3) by metis
  with 1 have "reads (andThen (on_BitsR (bits_View n)) K) bs ys v"
    by (intro reads_view) (simp_all add: marked_def)
  with 1(2) show ?thesis unfolding rt_def by (intro rtpI) auto
qed

lemma rt_view_zero:
  assumes "rt (seqs Ws) K v" and "0 < n" and "n \<le> 64"
  shows "rt (seqs (on_BitsW (bits_Write n 0) # Ws))
    (andThen (on_BitsR (bits_View n)) (\<lambda>x. if x = 0 then andThen (on_BitsR (bits_Read n)) (\<lambda>_. K) else L)) v"
proof -
  from assms(1) obtain bs ys where 1: "writes (seqs Ws) bs ys" "reads K bs ys v"
    by (auto simp: rt_def rtp_def)
  have w: "writes (seqs (on_BitsW (bits_Write n 0) # Ws)) (num_bits n 0 @ bs) ([] @ ys)"
    using writes_andThen [OF writes_num_bits [of n 0] 1(1)] assms by (simp add: seqs.simps)
  have r: "reads (andThen (on_BitsR (bits_Read n)) (\<lambda>_. K)) (num_bits n 0 @ bs) ([] @ ys) v"
    using reads_andThen [OF reads_num_bits [of n 0], of "\<lambda>_. K", OF _ _ 1(2)] assms by simp
  have "bits_num (take n (num_bits n 0 @ bs)) = 0"
    using assms(3) by (simp add: bits_num_num_bits)
  with r have "reads (andThen (on_BitsR (bits_View n)) (\<lambda>x. if x = 0
      then andThen (on_BitsR (bits_Read n)) (\<lambda>_. K) else L)) (num_bits n 0 @ bs) ([] @ ys) v"
    by (intro reads_view) simp_all
  with w show ?thesis unfolding rt_def by (intro rtpI) auto
qed

end
