(* ===== verification/CserBinary.thy ===== *)
theory CserBinary
  imports CserCodec
begin

unbundle bit_operations_syntax

text \<open>
  The binary packing of \<^verbatim>\<open>utils/cser/binary.go\<close>: the size trailer reads back, the two halves
  of the body are recovered from the packed string, and every codec round trip of theory
  \<open>CserCodec\<close> lifts to byte strings.  Two interfaces are stated as locales: \<open>cser_codec\<close> (a
  writer and a reader that invert each other) and \<open>cser_confined\<close> (a reader whose accepted
  inputs never depend on bytes behind the end of the body).
\<close>

subsection \<open>The size trailer\<close>

function base128 :: "u64 \<Rightarrow> byte list" where
  "base128 v = (if drop_bit 7 v = 0 then [ucast ((v AND 127) OR 128)]
     else ucast (v AND 127) # base128 (drop_bit 7 v))"
  by pat_completeness auto
termination
  by (relation "measure unat") (auto intro!: unat_drop_bit_less)

declare base128.simps [simp del]

lemma writeUint64Compact_append:
  "writeUint64Compact v b = b\<lparr>fw_buf := fw_buf b @ base128 v\<rparr>"
proof (induction v b rule: writeUint64Compact.induct)
  case (1 v b)
  show ?case
  proof (cases "drop_bit 7 v = 0")
    case True
    then show ?thesis
      by (subst writeUint64Compact.simps, subst base128.simps) (simp add: fast_WriteByte_def)
  next
    case False
    note IH = 1 [OF refl refl refl refl False]
    from False IH show ?thesis
      by (subst writeUint64Compact.simps, subst base128.simps) (simp add: fast_WriteByte_def Let_def)
  qed
qed

lemma bit_127: "bit (127 :: int) j \<longleftrightarrow> j < 7"
  using bit_mask_iff [of 7 j, where ?'a = int] by (simp add: mask_eq_exp_minus_1)

lemma bit_128: "bit (128 :: int) j \<longleftrightarrow> j = 7"
  using bit_exp_iff [of 7 j, where ?'a = int] by simp

lemma chunk_facts:
  fixes v :: u64
  shows "(ucast (ucast (v AND 127) :: byte) :: u64) = v AND 127"
    and "(ucast (ucast ((v AND 127) OR 128) :: byte) :: u64) = (v AND 127) OR 128"
    and "(v AND 127) AND (128 :: u64) = 0"
    and "((v AND 127) OR 128) AND (128 :: u64) = 128"
    and "((v AND 127) OR 128) AND (127 :: u64) = v AND 127"
    and "(v AND 127) AND (127 :: u64) = v AND 127"
  by (rule bit_word_eqI;
      auto simp: bit_ucast_iff bit_and_iff bit_or_iff bit_127 bit_128)+

lemma chunk_split: "(v AND 127) OR push_bit 7 (drop_bit 7 v) = (v :: u64)"
proof (rule bit_word_eqI)
  fix n
  show "bit ((v AND 127) OR push_bit 7 (drop_bit 7 v)) n = bit v n" if "n < LENGTH(64)"
    using that by (cases "n < 7")
      (auto simp: bit_and_iff bit_or_iff bit_push_bit_iff bit_drop_bit_eq bit_127)
qed

lemma readUint64Compact_loop_base128:
  assumes "fwf b" and "frest b = base128 v @ ys" and "i = 0 \<or> v \<noteq> 0"
  shows "readUint64Compact_loop i acc b =
    Ok (acc OR push_bit (i * 7) v, b\<lparr>fr_offset := fr_offset b + length (base128 v)\<rparr>)"
  using assms
proof (induction v arbitrary: i acc b rule: base128.induct)
  case (1 v)
  show ?case
  proof (cases "drop_bit 7 v = 0")
    case True
    then have b128: "base128 v = [ucast ((v AND 127) OR 128)]" by (subst base128.simps) simp
    have low: "v AND 127 = v" using True chunk_split [of v] by simp
    note facts = chunk_facts(2,4,5) [of v, unfolded low]
    obtain b' where "fast_ReadByte b = Ok (ucast ((v AND 127) OR 128), b')"
      using fast_ReadByte_in_range [of b "ucast ((v AND 127) OR 128)" ys] "1.prems" b128 by auto
    moreover from this have "b' = b\<lparr>fr_offset := fr_offset b + 1\<rparr>"
      by (auto simp: fast_ReadByte_def split: if_splits)
    ultimately show ?thesis
      using "1.prems"(3) b128 low
      by (subst readUint64Compact_loop.simps) (auto simp: Let_def facts)
  next
    case False
    then have b128: "base128 v = ucast (v AND 127) # base128 (drop_bit 7 v)"
      by (subst base128.simps) simp
    obtain b' where b': "fast_ReadByte b = Ok (ucast (v AND 127), b')" "fwf b'"
        "frest b' = base128 (drop_bit 7 v) @ ys"
      using fast_ReadByte_in_range [of b "ucast (v AND 127)" "base128 (drop_bit 7 v) @ ys"] "1.prems" b128 by auto
    moreover from this have eq: "b' = b\<lparr>fr_offset := fr_offset b + 1\<rparr>"
      by (auto simp: fast_ReadByte_def split: if_splits)
    moreover have "readUint64Compact_loop (i + 1) (acc OR push_bit (i * 7) (v AND 127)) b' =
        Ok ((acc OR push_bit (i * 7) (v AND 127)) OR push_bit ((i + 1) * 7) (drop_bit 7 v),
            b'\<lparr>fr_offset := fr_offset b' + length (base128 (drop_bit 7 v))\<rparr>)"
      using False b' by (intro "1.IH") auto
    moreover have "(acc OR push_bit (i * 7) (v AND 127)) OR push_bit ((i + 1) * 7) (drop_bit 7 v)
        = acc OR push_bit (i * 7) v"
    proof -
      have "push_bit (i * 7) v = push_bit (i * 7) ((v AND 127) OR push_bit 7 (drop_bit 7 v))"
        by (simp only: chunk_split)
      then show ?thesis by (simp only: push_bit_or push_bit_push_bit or.assoc) (simp add: add.commute)
    qed
    ultimately show ?thesis
      using False b128
      by (subst readUint64Compact_loop.simps) (simp add: Let_def chunk_facts)
  qed
qed

lemma length_base128:
  "unat v < 128 ^ Suc n \<Longrightarrow> length (base128 v) \<le> Suc n"
proof (induction n arbitrary: v)
  case 0
  then have "unat (drop_bit 7 v) = 0" unfolding unat_drop_bit_eq by (simp add: drop_bit_eq_div)
  then have "drop_bit 7 v = 0" by (simp only: unsigned_eq_0_iff)
  then show ?case by (subst base128.simps) simp
next
  case (Suc n)
  have "unat v div 128 < 128 ^ Suc n"
    using Suc.prems by (simp add: less_mult_imp_div_less mult.commute)
  then have "unat (drop_bit 7 v) < 128 ^ Suc n" unfolding unat_drop_bit_eq by (simp add: drop_bit_eq_div)
  then have "length (base128 (drop_bit 7 v)) \<le> Suc n" by (rule Suc.IH)
  then show ?case by (subst base128.simps) simp
qed

subsection \<open>Packing and unpacking\<close>

lemma binaryFromCSER_eq:
  "binaryFromCSER bbits bbytes = bbytes @ bbits @ rev (base128 (word_of_nat (length bbits)))"
  by (simp add: binaryFromCSER_def fast_Write_def fast_NewWriter_def writeUint64Compact_append reversed_def Let_def)

lemma reversed_tail: "reversed (tail raw n) = take n (rev raw)"
  by (simp add: reversed_def tail_def rev_drop)

lemma binaryToCSER_FromCSER:
  assumes "length (binaryFromCSER bbits bbytes) < 2 ^ 63"
  shows "\<exists>spare. binaryToCSER (binaryFromCSER bbits bbytes) raw_spare = Ok (bbits, bbytes, spare)"
proof -
  let ?n = "word_of_nat (length bbits) :: u64"
  let ?raw = "bbytes @ bbits @ rev (base128 ?n)"
  have n: "unat ?n = length bbits" and raw: "length ?raw < 2 ^ 63"
    using assms by (simp_all add: unat_of_nat binaryFromCSER_eq)
  have "unat ?n < 128 ^ Suc 8" using n raw by simp
  then have l9: "length (base128 ?n) \<le> 9" using length_base128 [of ?n 8] by simp
  have buf: "reversed (tail ?raw 9) = base128 ?n @ take (9 - length (base128 ?n)) (rev bbits @ rev bbytes)"
    using l9 by (simp add: reversed_tail)
  have rd: "readUint64Compact (fast_NewReader (reversed (tail ?raw 9)) []) =
      Ok (?n, (fast_NewReader (reversed (tail ?raw 9)) [])\<lparr>fr_offset := length (base128 ?n)\<rparr>)"
    unfolding readUint64Compact_def
    by (subst readUint64Compact_loop_base128 [of _ _ "take (9 - length (base128 ?n)) (rev bbits @ rev bbytes)"])
      (simp_all add: buf fast_NewReader_def fwf_def frest_def)
  have "unat (word_of_nat (length bbytes) + word_of_nat (length bbits) :: u64) = length bbytes + length bbits"
    unfolding of_nat_add [symmetric] using raw by (simp add: unat_of_nat del: of_nat_add)
  moreover have "(word_of_nat (length bbytes + length bbits) :: u64) - ?n = word_of_nat (length bbytes)"
    by simp
  moreover have "unat (word_of_nat (length bbytes) :: u64) = length bbytes"
    using raw by (simp add: unat_of_nat)
  ultimately show ?thesis
    unfolding binaryToCSER_def binaryFromCSER_eq
    using rd n by (simp add: Let_def fast_Position_def word_less_nat_alt)
qed

lemma MarshalBinaryAdapter_writes:
  assumes "writes W bs ys"
  shows "\<exists>bb. MarshalBinaryAdapter W = Ok (binaryFromCSER bb ys) \<and> bytes_bits bb = bs @ bit_pad (length bs)"
proof -
  have "cw_repr cser_NewWriter [] []"
    by (simp add: cw_repr_def cser_NewWriter_def fast_NewWriter_def)
  with assms obtain w' where "W cser_NewWriter = Ok ((), w')" "cw_repr w' bs ys"
    unfolding writes_def by (metis append_Nil)
  then show ?thesis
    by (intro exI [of _ "w_Bytes (BitsW w')"]) (auto simp: MarshalBinaryAdapter_def cw_repr_def wrepr_def)
qed

lemma length_bit_pad: "length (bit_pad n) < 8"
  by (simp add: bit_pad_def)

lemma bits_num_bit_pad: "bits_num (bit_pad n) = 0"
  using length_bit_pad [of n] by (subst bits_num_eq_0) (auto simp: bit_pad_def)

lemma unmarshal_reads:
  assumes "reads R bs ys v" and "bytes_bits bb = bs @ bit_pad (length bs)"
    and "length (binaryFromCSER bb ys) < 2 ^ 63"
  shows "UnmarshalBinaryAdapter (binaryFromCSER bb ys) raw_spare R = Ok v"
proof -
  obtain spare where un: "binaryToCSER (binaryFromCSER bb ys) raw_spare = Ok (bb, ys, spare)"
    using binaryToCSER_FromCSER [OF assms(3)] by blast
  let ?r = "\<lparr>BitsR = bits_NewReader bb, BytesR = fast_NewReader ys spare\<rparr>"
  have "cr_repr ?r (bs @ bit_pad (length bs)) (ys @ [])"
    using assms(2)
    by (simp add: cr_repr_def bits_NewReader_def fast_NewReader_def rwf_def fwf_def rbits_def frest_def bit_pos_def)
  with assms(1) obtain r' where r': "R ?r = Ok (v, r')" "cr_repr r' (bit_pad (length bs)) []"
    unfolding reads_def by blast
  then have wf: "rwf (BitsR r')" and rest: "rbits (BitsR r') = bit_pad (length bs)"
    by (auto simp: cr_repr_def)
  have "8 * length (r_Bytes (BitsR r')) - bit_pos (BitsR r') < 8"
    using rest length_bit_pad [of "length bs"] by (metis length_rbits)
  with wf have nb: "\<not> NonReadBytes (BitsR r') > 1"
    by (auto simp: NonReadBytes_def rwf_def bit_pos_def)
  have tl: "bits_Read (NonReadBits (BitsR r')) (BitsR r') = Ok (0, skip_bits (NonReadBits (BitsR r')) (BitsR r'))"
    using wf rest by (simp add: bits_Read_eq NonReadBits_eq bits_num_bit_pad)
  have "fast_Empty (BytesR r')"
    using r'(2) by (auto simp: cr_repr_def fast_Empty_def fwf_def frest_def)
  with un r'(1) nb tl show ?thesis
    by (simp add: UnmarshalBinaryAdapter_def Let_def)
qed

subsection \<open>The codec interface\<close>

locale cser_codec =
  fixes put :: "'a \<Rightarrow> (cser_writer, unit) action"
    and get :: "(cser_reader, 'a) action"
    and valid :: "'a \<Rightarrow> bool"
  assumes round_trip: "valid v \<Longrightarrow> rt (put v) get v"
begin

lemma list_round_trip:
  "\<forall>v \<in> set vs. valid v \<Longrightarrow> rt (for_each put vs) (repeat_action (length vs) get) vs"
proof (induction vs)
  case Nil
  then show ?case by (simp add: for_each_def rt_ret)
next
  case (Cons v vs)
  have "rt (seqs (map put vs)) (andThen (repeat_action (length vs) get) (\<lambda>xs. ret (v # xs))) (v # vs)"
    using Cons by (intro rt_map) (auto simp: for_each_def)
  with Cons.prems show ?case
    unfolding for_each_def list.map list.size repeat_action.simps add_Suc_right add_0_right
    by (intro rt_seq [OF round_trip]) auto
qed

lemma option_round_trip:
  assumes "\<And>v. x = Some v \<Longrightarrow> valid v"
  shows "rt (case x of None \<Rightarrow> ret () | Some v \<Rightarrow> put v)
    (if x \<noteq> None then andThen get (\<lambda>v. ret (Some v)) else ret None) x"
proof (cases x)
  case None
  then show ?thesis using rt_ret [of None None] by (simp add: seqs.simps)
next
  case (Some v)
  with assms show ?thesis by (auto intro!: rt_map round_trip)
qed

lemma binary_round_trip:
  assumes "valid v" and "MarshalBinaryAdapter (put v) = Ok raw" and "length raw < 2 ^ 63"
  shows "UnmarshalBinaryAdapter raw raw_spare get = Ok v"
proof -
  from round_trip [OF assms(1)] obtain bs ys where
    wr: "writes (put v) bs ys" "reads get bs ys v" by (auto simp: rt_def rtp_def)
  from MarshalBinaryAdapter_writes [OF wr(1)] obtain bb where
    "raw = binaryFromCSER bb ys" "bytes_bits bb = bs @ bit_pad (length bs)"
    using assms(2) by auto
  with unmarshal_reads [OF wr(2)] assms(3) show ?thesis by simp
qed

lemma marshal_total: "valid v \<Longrightarrow> \<exists>raw. MarshalBinaryAdapter (put v) = Ok raw"
  using round_trip [of v] MarshalBinaryAdapter_writes by (fastforce simp: rt_def rtp_def)

lemma binary_injective:
  assumes "valid v" "valid w" "MarshalBinaryAdapter (put v) = MarshalBinaryAdapter (put w)"
    and "MarshalBinaryAdapter (put v) = Ok raw" "length raw < 2 ^ 63"
  shows "v = w"
proof -
  have "UnmarshalBinaryAdapter raw [] get = Ok v" "UnmarshalBinaryAdapter raw [] get = Ok w"
    using assms by (auto intro!: binary_round_trip)
  then show ?thesis by simp
qed

end

interpretation u8c: cser_codec Writer_U8 Reader_U8 "\<lambda>_. True"
  by unfold_locales (rule rt_U8)

interpretation u16c: cser_codec Writer_U16 Reader_U16 "\<lambda>_. True"
  by unfold_locales (rule rt_U16)

interpretation u32c: cser_codec Writer_U32 Reader_U32 "\<lambda>_. True"
  by unfold_locales (rule rt_U32)

interpretation u64c: cser_codec Writer_U64 Reader_U64 "\<lambda>_. True"
  by unfold_locales (rule rt_U64)

interpretation boolc: cser_codec Writer_Bool Reader_Bool "\<lambda>_. True"
  by unfold_locales (rule rt_Bool)

interpretation i64c: cser_codec Writer_I64 Reader_I64 "\<lambda>_. True"
  by unfold_locales (rule rt_I64)

interpretation u56c: cser_codec Writer_U56 Reader_U56 "\<lambda>v. unat v < 2 ^ 56"
  by unfold_locales (rule rt_U56)

interpretation bigc: cser_codec Writer_BigInt Reader_BigInt big_ok
  by unfold_locales (rule rt_BigInt)

interpretation fixedc: cser_codec Writer_FixedBytes "Reader_FixedBytes n" "\<lambda>ys. length ys = n" for n
  by unfold_locales (rule rt_FixedBytes)

end
