(* ===== verification/CserSize.thy ===== *)
theory CserSize
  imports CserBinary
begin

text \<open>
  How much a writer can emit.  \<open>emits_at_most W n\<close> bounds what a successful run of \<open>W\<close> adds to
  the two buffers together; with such a bound a codec needs no separate assumption that the
  packed string stays below the 63-bit sizes of the size trailer.
\<close>

definition wsize :: "cser_writer \<Rightarrow> nat" where
  "wsize w = length (w_Bytes (BitsW w)) + length (fw_buf (BytesW w))"

definition emits_at_most :: "(cser_writer, unit) action \<Rightarrow> nat \<Rightarrow> bool" where
  "emits_at_most W n \<longleftrightarrow> (\<forall>w w'. W w = Ok ((), w') \<longrightarrow> wsize w' \<le> wsize w + n)"

named_theorems size_intros \<open>bounds on the output of the writers\<close>

lemma atmost_mono: "emits_at_most W m \<Longrightarrow> m \<le> n \<Longrightarrow> emits_at_most W n"
  by (fastforce simp: emits_at_most_def)

lemma atmost_ret: "emits_at_most (ret ()) 0"
  and atmost_throw: "emits_at_most (throw e) 0"
  and atmost_panic: "emits_at_most panic 0"
  by (auto simp: emits_at_most_def ret_def throw_def panic_def)

lemma atmost_andThen:
  assumes "emits_at_most m a" and "\<And>u. emits_at_most (k u) b"
  shows "emits_at_most (andThen m k) (a + b)"
  unfolding emits_at_most_def
proof (intro allI impI)
  fix w w' assume "andThen m k w = Ok ((), w')"
  then obtain u w1 where "m w = Ok (u, w1)" "k u w1 = Ok ((), w')" by (auto simp: andThen_eq_Ok)
  moreover from this have "wsize w1 \<le> wsize w + a" "wsize w' \<le> wsize w1 + b"
    using assms unfolding emits_at_most_def by auto
  ultimately show "wsize w' \<le> wsize w + (a + b)" by linarith
qed

lemma atmost_Nil: "emits_at_most (seqs []) 0"
  by (simp add: seqs.simps atmost_ret)

lemma atmost_Cons: "emits_at_most W a \<Longrightarrow> emits_at_most (seqs Ws) b \<Longrightarrow> emits_at_most (seqs (W # Ws)) (a + b)"
  by (simp add: seqs.simps atmost_andThen)

lemma atmost_append: "emits_at_most (seqs Vs) a \<Longrightarrow> emits_at_most (seqs Ws) b \<Longrightarrow> emits_at_most (seqs (Vs @ Ws)) (a + b)"
  by (simp add: seqs_append atmost_andThen)

lemma atmost_if: "(c \<Longrightarrow> emits_at_most V a) \<Longrightarrow> (\<not> c \<Longrightarrow> emits_at_most W b) \<Longrightarrow>
    emits_at_most (if c then V else W) (max a b)"
  by (auto intro: atmost_mono)

lemma atmost_if_seqs: "(c \<Longrightarrow> emits_at_most (seqs Vs) a) \<Longrightarrow> (\<not> c \<Longrightarrow> emits_at_most (seqs Ws) b) \<Longrightarrow>
    emits_at_most (seqs (if c then Vs else Ws)) (max a b)"
  by (auto intro: atmost_mono)

lemma atmost_option: "(\<And>v. x = Some v \<Longrightarrow> emits_at_most (W v) a) \<Longrightarrow>
    emits_at_most (case x of None \<Rightarrow> ret () | Some v \<Rightarrow> W v) a"
  by (auto split: option.split intro: atmost_mono [OF atmost_ret])

lemma atmost_for_each:
  "(\<And>v. v \<in> set vs \<Longrightarrow> emits_at_most (W v) a) \<Longrightarrow> emits_at_most (for_each W vs) (length vs * a)"
proof (induction vs)
  case Nil
  then show ?case by (simp add: for_each_def atmost_Nil)
next
  case (Cons v vs)
  then have "emits_at_most (seqs (W v # map W vs)) (a + length vs * a)"
    by (intro atmost_Cons) (simp_all add: for_each_def)
  then show ?case by (simp add: for_each_def)
qed

subsection \<open>Primitives\<close>

lemma bits_Write_grows:
  "bits_Write n v a = Ok ((), a') \<Longrightarrow> length (w_Bytes a') \<le> length (w_Bytes a) + n + 1"
proof (induction n v a arbitrary: a' rule: bits_Write.induct)
  case (1 n v a)
  let ?a1 = "if w_bitOffset a = 0 then a\<lparr>w_Bytes := w_Bytes a @ [0]\<rparr> else a"
  have a1: "length (w_Bytes ?a1) \<le> length (w_Bytes a) + (if w_bitOffset a = 0 then 1 else 0)" by simp
  show ?case
  proof (cases "n \<le> writer_byteBitsFree ?a1")
    case True
    with "1.prems" a1 show ?thesis
      by (subst (asm) bits_Write.simps) (auto simp: Let_def bind_outcome_eq_Ok writeIntoLastByte_def split: if_splits)
  next
    case False
    let ?free = "writer_byteBitsFree ?a1" and ?z = "zeroTopByteBits v (w_bitOffset ?a1)"
    from "1.prems" False obtain a2 where a2: "writeIntoLastByte ?z ?a1 = Ok ((), a2)"
        "bits_Write (n - ?free) (drop_bit ?free v) (a2\<lparr>w_bitOffset := 0\<rparr>) = Ok ((), a')"
      by (subst (asm) bits_Write.simps) (auto simp: Let_def bind_outcome_eq_Ok split: if_splits)
    have "length (w_Bytes a2) = length (w_Bytes ?a1)"
      using a2(1) by (auto simp: writeIntoLastByte_def split: if_splits)
    moreover have "length (w_Bytes a') \<le> length (w_Bytes (a2\<lparr>w_bitOffset := 0\<rparr>)) + (n - ?free) + 1"
      by (rule "1.IH" [OF refl refl False a2(1) refl a2(2)])
    moreover have "w_bitOffset a = 0 \<longrightarrow> ?free = 8" by (simp add: writer_byteBitsFree_def)
    ultimately show ?thesis using a1 False by (auto split: if_splits)
  qed
qed

lemma atmost_bits: "emits_at_most (on_BitsW (bits_Write n v)) (n + 1)"
  using bits_Write_grows by (fastforce simp: emits_at_most_def on_BitsW_def wsize_def bind_outcome_eq_Ok)

lemma BitCompact_grows:
  assumes "sz \<le> 8" and "unat v < 256 ^ (8 - sz)" and "minSize \<le> 8"
  shows "length (fw_buf (snd (writeUint64BitCompact_loop sz v minSize b))) \<le> length (fw_buf b) + (8 - sz)"
  using assms
proof (induction sz v minSize b rule: writeUint64BitCompact_loop.induct)
  case (1 sz v minSize b)
  show ?case
  proof (cases "sz < minSize \<or> v \<noteq> 0")
    case True
    have "sz < 8"
    proof (rule ccontr)
      assume "\<not> sz < 8"
      with "1.prems" have "sz = 8" "v = 0" by (auto simp: unsigned_eq_0_iff)
      with True "1.prems" show False by simp
    qed
    then have *: "(256 :: nat) ^ (8 - sz) = 256 * 256 ^ (8 - (sz + 1))"
      by (metis Suc_diff_Suc Suc_eq_plus1 power_Suc)
    have "unat (drop_bit 8 v) < 256 ^ (8 - (sz + 1))"
      unfolding unat_drop_bit_eq using "1.prems"(2) unfolding *
      by (simp add: drop_bit_eq_div less_mult_imp_div_less mult.commute)
    with True \<open>sz < 8\<close> "1.prems" "1.IH" show ?thesis
      by (subst writeUint64BitCompact_loop.simps) (fastforce simp: fast_WriteByte_def)
  next
    case False
    then show ?thesis by (subst writeUint64BitCompact_loop.simps) simp
  qed
qed

lemma atmost_writeU64_bits:
  assumes "minSize \<le> 8"
  shows "emits_at_most (writeU64_bits minSize n v) (n + 9)"
  unfolding emits_at_most_def
proof (intro allI impI)
  fix w w' assume w: "writeU64_bits minSize n v w = Ok ((), w')"
  obtain sz b where b: "writeUint64BitCompact v minSize (BytesW w) = (sz, b)" by force
  have "unat v < 256 ^ (8 - 0)" using unsigned_less [of v, where ?'a = nat] by simp
  with assms b have len: "length (fw_buf b) \<le> length (fw_buf (BytesW w)) + 8"
    using BitCompact_grows [of 0 v minSize "BytesW w"] by (simp add: writeUint64BitCompact_def)
  from w b have "on_BitsW (bits_Write n (word_of_nat (sz - minSize))) (w\<lparr>BytesW := b\<rparr>) = Ok ((), w')"
    by (simp add: writeU64_bits_def)
  then have "wsize w' \<le> wsize (w\<lparr>BytesW := b\<rparr>) + (n + 1)"
    using atmost_bits unfolding emits_at_most_def by blast
  with len show "wsize w' \<le> wsize w + (n + 9)" by (simp add: wsize_def)
qed

lemma atmost_U8: "emits_at_most (Writer_U8 v) 1"
  by (auto simp: emits_at_most_def Writer_U8_def on_BytesW_def fast_WriteByte_def wsize_def)

lemma atmost_FixedBytes: "emits_at_most (Writer_FixedBytes v) (length v)"
  by (auto simp: emits_at_most_def Writer_FixedBytes_def on_BytesW_def fast_Write_def wsize_def)

lemma atmost_U16: "emits_at_most (Writer_U16 v) 12"
  and atmost_U32: "emits_at_most (Writer_U32 u) 12"
  and atmost_U64: "emits_at_most (Writer_U64 x) 12"
  and atmost_U56: "emits_at_most (Writer_U56 x) 12"
  and atmost_Bool: "emits_at_most (Writer_Bool y) 12"
  unfolding Writer_U16_def Writer_U32_def Writer_U64_def Writer_U56_def Writer_Bool_def Let_def
  by (auto intro!: atmost_mono [OF atmost_writeU64_bits] atmost_mono [OF atmost_bits] atmost_mono [OF atmost_panic])

lemma atmost_I64: "emits_at_most (Writer_I64 v) 24"
  unfolding Writer_I64_def
  by (rule atmost_mono [OF atmost_Cons [OF atmost_Bool atmost_Cons [OF atmost_if [OF atmost_U64 atmost_U64] atmost_Nil]]]) simp

lemma atmost_SliceBytes: "emits_at_most (Writer_SliceBytes v) (length v + 12)"
  unfolding Writer_SliceBytes_def
  by (rule atmost_mono [OF atmost_Cons [OF atmost_U56 atmost_Cons [OF atmost_FixedBytes atmost_Nil]]]) simp

lemma atmost_BigInt:
  assumes "big_ok v"
  shows "emits_at_most (Writer_BigInt v) 524"
proof -
  have "nat \<bar>v\<bar> < 256 ^ 512" using assms by (simp add: big_ok_def nat_less_iff)
  then have "length (be_bytes (nat \<bar>v\<bar>)) \<le> 512" by (rule length_be_bytes)
  then show ?thesis unfolding Writer_BigInt_def Let_def
    by (intro atmost_mono [OF atmost_SliceBytes]) auto
qed

lemmas [size_intros] = atmost_ret atmost_throw atmost_Nil atmost_Cons atmost_append atmost_if atmost_if_seqs
  atmost_option atmost_for_each atmost_bits atmost_U8 atmost_FixedBytes atmost_U16 atmost_U32 atmost_U64 atmost_U56
  atmost_Bool atmost_I64 atmost_SliceBytes atmost_BigInt

subsection \<open>Codecs with bounded output\<close>

lemma MarshalBinaryAdapter_length:
  assumes "emits_at_most W n" and "n < 2 ^ 62" and "MarshalBinaryAdapter W = Ok raw"
  shows "length raw < 2 ^ 63"
proof -
  from assms(3) obtain w' where w': "W cser_NewWriter = Ok ((), w')"
    and raw: "raw = binaryFromCSER (w_Bytes (BitsW w')) (fw_buf (BytesW w'))"
    by (auto simp: MarshalBinaryAdapter_def bind_outcome_eq_Ok)
  let ?n = "word_of_nat (length (w_Bytes (BitsW w'))) :: u64"
  have "wsize w' \<le> wsize cser_NewWriter + n" using assms(1) w' unfolding emits_at_most_def by blast
  then have "wsize w' \<le> n" by (simp add: wsize_def cser_NewWriter_def bits_NewWriter_def fast_NewWriter_def)
  moreover have "length (base128 ?n) \<le> Suc 9"
    using length_base128 [of ?n 9] unsigned_less [of ?n, where ?'a = nat] by simp
  ultimately show ?thesis using assms(2) by (simp add: raw binaryFromCSER_eq wsize_def)
qed

locale cser_bounded_codec = cser_codec +
  fixes most :: nat
  assumes emits: "valid v \<Longrightarrow> emits_at_most (put v) most"
    and most: "most < 2 ^ 62"
begin

lemma binary_total:
  assumes "valid v"
  shows "\<exists>raw. MarshalBinaryAdapter (put v) = Ok raw \<and> length raw < 2 ^ 63 \<and>
    (\<forall>spare. UnmarshalBinaryAdapter raw spare get = Ok v)"
proof -
  from marshal_total [OF assms] obtain raw where raw: "MarshalBinaryAdapter (put v) = Ok raw" by blast
  then have "length raw < 2 ^ 63" by (rule MarshalBinaryAdapter_length [OF emits [OF assms] most])
  with raw show ?thesis using binary_round_trip [OF assms raw] by blast
qed

lemma binary_round_trip_bounded:
  "valid v \<Longrightarrow> MarshalBinaryAdapter (put v) = Ok raw \<Longrightarrow> UnmarshalBinaryAdapter raw spare get = Ok v"
  using binary_total by fastforce

lemma binary_injective_bounded:
  "valid v \<Longrightarrow> valid w \<Longrightarrow> MarshalBinaryAdapter (put v) = MarshalBinaryAdapter (put w) \<Longrightarrow> v = w"
  using binary_total [of v] binary_total [of w] by (metis outcome.inject(1))

end

interpretation i64b: cser_bounded_codec Writer_I64 Reader_I64 "\<lambda>_. True" 24
  by unfold_locales (auto intro: atmost_I64)

interpretation sliceb: cser_bounded_codec Writer_SliceBytes "Reader_SliceBytes n"
  "\<lambda>ys. length ys \<le> n \<and> length ys < 2 ^ 32" "2 ^ 33" for n
proof unfold_locales
  fix ys :: "byte list"
  assume ok: "length ys \<le> n \<and> length ys < 2 ^ 32"
  then show "rt (Writer_SliceBytes ys) (Reader_SliceBytes n) ys" by (intro rt_SliceBytes) auto
  show "emits_at_most (Writer_SliceBytes ys) (2 ^ 33)" by (rule atmost_mono [OF atmost_SliceBytes]) (use ok in simp)
qed simp

text \<open>
  Property C4.  Every 64-bit integer, negative ones and the smallest one included, survives
  serialization to bytes and back, whatever bytes lie behind the string in memory.
\<close>

theorem int64_binary_round_trip:
  "\<exists>raw. MarshalBinaryAdapter (Writer_I64 v) = Ok raw \<and>
     (\<forall>spare. UnmarshalBinaryAdapter raw spare Reader_I64 = Ok v)"
  using i64b.binary_total [of v] by auto


end
