(* ===== verification/CserSafety.thy ===== *)
theory CserSafety
  imports CserBinary
begin

unbundle bit_operations_syntax

text \<open>
  What a decoder accepts.  A reader built from the \<open>cser\<close> primitives may run past the end of the
  body into the spare capacity of the slice, but then the final check refuses the input, so
  whether a byte string is accepted, and as what, never depends on bytes outside it
  (\<open>cser_confined\<close>).  The fixed-width numbers are canonical: the bits and bytes a reader
  consumes are the ones the writer emits for the value it returns.
\<close>

subsection \<open>Readers confined to the body\<close>

definition with_spare :: "byte list \<Rightarrow> cser_reader \<Rightarrow> cser_reader" where
  "with_spare sp r = r\<lparr>BytesR := (BytesR r)\<lparr>fr_spare := sp\<rparr>\<rparr>"

definition confined :: "(cser_reader, 'a) action \<Rightarrow> bool" where
  "confined m \<longleftrightarrow> (\<forall>r v r'. m r = Ok (v, r') \<longrightarrow>
     fr_buf (BytesR r') = fr_buf (BytesR r) \<and> fr_offset (BytesR r) \<le> fr_offset (BytesR r') \<and>
     (fr_offset (BytesR r') \<le> length (fr_buf (BytesR r)) \<longrightarrow>
        (\<forall>sp. m (with_spare sp r) = Ok (v, with_spare sp r'))))"

named_theorems confined_intros \<open>readers that stay inside the body\<close>

lemma confined_ret [confined_intros]: "confined (ret a)"
  by (simp add: confined_def ret_def)

lemma confined_throw [confined_intros]: "confined (throw e)"
  by (simp add: confined_def throw_def)

lemma confined_panic [confined_intros]: "confined panic"
  by (simp add: confined_def panic_def)

lemma confined_andThen [confined_intros]:
  assumes "confined m" and "\<And>a. confined (k a)"
  shows "confined (andThen m k)"
  unfolding confined_def
proof (intro allI impI)
  fix r v r' assume "andThen m k r = Ok (v, r')"
  then obtain a r1 where m: "m r = Ok (a, r1)" and k: "k a r1 = Ok (v, r')"
    by (auto simp: andThen_eq_Ok)
  have mm: "fr_buf (BytesR r1) = fr_buf (BytesR r)" "fr_offset (BytesR r) \<le> fr_offset (BytesR r1)"
    "fr_offset (BytesR r1) \<le> length (fr_buf (BytesR r)) \<Longrightarrow> m (with_spare sp r) = Ok (a, with_spare sp r1)" for sp
    using assms(1) m unfolding confined_def by blast+
  have kk: "fr_buf (BytesR r') = fr_buf (BytesR r1)" "fr_offset (BytesR r1) \<le> fr_offset (BytesR r')"
    "fr_offset (BytesR r') \<le> length (fr_buf (BytesR r1)) \<Longrightarrow> k a (with_spare sp r1) = Ok (v, with_spare sp r')" for sp
    using assms(2) k unfolding confined_def by blast+
  show "fr_buf (BytesR r') = fr_buf (BytesR r) \<and> fr_offset (BytesR r) \<le> fr_offset (BytesR r') \<and>
      (fr_offset (BytesR r') \<le> length (fr_buf (BytesR r)) \<longrightarrow>
        (\<forall>sp. andThen m k (with_spare sp r) = Ok (v, with_spare sp r')))"
    using mm kk by (auto simp: andThen_apply_Ok)
qed

lemma confined_if [confined_intros]: "confined a \<Longrightarrow> confined b \<Longrightarrow> confined (if c then a else b)"
  by simp

lemma confined_prod [confined_intros]:
  "(\<And>x y. confined (f x y)) \<Longrightarrow> confined (case p of (x, y) \<Rightarrow> f x y)"
  by (cases p) simp

lemma confined_repeat [confined_intros]: "confined m \<Longrightarrow> confined (repeat_action n m)"
  by (induction n) (auto intro!: confined_intros)

lemma confined_on_BitsR [confined_intros]: "confined (on_BitsR m)"
  by (auto simp: confined_def on_BitsR_def with_spare_def bind_outcome_eq_Ok)

lemma confined_ReadByte [confined_intros]: "confined (on_BytesR fast_ReadByte)"
  by (auto simp: confined_def on_BytesR_def with_spare_def bind_outcome_eq_Ok fast_ReadByte_def split: if_splits)

lemma confined_Read [confined_intros]: "confined (on_BytesR (fast_Read n))"
  by (auto simp: confined_def on_BytesR_def with_spare_def bind_outcome_eq_Ok fast_Read_def split: if_splits)

lemma confined_BitCompact [confined_intros]: "confined (on_BytesR (readUint64BitCompact n))"
proof -
  have "on_BytesR (readUint64BitCompact n) = andThen (on_BytesR (fast_Read n)) (\<lambda>buf.
      let (v, l) = readUint64BitCompact_loop 0 buf 0 0 in if n > 1 \<and> l = 0 then panic else ret v)"
    by (auto simp: fun_eq_iff on_BytesR_def readUint64BitCompact_def andThen_def panic_def ret_def
        fast_Read_def Let_def split: prod.splits)
  then show ?thesis by (auto intro!: confined_intros simp: Let_def)
qed

lemmas reader_defs = Reader_U8_def Reader_U16_def Reader_U32_def Reader_U64_def Reader_U56_def Reader_Bool_def
  Reader_I64_def Reader_FixedBytes_def Reader_SliceBytes_def Reader_BigInt_def readU64_bits_def

lemma confined_primitives [confined_intros]:
  "confined Reader_U8" "confined Reader_U16" "confined Reader_U32" "confined Reader_U64" "confined Reader_U56"
  "confined Reader_Bool" "confined Reader_I64" "confined (Reader_FixedBytes n)" "confined (Reader_SliceBytes n)"
  "confined Reader_BigInt"
  by (auto simp: reader_defs intro!: confined_intros)

locale cser_confined =
  fixes get :: "(cser_reader, 'a) action"
  assumes confined: "confined get"
begin

lemma spare_irrelevant:
  assumes "UnmarshalBinaryAdapter raw sp get = Ok v"
  shows "UnmarshalBinaryAdapter raw sp' get = Ok v"
proof -
  have rec: "recover e x = Ok v \<longleftrightarrow> x = Ok v" for e and x :: "'a outcome" by (cases x) auto
  from assms obtain bbits bbytes spare where
    un: "binaryToCSER raw sp = Ok (bbits, bbytes, spare)"
    by (auto simp: UnmarshalBinaryAdapter_def rec bind_outcome_eq_Ok)
  then obtain spare' where un': "binaryToCSER raw sp' = Ok (bbits, bbytes, spare')"
    by (auto simp: binaryToCSER_def Let_def bind_outcome_eq_Ok split: if_splits)
  let ?r = "\<lparr>BitsR = bits_NewReader bbits, BytesR = fast_NewReader bbytes spare\<rparr>"
  from assms un obtain r' where g: "get ?r = Ok (v, r')" and e: "fast_Empty (BytesR r')"
    and rest: "\<not> NonReadBytes (BitsR r') > 1"
      "\<exists>b. bits_Read (NonReadBits (BitsR r')) (BitsR r') = Ok (0, b)"
    by (auto simp: UnmarshalBinaryAdapter_def rec bind_outcome_eq_Ok Let_def split: if_splits)
  from g confined have buf: "fr_buf (BytesR r') = bbytes"
    and step: "fr_offset (BytesR r') \<le> length bbytes \<Longrightarrow> get (with_spare spare' ?r) = Ok (v, with_spare spare' r')"
    unfolding confined_def by (force simp: fast_NewReader_def)+
  have "get \<lparr>BitsR = bits_NewReader bbits, BytesR = fast_NewReader bbytes spare'\<rparr> = Ok (v, with_spare spare' r')"
    using step e buf by (simp add: fast_Empty_def with_spare_def fast_NewReader_def)
  with un' rest e show ?thesis
    by (auto simp: UnmarshalBinaryAdapter_def with_spare_def fast_Empty_def Let_def)
qed

end

end
