(* ===== verification/TxSerializer.thy ===== *)
theory TxSerializer
  imports Transaction CserSize CserSafety
begin

text \<open>
  \<^verbatim>\<open>native/transaction_serializer.go\<close>: transactions in the compact serialization.  A typed
  transaction is announced by six zero bits; a legacy one starts with its nonce and gas limit,
  whose size bits cannot all be zero because a gas limit below 256 is refused.
\<close>

definition ProtocolMaxMsgSize :: nat where "ProtocolMaxMsgSize = 10 * 1024 * 1024"

definition encodeSig :: "int \<Rightarrow> int \<Rightarrow> byte list" where
  "encodeSig r s = take 32 (PaddedBytes (be_bytes (nat \<bar>r\<bar>)) 32) @ take 32 (PaddedBytes (be_bytes (nat \<bar>s\<bar>)) 32)"

definition decodeSig :: "byte list \<Rightarrow> int \<times> int" where
  "decodeSig sig = (int (be_num (take 32 sig)), int (be_num (take 32 (drop 32 sig))))"

definition marshal_tuple :: "access_tuple \<Rightarrow> (cser_writer, unit) action" where
  "marshal_tuple tuple = seqs
     [Writer_FixedBytes (at_Address tuple),
      Writer_U32 (word_of_nat (length (at_StorageKeys tuple))),
      for_each Writer_FixedBytes (at_StorageKeys tuple)]"

text \<open>The fields after the nonce and the gas limit, in the order they are written.\<close>

definition marshal_tx_rest :: "transaction \<Rightarrow> (cser_writer, unit) action list" where
  "marshal_tx_rest tx =
     (let (v, r, s) = tx_RawSignatureValues tx in
        (if tx_Type tx = DynamicFeeTxType
         then [Writer_BigInt (tx_GasTipCap tx), Writer_BigInt (tx_GasFeeCap tx)]
         else [Writer_BigInt (tx_GasPrice tx)])
        @ [Writer_BigInt (tx_Value tx),
           Writer_Bool (tx_To tx \<noteq> None),
           (case tx_To tx of None \<Rightarrow> ret () | Some addr \<Rightarrow> Writer_FixedBytes addr),
           Writer_SliceBytes (tx_Data tx),
           Writer_BigInt v,
           Writer_FixedBytes (encodeSig r s)]
        @ (if tx_Type tx = AccessListTxType \<or> tx_Type tx = DynamicFeeTxType
           then [Writer_BigInt (tx_ChainId tx),
                 Writer_U32 (word_of_nat (length (tx_AccessList tx))),
                 for_each marshal_tuple (tx_AccessList tx)]
           else []))"

definition TransactionMarshalCSER :: "transaction \<Rightarrow> (cser_writer, unit) action" where
  "TransactionMarshalCSER tx =
     (if tx_Type tx \<noteq> LegacyTxType \<and> tx_Type tx \<noteq> AccessListTxType \<and> tx_Type tx \<noteq> DynamicFeeTxType
      then throw ErrUnknownTxType
      else if tx_Type tx = LegacyTxType \<and> tx_Gas tx \<le> 0xff then throw ErrLegacyGasLimit
      else seqs (
        (if tx_Type tx \<noteq> LegacyTxType then [on_BitsW (bits_Write 6 0), Writer_U8 (tx_Type tx)] else [])
        @ [Writer_U64 (tx_Nonce tx), Writer_U64 (tx_Gas tx)]
        @ marshal_tx_rest tx))"

definition unmarshal_tuple :: "(cser_reader, access_tuple) action" where
  "unmarshal_tuple =
     andThen (Reader_FixedBytes 20) (\<lambda>addr.
     andThen Reader_U32 (\<lambda>keysLen.
       if unat keysLen > ProtocolMaxMsgSize div 32 then throw ErrTooLargeAlloc
       else andThen (repeat_action (unat keysLen) (Reader_FixedBytes 32)) (\<lambda>keys.
         ret \<lparr>at_Address = addr, at_StorageKeys = keys\<rparr>)))"

text \<open>The part that only typed transactions have; \<open>mk\<close> assembles the transaction.\<close>

definition unmarshal_typed :: "(int \<Rightarrow> access_tuple list \<Rightarrow> transaction) \<Rightarrow> (cser_reader, transaction) action" where
  "unmarshal_typed mk =
     andThen Reader_BigInt (\<lambda>chainID.
     andThen Reader_U32 (\<lambda>accessListLen.
       if unat accessListLen > ProtocolMaxMsgSize div 24 then throw ErrTooLargeAlloc
       else andThen (repeat_action (unat accessListLen) unmarshal_tuple) (\<lambda>accessList.
         ret (mk chainID accessList))))"

definition unmarshal_tx_rest :: "byte \<Rightarrow> u64 \<Rightarrow> u64 \<Rightarrow> (cser_reader, transaction) action" where
  "unmarshal_tx_rest txType nonce gasLimit =
     andThen (if txType = DynamicFeeTxType
              then andThen Reader_BigInt (\<lambda>gasTipCap. andThen Reader_BigInt (\<lambda>gasFeeCap.
                     ret (0, gasTipCap, gasFeeCap)))
              else andThen Reader_BigInt (\<lambda>gasPrice. ret (gasPrice, 0, 0))) (\<lambda>(gasPrice, gasTipCap, gasFeeCap).
     andThen Reader_BigInt (\<lambda>amount.
     andThen Reader_Bool (\<lambda>toExists.
     andThen (if toExists then andThen (Reader_FixedBytes 20) (\<lambda>addr. ret (Some addr)) else ret None) (\<lambda>to.
     andThen (Reader_SliceBytes ProtocolMaxMsgSize) (\<lambda>data.
     andThen Reader_BigInt (\<lambda>v.
     andThen (Reader_FixedBytes 64) (\<lambda>sig.
       let (r, s) = decodeSig sig in
       if txType = LegacyTxType then
         ret (Legacy \<lparr>lt_Nonce = nonce, lt_GasPrice = gasPrice, lt_Gas = gasLimit, lt_To = to,
                lt_Value = amount, lt_Data = data, lt_V = v, lt_R = r, lt_S = s\<rparr>)
       else if txType = AccessListTxType then
         unmarshal_typed (\<lambda>chainID accessList.
           AccessList \<lparr>al_ChainID = chainID, al_Nonce = nonce, al_GasPrice = gasPrice,
             al_Gas = gasLimit, al_To = to, al_Value = amount, al_Data = data,
             al_AccessList = accessList, al_V = v, al_R = r, al_S = s\<rparr>)
       else if txType = DynamicFeeTxType then
         unmarshal_typed (\<lambda>chainID accessList.
           DynamicFee \<lparr>df_ChainID = chainID, df_Nonce = nonce, df_GasTipCap = gasTipCap,
             df_GasFeeCap = gasFeeCap, df_Gas = gasLimit, df_To = to, df_Value = amount,
             df_Data = data, df_AccessList = accessList, df_V = v, df_R = r, df_S = s\<rparr>)
       else throw ErrUnknownTxType)))))))"

definition TransactionUnmarshalCSER :: "(cser_reader, transaction) action" where
  "TransactionUnmarshalCSER =
     andThen (on_BitsR (bits_View 6)) (\<lambda>marker.
     andThen (if marker = 0 then andThen (on_BitsR (bits_Read 6)) (\<lambda>_. Reader_U8) else ret LegacyTxType) (\<lambda>txType.
     andThen Reader_U64 (\<lambda>nonce.
     andThen Reader_U64 (\<lambda>gasLimit.
       unmarshal_tx_rest txType nonce gasLimit))))"

subsection \<open>What can be serialized\<close>

definition sig_ok :: "int \<Rightarrow> bool" where
  "sig_ok v \<longleftrightarrow> 0 \<le> v \<and> v < 256 ^ 32"

definition tuple_ok :: "access_tuple \<Rightarrow> bool" where
  "tuple_ok t \<longleftrightarrow> length (at_Address t) = 20 \<and> (\<forall>k \<in> set (at_StorageKeys t). length k = 32) \<and>
     length (at_StorageKeys t) \<le> ProtocolMaxMsgSize div 32"

definition tx_serializable :: "transaction \<Rightarrow> bool" where
  "tx_serializable tx \<longleftrightarrow> (case tx_RawSignatureValues tx of (v, r, s) \<Rightarrow>
     big_ok v \<and> sig_ok r \<and> sig_ok s) \<and>
     big_ok (tx_GasPrice tx) \<and> big_ok (tx_GasTipCap tx) \<and> big_ok (tx_GasFeeCap tx) \<and> big_ok (tx_Value tx) \<and>
     (case tx_To tx of None \<Rightarrow> True | Some a \<Rightarrow> length a = 20) \<and>
     length (tx_Data tx) \<le> ProtocolMaxMsgSize \<and>
     (if tx_Type tx = LegacyTxType then tx_Gas tx > 0xff
      else big_ok (tx_ChainId tx) \<and> (\<forall>t \<in> set (tx_AccessList tx). tuple_ok t) \<and>
           length (tx_AccessList tx) \<le> ProtocolMaxMsgSize div 24)"

lemma length_PaddedBytes: "length b \<le> n \<Longrightarrow> length (PaddedBytes b n) = n"
  and be_num_PaddedBytes: "be_num (PaddedBytes b n) = be_num b"
  by (simp_all add: PaddedBytes_def)

lemma sig_bytes:
  assumes "sig_ok v"
  shows "length (be_bytes (nat \<bar>v\<bar>)) \<le> 32"
proof -
  have "nat v < 256 ^ 32" using assms unfolding sig_ok_def
    by (metis nat_less_iff of_nat_numeral of_nat_power)
  then show ?thesis using assms unfolding sig_ok_def by (intro length_be_bytes) simp
qed

lemma decodeSig_encodeSig:
  assumes "sig_ok r" and "sig_ok s"
  shows "length (encodeSig r s) = 64" and "decodeSig (encodeSig r s) = (r, s)"
proof -
  have l: "length (PaddedBytes (be_bytes (nat \<bar>r\<bar>)) 32) = 32" "length (PaddedBytes (be_bytes (nat \<bar>s\<bar>)) 32) = 32"
    using sig_bytes [OF assms(1)] sig_bytes [OF assms(2)] by (simp_all add: length_PaddedBytes)
  then show "length (encodeSig r s) = 64" by (simp add: encodeSig_def)
  show "decodeSig (encodeSig r s) = (r, s)"
    using l assms by (simp add: encodeSig_def decodeSig_def be_num_PaddedBytes sig_ok_def)
qed

lemma unat_word32: "n \<le> ProtocolMaxMsgSize \<Longrightarrow> unat (word_of_nat n :: u32) = n"
  by (simp add: unat_of_nat ProtocolMaxMsgSize_def)

interpretation tuplec: cser_codec marshal_tuple unmarshal_tuple tuple_ok
proof unfold_locales
  fix t assume "tuple_ok t"
  then have len: "length (at_StorageKeys t) \<le> ProtocolMaxMsgSize div 32"
    and keys: "rt (for_each Writer_FixedBytes (at_StorageKeys t))
      (repeat_action (length (at_StorageKeys t)) (Reader_FixedBytes 32)) (at_StorageKeys t)"
    and addr: "length (at_Address t) = 20"
    by (auto simp: tuple_ok_def intro!: fixedc.list_round_trip)
  from len have "unat (word_of_nat (length (at_StorageKeys t)) :: u32) = length (at_StorageKeys t)"
    by (intro unat_word32) simp
  then show "rt (marshal_tuple t) unmarshal_tuple t"
    unfolding marshal_tuple_def unmarshal_tuple_def
    using len addr by (auto intro!: codec_intros rt_seq [OF keys])
qed

lemma byte_len_large:
  assumes "g > 0xff"
  shows "1 < byte_len 1 g"
proof -
  have "byte_len 1 g \<noteq> 1"
  proof
    assume "byte_len 1 g = 1"
    with byte_len_enough [of 1 g] have "drop_bit 8 g = 0" by simp
    then have "unat (drop_bit 8 g) = 0" by (simp only: unsigned_eq_0_iff)
    then have "unat g < 256" unfolding unat_drop_bit_eq by (simp add: drop_bit_eq_div)
    with assms show False by (simp add: word_less_nat_alt)
  qed
  with byte_len_ge [of 1 g] show ?thesis by simp
qed

lemma marked_gas:
  assumes "g > 0xff"
  shows "rtp (marked 3) (Writer_U64 g) Reader_U64 g"
proof (rule rtp_weaken [OF rtp_U64])
  let ?s = "word_of_nat (byte_len 1 g - 1) :: u64"
  have "byte_len 1 g \<le> 8" by (rule byte_len_word) (use unsigned_less [of g, where ?'a = nat] in auto)
  moreover have "1 < byte_len 1 g" using assms by (rule byte_len_large)
  ultimately have k: "0 < byte_len 1 g - 1" "byte_len 1 g - 1 < 8" by auto
  then have "unat ?s = byte_len 1 g - 1" by (subst unat_of_nat) simp
  with k have "marked 3 (num_bits 3 ?s)"
    by (intro marked_num_bits) (auto simp: unat_gt_0 [symmetric])
  then show "bs = num_bits 3 ?s \<Longrightarrow> marked 3 bs" for bs by simp
qed

lemma rt_typed:
  assumes "big_ok c" and "\<forall>t \<in> set al. tuple_ok t" and "length al \<le> ProtocolMaxMsgSize div 24"
  shows "rt (seqs [Writer_BigInt c, Writer_U32 (word_of_nat (length al)), for_each marshal_tuple al])
    (unmarshal_typed mk) (mk c al)"
proof -
  have "unat (word_of_nat (length al) :: u32) = length al"
    using assms(3) by (intro unat_word32) simp
  with assms show ?thesis
    unfolding unmarshal_typed_def
    by (auto intro!: codec_intros rt_seq [OF tuplec.list_round_trip])
qed

lemmas tx_rest_simps = marshal_tx_rest_def unmarshal_tx_rest_def tx_serializable_def tx_type_simps
  decodeSig_encodeSig andThen_assoc

lemma rt_tx_rest:
  assumes "tx_serializable tx"
  shows "rt (seqs (marshal_tx_rest tx)) (unmarshal_tx_rest (tx_Type tx) (tx_Nonce tx) (tx_Gas tx)) tx"
proof -
  have data: "length (tx_Data tx) \<le> ProtocolMaxMsgSize \<Longrightarrow> length (tx_Data tx) < 2 ^ 56"
    by (simp add: ProtocolMaxMsgSize_def)
  show ?thesis
  proof (cases tx)
    case (Legacy t)
    with assms data show ?thesis
      by (auto intro!: codec_intros LegacyTx.equality simp: tx_rest_simps)
  next
    case (AccessList t)
    have mk: "rt W (unmarshal_typed mk) (mk (al_ChainID t) (al_AccessList t)) \<Longrightarrow>
        mk (al_ChainID t) (al_AccessList t) = AccessList t \<Longrightarrow> rt W (unmarshal_typed mk) (AccessList t)"
      for W mk by simp
    from AccessList assms data show ?thesis
      by (auto intro!: codec_intros mk [OF rt_typed] AccessListTx.equality simp: tx_rest_simps)
  next
    case (DynamicFee t)
    have mk: "rt W (unmarshal_typed mk) (mk (df_ChainID t) (df_AccessList t)) \<Longrightarrow>
        mk (df_ChainID t) (df_AccessList t) = DynamicFee t \<Longrightarrow> rt W (unmarshal_typed mk) (DynamicFee t)"
      for W mk by simp
    from DynamicFee assms data show ?thesis
      by (auto intro!: codec_intros mk [OF rt_typed] DynamicFeeTx.equality simp: tx_rest_simps)
  qed
qed

lemma rt_TransactionCSER:
  assumes "tx_serializable tx"
  shows "rt (TransactionMarshalCSER tx) TransactionUnmarshalCSER tx"
proof (cases "tx_Type tx = LegacyTxType")
  case True
  then have gas: "tx_Gas tx > 0xff" using assms by (simp add: tx_serializable_def)
  let ?K = "andThen Reader_U64 (\<lambda>nonce. andThen Reader_U64 (\<lambda>gasLimit.
    unmarshal_tx_rest LegacyTxType nonce gasLimit))"
  have m: "TransactionMarshalCSER tx =
      seqs (Writer_U64 (tx_Nonce tx) # Writer_U64 (tx_Gas tx) # marshal_tx_rest tx)"
    using True gas by (auto simp: TransactionMarshalCSER_def)
  have "rtp (marked 3) (seqs (Writer_U64 (tx_Gas tx) # marshal_tx_rest tx))
      (andThen Reader_U64 (\<lambda>gasLimit. unmarshal_tx_rest LegacyTxType (tx_Nonce tx) gasLimit)) tx"
    using rt_tx_rest [OF assms] True
    by (intro rtp_seq [OF marked_gas [OF gas], of "\<lambda>_. True"]) (auto simp: rt_def marked_append)
  then have "rtp (marked (3 + 3)) (TransactionMarshalCSER tx) ?K tx"
    unfolding m by (rule rtp_seq [OF rtp_U64, of "marked 3"]) (rule marked_later, simp_all only: length_num_bits)
  then show ?thesis
    unfolding TransactionUnmarshalCSER_def by (intro rt_view_marked) auto
next
  case False
  let ?K = "\<lambda>txType. andThen Reader_U64 (\<lambda>nonce. andThen Reader_U64 (\<lambda>gasLimit.
    unmarshal_tx_rest txType nonce gasLimit))"
  from False have m: "TransactionMarshalCSER tx = seqs (on_BitsW (bits_Write 6 0) # Writer_U8 (tx_Type tx) #
      Writer_U64 (tx_Nonce tx) # Writer_U64 (tx_Gas tx) # marshal_tx_rest tx)"
    by (cases tx) (auto simp: TransactionMarshalCSER_def tx_type_simps)
  have "rt (seqs (Writer_U8 (tx_Type tx) # Writer_U64 (tx_Nonce tx) # Writer_U64 (tx_Gas tx) # marshal_tx_rest tx))
      (andThen Reader_U8 ?K) tx"
    using rt_tx_rest [OF assms] by (auto intro!: codec_intros)
  from rt_view_zero [OF this, of 6 "?K LegacyTxType"] show ?thesis
    unfolding m TransactionUnmarshalCSER_def
    by (simp add: if_distrib [where f = "\<lambda>x. andThen x _"] andThen_assoc cong: if_cong)
qed

subsection \<open>The size of a serialized transaction\<close>

lemma atmost_FixedBytes_each:
  "\<forall>k \<in> set ks. length k = n \<Longrightarrow> emits_at_most (for_each Writer_FixedBytes ks) (length ks * n)"
  by (intro atmost_for_each) (metis atmost_FixedBytes)

definition tuple_most :: nat where "tuple_most = ProtocolMaxMsgSize + 32"

definition tx_most :: nat where
  "tx_most = (ProtocolMaxMsgSize div 24) * tuple_most + ProtocolMaxMsgSize + 4096"

lemma atmost_tuple:
  assumes "tuple_ok t"
  shows "emits_at_most (marshal_tuple t) tuple_most"
proof -
  have "emits_at_most (marshal_tuple t) (20 + (12 + (length (at_StorageKeys t) * 32 + 0)))"
    unfolding marshal_tuple_def
    using assms atmost_FixedBytes [of "at_Address t"]
    by (intro atmost_Cons atmost_U32 atmost_Nil atmost_FixedBytes_each) (simp_all add: tuple_ok_def)
  moreover have "length (at_StorageKeys t) * 32 \<le> ProtocolMaxMsgSize"
    using assms by (auto simp: tuple_ok_def ProtocolMaxMsgSize_def)
  ultimately show ?thesis by (auto intro: atmost_mono simp: tuple_most_def)
qed

lemma atmost_access_list:
  assumes "\<forall>t \<in> set al. tuple_ok t" and "length al \<le> ProtocolMaxMsgSize div 24"
  shows "emits_at_most (for_each marshal_tuple al) ((ProtocolMaxMsgSize div 24) * tuple_most)"
  by (rule atmost_mono [OF atmost_for_each [of al marshal_tuple tuple_most]])
    (use assms atmost_tuple in auto)

lemma atmost_tx_rest:
  assumes "tx_serializable tx"
  shows "emits_at_most (seqs (marshal_tx_rest tx)) ((ProtocolMaxMsgSize div 24) * tuple_most + ProtocolMaxMsgSize + 4000)"
proof -
  obtain v r s where sig: "tx_RawSignatureValues tx = (v, r, s)" by (cases "tx_RawSignatureValues tx") auto
  note ok = assms [unfolded tx_serializable_def sig]
  have prices: "emits_at_most (seqs (if tx_Type tx = DynamicFeeTxType
      then [Writer_BigInt (tx_GasTipCap tx), Writer_BigInt (tx_GasFeeCap tx)] else [Writer_BigInt (tx_GasPrice tx)])) 1048"
    by (rule atmost_mono [OF atmost_if_seqs [OF atmost_Cons [OF atmost_BigInt atmost_Cons [OF atmost_BigInt atmost_Nil]]
        atmost_Cons [OF atmost_BigInt atmost_Nil]]]) (use ok in simp_all)
  have to: "emits_at_most (case tx_To tx of None \<Rightarrow> ret () | Some addr \<Rightarrow> Writer_FixedBytes addr) 20"
  proof (rule atmost_option)
    fix a assume "tx_To tx = Some a"
    with ok have "length a = 20" by simp
    then show "emits_at_most (Writer_FixedBytes a) 20" using atmost_FixedBytes [of a] by simp
  qed
  have main: "emits_at_most (seqs [Writer_BigInt (tx_Value tx), Writer_Bool (tx_To tx \<noteq> None),
      (case tx_To tx of None \<Rightarrow> ret () | Some addr \<Rightarrow> Writer_FixedBytes addr),
      Writer_SliceBytes (tx_Data tx), Writer_BigInt v, Writer_FixedBytes (encodeSig r s)]) (ProtocolMaxMsgSize + 1200)"
    by (rule atmost_mono [OF atmost_Cons [OF atmost_BigInt atmost_Cons [OF atmost_Bool atmost_Cons [OF to
        atmost_Cons [OF atmost_SliceBytes atmost_Cons [OF atmost_BigInt atmost_Cons [OF atmost_FixedBytes atmost_Nil]]]]]]])
      (use ok in \<open>simp_all add: decodeSig_encodeSig\<close>)
  have typed: "emits_at_most (seqs (if tx_Type tx = AccessListTxType \<or> tx_Type tx = DynamicFeeTxType
      then [Writer_BigInt (tx_ChainId tx), Writer_U32 (word_of_nat (length (tx_AccessList tx))),
            for_each marshal_tuple (tx_AccessList tx)] else []))
      (524 + (12 + ((ProtocolMaxMsgSize div 24) * tuple_most + 0)))"
    by (rule atmost_mono [OF atmost_if_seqs [OF atmost_Cons [OF atmost_BigInt atmost_Cons [OF atmost_U32
        atmost_Cons [OF atmost_access_list atmost_Nil]]] atmost_Nil]])
      (use ok in \<open>auto simp: LegacyTxType_def AccessListTxType_def DynamicFeeTxType_def\<close>)
  show ?thesis
    unfolding marshal_tx_rest_def sig
    by (simp only: prod.case Let_def) (rule atmost_mono [OF atmost_append [OF prices atmost_append [OF main typed]]], simp)
qed

lemma atmost_TransactionMarshalCSER:
  assumes "tx_serializable tx"
  shows "emits_at_most (TransactionMarshalCSER tx) tx_most"
proof -
  have "emits_at_most (seqs ((if tx_Type tx \<noteq> LegacyTxType then [on_BitsW (bits_Write 6 0), Writer_U8 (tx_Type tx)] else [])
      @ [Writer_U64 (tx_Nonce tx), Writer_U64 (tx_Gas tx)] @ marshal_tx_rest tx)) tx_most"
    by (rule atmost_mono [OF atmost_append [OF atmost_if_seqs [OF atmost_Cons [OF atmost_bits atmost_Cons [OF atmost_U8 atmost_Nil]]
        atmost_Nil] atmost_append [OF atmost_Cons [OF atmost_U64 atmost_Cons [OF atmost_U64 atmost_Nil]] atmost_tx_rest [OF assms]]]])
      (simp add: tx_most_def)
  then show ?thesis
    unfolding TransactionMarshalCSER_def by (auto intro: atmost_mono [OF atmost_throw])
qed

interpretation txc: cser_bounded_codec TransactionMarshalCSER TransactionUnmarshalCSER tx_serializable tx_most
proof unfold_locales
  show "tx_most < 2 ^ 62" by (simp add: tx_most_def tuple_most_def ProtocolMaxMsgSize_def)
qed (rule rt_TransactionCSER atmost_TransactionMarshalCSER, assumption)+

subsection \<open>The reader stays inside the body\<close>

lemma confined_tuple: "confined unmarshal_tuple"
  unfolding unmarshal_tuple_def by (intro confined_intros)

lemma confined_typed: "confined (unmarshal_typed mk)"
  unfolding unmarshal_typed_def by (intro confined_intros confined_tuple)

lemma confined_tx_rest: "confined (unmarshal_tx_rest t n g)"
  unfolding unmarshal_tx_rest_def Let_def by (intro confined_intros confined_typed)

lemma confined_Transaction [confined_intros]: "confined TransactionUnmarshalCSER"
  unfolding TransactionUnmarshalCSER_def by (intro confined_intros confined_tx_rest)

interpretation tx_conf: cser_confined TransactionUnmarshalCSER
  by unfold_locales (rule confined_Transaction)

subsection \<open>Transactions as byte strings\<close>

text \<open>
  Property C1.  Every transaction of the three types whose integers fit (and, for a legacy
  transaction, whose gas limit is above 255) can be serialized, and deserializing the bytes
  returns the transaction, whatever bytes lie behind the string in memory.
\<close>

theorem tx_binary_round_trip:
  assumes "tx_serializable tx"
  shows "\<exists>raw. MarshalBinaryAdapter (TransactionMarshalCSER tx) = Ok raw \<and>
    (\<forall>spare. UnmarshalBinaryAdapter raw spare TransactionUnmarshalCSER = Ok tx)"
  using txc.binary_total [OF assms] by blast

definition sample_tx :: transaction where
  "sample_tx = Legacy \<lparr>lt_Nonce = 7, lt_GasPrice = 1000, lt_Gas = 21000, lt_To = Some (replicate 20 1),
     lt_Value = 5, lt_Data = [1, 2, 3], lt_V = 27, lt_R = 12345, lt_S = 6789\<rparr>"

definition sample_typed_tx :: transaction where
  "sample_typed_tx = DynamicFee \<lparr>df_ChainID = 250, df_Nonce = 0, df_GasTipCap = 2, df_GasFeeCap = 30,
     df_Gas = 21, df_To = None, df_Value = 0, df_Data = [],
     df_AccessList = [\<lparr>at_Address = replicate 20 9, at_StorageKeys = [replicate 32 4]\<rparr>],
     df_V = 1, df_R = 77, df_S = 88\<rparr>"

lemma sample_tx_ok: "tx_serializable sample_tx"
  by (simp add: tx_serializable_def sample_tx_def tx_type_simps big_ok_def sig_ok_def ProtocolMaxMsgSize_def)

lemma sample_typed_tx_ok: "tx_serializable sample_typed_tx"
  by (simp add: tx_serializable_def sample_typed_tx_def tx_type_simps big_ok_def sig_ok_def tuple_ok_def ProtocolMaxMsgSize_def)

theorem tx_binary_round_trip_witness:
  "tx_serializable sample_tx \<and>
   (\<exists>raw. MarshalBinaryAdapter (TransactionMarshalCSER sample_tx) = Ok raw \<and>
     (\<forall>spare. UnmarshalBinaryAdapter raw spare TransactionUnmarshalCSER = Ok sample_tx))"
  using sample_tx_ok tx_binary_round_trip [OF sample_tx_ok] by blast



text \<open>
  Property C3.  Whether bytes are accepted, and as which transaction, does not depend on the
  memory behind the string: although a body read may run past the end of the body inside the
  underlying array, no input that does so is accepted.
\<close>

theorem tx_decode_ignores_spare:
  assumes "UnmarshalBinaryAdapter raw spare TransactionUnmarshalCSER = Ok tx"
  shows "UnmarshalBinaryAdapter raw spare' TransactionUnmarshalCSER = Ok tx"
  using tx_conf.spare_irrelevant [OF assms] .

theorem tx_decode_ignores_spare_witness:
  "\<exists>raw. UnmarshalBinaryAdapter raw [] TransactionUnmarshalCSER = Ok sample_typed_tx \<and>
     UnmarshalBinaryAdapter raw [0xFF, 0x01] TransactionUnmarshalCSER = Ok sample_typed_tx"
proof -
  obtain raw where "UnmarshalBinaryAdapter raw [] TransactionUnmarshalCSER = Ok sample_typed_tx"
    using txc.binary_total [OF sample_typed_tx_ok] by blast
  then show ?thesis using tx_decode_ignores_spare by blast
qed

end
