(* ===== verification/EventSerializer.thy ===== *)
theory EventSerializer
  imports EventHash TxSerializer CserSafety
begin

text \<open>
  \<^verbatim>\<open>native/event_serializer.go\<close>: events in the compact serialization.  Version 0 has no version
  field: two zero bits announce a later version, and an event of version 0 starts with the size
  bits of its epoch, which are not zero because an epoch below 256 is refused.
\<close>

section \<open>Writing\<close>

definition MaxSerializationVersion :: byte where "MaxSerializationVersion = 1"

definition embed :: "'a outcome \<Rightarrow> ('s, 'a) action" where
  "embed r s = bind_outcome r (\<lambda>v. Ok (v, s))"

definition marshal_parent :: "vassalo \<Rightarrow> u32 \<Rightarrow> hash \<Rightarrow> (cser_writer, unit) action" where
  "marshal_parent x lamport p =
     (if lamport < id_Lamport x p then throw ErrSerMalformedEvent
      else seqs [Writer_U32 (lamport - id_Lamport x p), Writer_FixedBytes (drop 8 p)])"

definition any_payload :: "'a event_data_scheme \<Rightarrow> bool" where
  "any_payload e \<longleftrightarrow> e_anyTxs e \<or> e_anyMisbehaviourProofs e \<or> e_anyBlockVotes e \<or> e_anyEpochVote e"

text \<open>The fields from the epoch on, which every version has.\<close>

definition marshal_event_body :: "vassalo \<Rightarrow> 'a event_data_scheme \<Rightarrow> (cser_writer, unit) action list" where
  "marshal_event_body x e =
     [Writer_U32 (e_Epoch e), Writer_U32 (e_Lamport e), Writer_U32 (e_Creator e), Writer_U32 (e_Seq e),
      Writer_U32 (e_Frame e), Writer_U64 (e_creationTime e), Writer_I64 (e_creationTime e - e_medianTime e),
      Writer_U64 (e_gasPowerUsed e), Writer_U64 (shortTermGas (e_gasPowerLeft e)),
      Writer_U64 (longTermGas (e_gasPowerLeft e)),
      Writer_U32 (word_of_nat (length (e_Parents e))), for_each (marshal_parent x (e_Lamport e)) (e_Parents e),
      Writer_Bool (e_prevEpochHash e \<noteq> None),
      (case e_prevEpochHash e of None \<Rightarrow> ret () | Some h \<Rightarrow> Writer_FixedBytes h),
      Writer_Bool (e_anyTxs e)]
     @ (if e_version e > 0
        then [Writer_Bool (e_anyMisbehaviourProofs e), Writer_Bool (e_anyEpochVote e), Writer_Bool (e_anyBlockVotes e)]
        else [])
     @ (if any_payload e then [Writer_FixedBytes (e_payloadHash e)] else [])
     @ [Writer_SliceBytes (e_extra e)]"

definition Event_MarshalCSER :: "vassalo \<Rightarrow> 'a event_data_scheme \<Rightarrow> (cser_writer, unit) action" where
  "Event_MarshalCSER x e = seqs (
     (if e_version e > 0 then [on_BitsW (bits_Write 2 0), Writer_U8 (e_version e)]
      else if e_Epoch e < 256 then [throw ErrTooLowEpoch] else [])
     @ (if e_version e > 0 then [Writer_U16 (e_netForkID e)] else [])
     @ marshal_event_body x e)"

definition Event_MarshalBinary :: "vassalo \<Rightarrow> 'a event_data_scheme \<Rightarrow> byte list outcome" where
  "Event_MarshalBinary x e = MarshalBinaryAdapter (Event_MarshalCSER x e)"

definition MarshalTxsCSER :: "transaction list \<Rightarrow> (cser_writer, unit) action" where
  "MarshalTxsCSER txs = seqs [Writer_U56 (word_of_nat (length txs)), for_each TransactionMarshalCSER txs]"

definition LlrBlockVotes_MarshalCSER :: "LlrBlockVotes \<Rightarrow> (cser_writer, unit) action" where
  "LlrBlockVotes_MarshalCSER bvs = seqs
     [Writer_U64 (bv_Start bvs), Writer_U32 (bv_Epoch bvs), Writer_U32 (word_of_nat (length (bv_Votes bvs))),
      for_each Writer_FixedBytes (bv_Votes bvs)]"

definition LlrEpochVote_MarshalCSER :: "LlrEpochVote \<Rightarrow> (cser_writer, unit) action" where
  "LlrEpochVote_MarshalCSER ers = seqs [Writer_U32 (ev_Epoch ers), Writer_FixedBytes (ev_Vote ers)]"

definition EventPayload_MarshalCSER :: "vassalo \<Rightarrow> event_payload \<Rightarrow> (cser_writer, unit) action" where
  "EventPayload_MarshalCSER x e =
     (if e_anyTxs e \<noteq> (length (e_txs e) \<noteq> 0) then throw ErrSerMalformedEvent
      else if e_anyMisbehaviourProofs e \<noteq> (length (e_misbehaviourProofs e) \<noteq> 0) then throw ErrSerMalformedEvent
      else if e_anyEpochVote e \<noteq> (ev_Epoch (e_epochVote e) \<noteq> 0) then throw ErrSerMalformedEvent
      else if e_anyBlockVotes e \<noteq> (length (bv_Votes (e_blockVotes e)) \<noteq> 0) then throw ErrSerMalformedEvent
      else seqs
        [Event_MarshalCSER x e,
         Writer_FixedBytes (e_sig e),
         (if e_anyTxs e
          then (if e_version e = 0 then MarshalTxsCSER (e_txs e)
                else andThen (embed (EncodeToBytes (makeSliceWriter Transaction_EncodeRLP (e_txs e)))) Writer_SliceBytes)
          else ret ()),
         (if e_anyMisbehaviourProofs e
          then andThen (embed (EncodeToBytes (makeSliceWriter writeMisbehaviourProof (e_misbehaviourProofs e)))) Writer_SliceBytes else ret ()),
         (if e_anyEpochVote e then LlrEpochVote_MarshalCSER (e_epochVote e) else ret ()),
         (if e_anyBlockVotes e then LlrBlockVotes_MarshalCSER (e_blockVotes e) else ret ())])"

definition EventPayload_MarshalBinary :: "vassalo \<Rightarrow> event_payload \<Rightarrow> byte list outcome" where
  "EventPayload_MarshalBinary x e = MarshalBinaryAdapter (EventPayload_MarshalCSER x e)"

section \<open>Reading\<close>

definition unmarshal_parent :: "vassalo \<Rightarrow> u32 \<Rightarrow> u32 \<Rightarrow> (cser_reader, hash) action" where
  "unmarshal_parent x epoch lamport =
     andThen Reader_U32 (\<lambda>lamportDiff.
     andThen (Reader_FixedBytes 24) (\<lambda>h.
       ret (event_ID x epoch (lamport - lamportDiff) h)))"

text \<open>
  The reader after the version and the network fork: \<^verbatim>\<open>parents\<close>, then the flags with the payload
  hash, then the extra data, and the setters last.
\<close>

definition unmarshal_parents :: "vassalo \<Rightarrow> u32 \<Rightarrow> u32 \<Rightarrow> (cser_reader, hash list) action" where
  "unmarshal_parents x epoch lamport =
     andThen Reader_U32 (\<lambda>parentsNum.
       if unat parentsNum > ProtocolMaxMsgSize div 24 then throw ErrTooLargeAlloc
       else repeat_action (unat parentsNum) (unmarshal_parent x epoch lamport))"

definition unmarshal_payloadHash :: "vassalo \<Rightarrow> byte \<Rightarrow> bool \<Rightarrow> (cser_reader, hash) action" where
  "unmarshal_payloadHash x version present =
     andThen (embed (EmptyPayloadHash x version)) (\<lambda>empty.
       if present
       then andThen (Reader_FixedBytes 32) (\<lambda>h. if h = empty then throw ErrNonCanonicalEncoding else ret h)
       else ret empty)"

definition unmarshal_event_body :: "vassalo \<Rightarrow> byte \<Rightarrow> u16 \<Rightarrow> event_payload \<Rightarrow> (cser_reader, event_payload) action" where
  "unmarshal_event_body x version netForkID e =
     andThen Reader_U32 (\<lambda>epoch.
     andThen Reader_U32 (\<lambda>lamport.
     andThen Reader_U32 (\<lambda>creator.
     andThen Reader_U32 (\<lambda>seqn.
     andThen Reader_U32 (\<lambda>frame.
     andThen Reader_U64 (\<lambda>creationTime.
     andThen Reader_I64 (\<lambda>medianTimeDiff.
     andThen Reader_U64 (\<lambda>gasPowerUsed.
     andThen Reader_U64 (\<lambda>gasPowerLeft0.
     andThen Reader_U64 (\<lambda>gasPowerLeft1.
     andThen (unmarshal_parents x epoch lamport) (\<lambda>parents.
     andThen Reader_Bool (\<lambda>prevEpochHashExists.
     andThen (if prevEpochHashExists then andThen (Reader_FixedBytes 32) (\<lambda>h. ret (Some h)) else ret None) (\<lambda>prevEpochHash.
     andThen Reader_Bool (\<lambda>anyTxs.
     andThen (if version > 0 then Reader_Bool else ret False) (\<lambda>anyMisbehaviourProofs.
     andThen (if version > 0 then Reader_Bool else ret False) (\<lambda>anyEpochVote.
     andThen (if version > 0 then Reader_Bool else ret False) (\<lambda>anyBlockVotes.
     andThen (unmarshal_payloadHash x version (anyTxs \<or> anyMisbehaviourProofs \<or> anyEpochVote \<or> anyBlockVotes)) (\<lambda>payloadHash.
     andThen (Reader_SliceBytes ProtocolMaxMsgSize) (\<lambda>extra.
       if version = 0 \<and> epoch < 256 then throw ErrTooLowEpoch
       else ret (e\<lparr>e_version := version, e_netForkID := netForkID, e_Epoch := epoch, e_Lamport := lamport,
         e_Creator := creator, e_Seq := seqn, e_Frame := frame, e_creationTime := creationTime,
         e_medianTime := creationTime - medianTimeDiff, e_gasPowerUsed := gasPowerUsed,
         e_gasPowerLeft := \<lparr>shortTermGas = gasPowerLeft0, longTermGas = gasPowerLeft1\<rparr>,
         e_Parents := parents, e_prevEpochHash := prevEpochHash, e_anyTxs := anyTxs,
         e_anyBlockVotes := anyBlockVotes, e_anyEpochVote := anyEpochVote,
         e_anyMisbehaviourProofs := anyMisbehaviourProofs, e_payloadHash := payloadHash,
         e_extra := extra\<rparr>))))))))))))))))))))"

definition eventUnmarshalCSER :: "vassalo \<Rightarrow> event_payload \<Rightarrow> (cser_reader, event_payload) action" where
  "eventUnmarshalCSER x e =
     andThen (on_BitsR (bits_View 2)) (\<lambda>marker.
     andThen (if marker = 0
              then andThen (on_BitsR (bits_Read 2)) (\<lambda>_. andThen Reader_U8 (\<lambda>version.
                     if version = 0 then throw ErrNonCanonicalEncoding else ret version))
              else ret 0) (\<lambda>version.
       if version > MaxSerializationVersion then throw ErrUnknownVersion
       else andThen (if version > 0 then Reader_U16 else ret 0) (\<lambda>netForkID.
         unmarshal_event_body x version netForkID e)))"

definition LlrBlockVotes_UnmarshalCSER :: "(cser_reader, LlrBlockVotes) action" where
  "LlrBlockVotes_UnmarshalCSER =
     andThen Reader_U64 (\<lambda>start. andThen Reader_U32 (\<lambda>epoch. andThen Reader_U32 (\<lambda>num.
       if unat num > ProtocolMaxMsgSize div 32 then throw ErrTooLargeAlloc
       else andThen (repeat_action (unat num) (Reader_FixedBytes 32)) (\<lambda>records.
         ret \<lparr>bv_Start = start, bv_Epoch = epoch, bv_Votes = records\<rparr>))))"

definition LlrEpochVote_UnmarshalCSER :: "(cser_reader, LlrEpochVote) action" where
  "LlrEpochVote_UnmarshalCSER =
     andThen Reader_U32 (\<lambda>epoch. andThen (Reader_FixedBytes 32) (\<lambda>rec.
       ret \<lparr>ev_Epoch = epoch, ev_Vote = rec\<rparr>))"

definition unmarshal_txs :: "byte \<Rightarrow> (cser_reader, transaction list) action" where
  "unmarshal_txs version =
     (if version = 0
      then andThen Reader_U56 (\<lambda>n.
        if n = 0 then throw ErrNonCanonicalEncoding
        else if unat n > ProtocolMaxMsgSize div 64 then throw ErrTooLargeAlloc
        else repeat_action (unat n) TransactionUnmarshalCSER)
      else andThen (Reader_SliceBytes ProtocolMaxMsgSize) (\<lambda>b. embed (bind_outcome (DecodeBytes b (decodeListSlice Transaction_DecodeRLP)) (\<lambda>txs. Ok (map fst txs)))))"

definition unmarshal_mps :: "(cser_reader, MisbehaviourProof list) action" where
  "unmarshal_mps = andThen (Reader_SliceBytes ProtocolMaxMsgSize) (\<lambda>b. embed (DecodeBytes b (decodeListSlice decodeMisbehaviourProof)))"

definition unmarshal_ev :: "(cser_reader, LlrEpochVote) action" where
  "unmarshal_ev = andThen LlrEpochVote_UnmarshalCSER (\<lambda>ev.
     if ev_Epoch ev = 0 then throw ErrNonCanonicalEncoding else ret ev)"

definition unmarshal_bvs :: "(cser_reader, LlrBlockVotes) action" where
  "unmarshal_bvs = andThen LlrBlockVotes_UnmarshalCSER (\<lambda>bvs.
     if length (bv_Votes bvs) = 0 \<or> bv_Start bvs = 0 \<or> bv_Epoch bvs = 0
     then throw ErrNonCanonicalEncoding else ret bvs)"

definition MutableEventPayload_UnmarshalCSER :: "vassalo \<Rightarrow> event_payload \<Rightarrow> (cser_reader, event_payload) action" where
  "MutableEventPayload_UnmarshalCSER x e0 =
     andThen (eventUnmarshalCSER x e0) (\<lambda>e.
     andThen (Reader_FixedBytes 64) (\<lambda>sig.
     andThen (if e_anyTxs e then unmarshal_txs (e_version e) else ret []) (\<lambda>txs.
     andThen (if e_anyMisbehaviourProofs e then unmarshal_mps else ret []) (\<lambda>mps.
     andThen (if e_anyEpochVote e then unmarshal_ev else ret LlrEpochVote_zero) (\<lambda>ev.
     andThen (if e_anyBlockVotes e then unmarshal_bvs else ret LlrBlockVotes_zero) (\<lambda>bvs.
       ret (e\<lparr>e_sig := sig, e_txs := txs, e_misbehaviourProofs := mps, e_epochVote := ev,
              e_blockVotes := bvs\<rparr>)))))))"

definition MutableEventPayload_UnmarshalBinary :: "vassalo \<Rightarrow> byte list \<Rightarrow> byte list \<Rightarrow> event_payload \<Rightarrow> event_payload outcome" where
  "MutableEventPayload_UnmarshalBinary x raw spare e =
     UnmarshalBinaryAdapter raw spare (MutableEventPayload_UnmarshalCSER x e)"

section \<open>Building\<close>

definition calcHashes :: "vassalo \<Rightarrow> event_payload \<Rightarrow> (hash \<times> hash) outcome" where
  "calcHashes x e = bind_outcome (written (Event_MarshalBinary x e)) (\<lambda>b. Ok (calcEventHashes x b e))"

definition MutableEventPayload_size :: "vassalo \<Rightarrow> event_payload \<Rightarrow> nat outcome" where
  "MutableEventPayload_size x e = (case EventPayload_MarshalBinary x e of
     Ok b \<Rightarrow> Ok (length b) | Fail _ \<Rightarrow> Panic | Panic \<Rightarrow> Panic)"

definition MutableEventPayload_HashToSign :: "vassalo \<Rightarrow> event_payload \<Rightarrow> hash outcome" where
  "MutableEventPayload_HashToSign x e = bind_outcome (calcHashes x e) (\<lambda>(h, _). Ok h)"

definition MutableEventPayload_Locator :: "vassalo \<Rightarrow> event_payload \<Rightarrow> EventLocator outcome" where
  "MutableEventPayload_Locator x e = bind_outcome (calcHashes x e) (\<lambda>(_, baseHash). Ok (asLocator baseHash e))"

definition Build :: "vassalo \<Rightarrow> event_payload \<Rightarrow> built_event outcome" where
  "Build x e = bind_outcome (calcHashes x e) (\<lambda>(locatorHash, baseHash).
     bind_outcome (written (EventPayload_MarshalBinary x e)) (\<lambda>payloadSer.
       Ok (build x locatorHash baseHash (length payloadSer) e)))"

definition EventPayload_UnmarshalBinary :: "vassalo \<Rightarrow> byte list \<Rightarrow> byte list \<Rightarrow> built_event outcome" where
  "EventPayload_UnmarshalBinary x raw spare =
     bind_outcome (MutableEventPayload_UnmarshalBinary x raw spare MutableEventPayload_zero) (\<lambda>mutE.
     bind_outcome (written (Event_MarshalBinary x mutE)) (\<lambda>eventSer.
       let (locatorHash, baseHash) = calcEventHashes x eventSer mutE in
       Ok (build x locatorHash baseHash (length raw) mutE)))"

end
