(* ===== verification/EventRound.thy ===== *)
theory EventRound
  imports EventSerializer
begin

text \<open>
  Events survive the compact serialization (\<^verbatim>\<open>native/event_serializer.go\<close>): what can be
  serialized, that reading returns what was written, for both versions, that the size is bounded,
  and that the memory behind the string does not matter.
\<close>

section \<open>What can be serialized\<close>

text \<open>
  A parent belongs to the epoch of the event, is not younger than the event, and its identifier is
  the one \<^verbatim>\<open>SetEpoch\<close>, \<^verbatim>\<open>SetLamport\<close> and \<^verbatim>\<open>SetID\<close> assemble from its parts.
\<close>

definition parent_ok :: "vassalo \<Rightarrow> u32 \<Rightarrow> u32 \<Rightarrow> hash \<Rightarrow> bool" where
  "parent_ok x epoch lamport p \<longleftrightarrow> length p = 32 \<and> id_Lamport x p \<le> lamport \<and>
     event_ID x epoch (id_Lamport x p) (drop 8 p) = p"

definition payload_hash_ok :: "vassalo \<Rightarrow> 'a event_data_scheme \<Rightarrow> bool" where
  "payload_hash_ok x e \<longleftrightarrow> (\<exists>empty. EmptyPayloadHash x (e_version e) = Ok empty \<and>
     (if any_payload e then length (e_payloadHash e) = 32 \<and> e_payloadHash e \<noteq> empty else e_payloadHash e = empty))"

definition event_ok :: "vassalo \<Rightarrow> 'a event_data_scheme \<Rightarrow> bool" where
  "event_ok x e \<longleftrightarrow> e_version e \<le> MaxSerializationVersion \<and>
     (e_version e = 0 \<longrightarrow> 256 \<le> e_Epoch e \<and> e_netForkID e = 0 \<and>
        \<not> e_anyMisbehaviourProofs e \<and> \<not> e_anyEpochVote e \<and> \<not> e_anyBlockVotes e) \<and>
     (\<forall>p \<in> set (e_Parents e). parent_ok x (e_Epoch e) (e_Lamport e) p) \<and>
     length (e_Parents e) \<le> ProtocolMaxMsgSize div 24 \<and>
     (case e_prevEpochHash e of None \<Rightarrow> True | Some h \<Rightarrow> length h = 32) \<and>
     payload_hash_ok x e \<and> length (e_extra e) \<le> ProtocolMaxMsgSize"

definition txs_enc :: "transaction list \<Rightarrow> byte list" where
  "txs_enc txs = rlp_list (concat (map elem_enc txs))"

definition txs_ok :: "byte \<Rightarrow> transaction list \<Rightarrow> bool" where
  "txs_ok version txs \<longleftrightarrow>
     (if version = 0 then (\<forall>tx \<in> set txs. tx_serializable tx) \<and> length txs \<le> ProtocolMaxMsgSize div 64
      else (\<forall>tx \<in> set txs. tx_ok tx) \<and> length (txs_enc txs) \<le> ProtocolMaxMsgSize)"

definition mps_enc :: "MisbehaviourProof list \<Rightarrow> byte list" where
  "mps_enc mps = rlp_list (concat (map MisbehaviourProof_enc mps))"

definition mps_ok :: "MisbehaviourProof list \<Rightarrow> bool" where
  "mps_ok mps \<longleftrightarrow> (\<forall>mp \<in> set mps. MisbehaviourProof_ok mp) \<and> length (mps_enc mps) \<le> ProtocolMaxMsgSize"

definition epoch_vote_ok :: "LlrEpochVote \<Rightarrow> bool" where
  "epoch_vote_ok ev \<longleftrightarrow> length (ev_Vote ev) = 32 \<and> (ev_Epoch ev = 0 \<longrightarrow> ev = LlrEpochVote_zero)"

definition block_votes_ok :: "LlrBlockVotes \<Rightarrow> bool" where
  "block_votes_ok bvs \<longleftrightarrow> (if bv_Votes bvs = [] then bvs = LlrBlockVotes_zero
     else bv_Start bvs \<noteq> 0 \<and> bv_Epoch bvs \<noteq> 0 \<and> length (bv_Votes bvs) \<le> ProtocolMaxMsgSize div 32 \<and>
          (\<forall>v \<in> set (bv_Votes bvs). length v = 32))"

definition flags_ok :: "event_payload \<Rightarrow> bool" where
  "flags_ok e \<longleftrightarrow> e_anyTxs e = (e_txs e \<noteq> []) \<and> e_anyMisbehaviourProofs e = (e_misbehaviourProofs e \<noteq> []) \<and>
     e_anyEpochVote e = (ev_Epoch (e_epochVote e) \<noteq> 0) \<and> e_anyBlockVotes e = (bv_Votes (e_blockVotes e) \<noteq> [])"

definition payload_ok :: "vassalo \<Rightarrow> event_payload \<Rightarrow> bool" where
  "payload_ok x e \<longleftrightarrow> event_ok x e \<and> flags_ok e \<and> length (e_sig e) = SigSize \<and>
     txs_ok (e_version e) (e_txs e) \<and> mps_ok (e_misbehaviourProofs e) \<and>
     epoch_vote_ok (e_epochVote e) \<and> block_votes_ok (e_blockVotes e)"

section \<open>Parts\<close>

lemma embed_Ok: "embed (Ok v) = ret v"
  by (rule ext) (simp add: embed_def ret_def)

lemma embed_cases: "embed r = (case r of Ok v \<Rightarrow> ret v | Fail e \<Rightarrow> throw e | Panic \<Rightarrow> panic)"
  by (rule ext) (simp add: embed_def ret_def throw_def panic_def split: outcome.split)

lemma rt_then: "rt W R u \<Longrightarrow> k u = ret v \<Longrightarrow> rt W (andThen R k) v"
proof -
  assume W: "rt W R u" and k: "k u = ret v"
  have "rt (seqs [W]) (andThen R k) v" by (rule rt_seq [OF W]) (simp add: k rt_ret)
  then show ?thesis by (simp add: seqs.simps)
qed

interpretation parentc: cser_codec "marshal_parent x l" "unmarshal_parent x ep l" "parent_ok x ep l" for x ep l
proof unfold_locales
  fix p assume p: "parent_ok x ep l p"
  then have "length (drop 8 p) = 24" "\<not> l < id_Lamport x p" "event_ID x ep (id_Lamport x p) (drop 8 p) = p"
    by (auto simp: parent_ok_def)
  then show "rt (marshal_parent x l p) (unmarshal_parent x ep l) p"
    unfolding marshal_parent_def unmarshal_parent_def by (auto intro!: codec_intros)
qed

lemma rt_parents:
  assumes "\<forall>p \<in> set ps. parent_ok x ep l p" and "length ps \<le> ProtocolMaxMsgSize div 24"
  shows "rt (seqs [Writer_U32 (word_of_nat (length ps)), for_each (marshal_parent x l) ps]) (unmarshal_parents x ep l) ps"
proof -
  have "unat (word_of_nat (length ps) :: u32) = length ps" using assms(2) by (intro unat_word32) simp
  with assms show ?thesis
    unfolding unmarshal_parents_def by (intro rt_seq [OF rt_U32] rt_last) (simp add: parentc.list_round_trip)
qed

lemma rt_prevEpochHash:
  "case h of None \<Rightarrow> True | Some v \<Rightarrow> length v = 32 \<Longrightarrow>
   rt (case h of None \<Rightarrow> ret () | Some v \<Rightarrow> Writer_FixedBytes v)
     (if h \<noteq> None then andThen (Reader_FixedBytes 32) (\<lambda>h. ret (Some h)) else ret None) h"
  by (rule fixedc.option_round_trip) simp

lemma rt_payloadHash:
  assumes "payload_hash_ok x e"
  shows "rt (seqs (if any_payload e then [Writer_FixedBytes (e_payloadHash e)] else []))
    (unmarshal_payloadHash x (e_version e) (any_payload e)) (e_payloadHash e)"
proof -
  from assms obtain h where h: "EmptyPayloadHash x (e_version e) = Ok h"
    and ok: "if any_payload e then length (e_payloadHash e) = 32 \<and> e_payloadHash e \<noteq> h else e_payloadHash e = h"
    by (auto simp: payload_hash_ok_def)
  show ?thesis
    unfolding unmarshal_payloadHash_def h embed_Ok using ok
    by (auto intro!: codec_intros)
qed

lemma rt_flags:
  assumes "0 < (v :: byte) \<or> \<not> m \<and> \<not> e \<and> \<not> b" and "rt (seqs Ws) (K m e b) r"
  shows "rt (seqs ((if v > 0 then [Writer_Bool m, Writer_Bool e, Writer_Bool b] else []) @ Ws))
    (andThen (if v > 0 then Reader_Bool else ret False) (\<lambda>m.
     andThen (if v > 0 then Reader_Bool else ret False) (\<lambda>e.
     andThen (if v > 0 then Reader_Bool else ret False) (\<lambda>b. K m e b)))) r"
  using assms by (cases "v > 0") (auto intro!: codec_intros)

lemma rt_append:
  assumes "rt (seqs Vs) R u" and "rt (seqs Ws) (K u) v"
  shows "rt (seqs (Vs @ Ws)) (andThen R K) v"
  using rt_seq [of "seqs Vs" R u Ws K v] assms by (simp only: seqs_nested)

section \<open>The event without its payload\<close>

text \<open>What the first half of the reader fills in: everything but the payload.\<close>

definition header_of :: "event_payload \<Rightarrow> event_payload \<Rightarrow> event_payload" where
  "header_of e0 e = e\<lparr>e_sig := e_sig e0, e_txs := e_txs e0, e_misbehaviourProofs := e_misbehaviourProofs e0,
     e_epochVote := e_epochVote e0, e_blockVotes := e_blockVotes e0\<rparr>"

lemma event_body_eq:
  "marshal_event_body x e = Writer_U32 (e_Epoch e) # Writer_U32 (e_Lamport e) # Writer_U32 (e_Creator e) #
     Writer_U32 (e_Seq e) # Writer_U32 (e_Frame e) # Writer_U64 (e_creationTime e) #
     Writer_I64 (e_creationTime e - e_medianTime e) # Writer_U64 (e_gasPowerUsed e) #
     Writer_U64 (shortTermGas (e_gasPowerLeft e)) # Writer_U64 (longTermGas (e_gasPowerLeft e)) #
     ([Writer_U32 (word_of_nat (length (e_Parents e))), for_each (marshal_parent x (e_Lamport e)) (e_Parents e)]
     @ (Writer_Bool (e_prevEpochHash e \<noteq> None) #
      (case e_prevEpochHash e of None \<Rightarrow> ret () | Some h \<Rightarrow> Writer_FixedBytes h) #
      Writer_Bool (e_anyTxs e) #
      ((if e_version e > 0
        then [Writer_Bool (e_anyMisbehaviourProofs e), Writer_Bool (e_anyEpochVote e), Writer_Bool (e_anyBlockVotes e)]
        else [])
     @ ((if any_payload e then [Writer_FixedBytes (e_payloadHash e)] else [])
     @ [Writer_SliceBytes (e_extra e)]))))"
  by (simp add: marshal_event_body_def)

lemma rt_event_body:
  assumes ok: "event_ok x e" and first: "rtp P (Writer_U32 (e_Epoch e)) Reader_U32 (e_Epoch e)"
    and S: "\<And>bs cs. P bs \<Longrightarrow> S (bs @ cs)"
  shows "rtp S (seqs (marshal_event_body x e))
    (unmarshal_event_body x (e_version e) (e_netForkID e) e0) (header_of e0 e)"
proof -
  note o = ok [unfolded event_ok_def]
  have parents: "rt (seqs [Writer_U32 (word_of_nat (length (e_Parents e))), for_each (marshal_parent x (e_Lamport e)) (e_Parents e)])
      (unmarshal_parents x (e_Epoch e) (e_Lamport e)) (e_Parents e)"
    using o by (intro rt_parents) auto
  have any: "(e_anyTxs e \<or> e_anyMisbehaviourProofs e \<or> e_anyEpochVote e \<or> e_anyBlockVotes e) = any_payload e"
    by (auto simp: any_payload_def)
  have low: "\<not> (e_version e = 0 \<and> e_Epoch e < 256)" using o by auto
  have flags: "0 < e_version e \<or> \<not> e_anyMisbehaviourProofs e \<and> \<not> e_anyEpochVote e \<and> \<not> e_anyBlockVotes e"
    using o by (auto simp: word_gt_0)
  have extra: "rt (Writer_SliceBytes (e_extra e)) (Reader_SliceBytes ProtocolMaxMsgSize) (e_extra e)"
    using o by (intro rt_SliceBytes) (auto simp: ProtocolMaxMsgSize_def)
  have prev: "case e_prevEpochHash e of None \<Rightarrow> True | Some h \<Rightarrow> length h = 32"
    and hash: "payload_hash_ok x e" using o by auto
  show ?thesis
    unfolding event_body_eq unmarshal_event_body_def
    by (rule rtp_seq [OF first, of "\<lambda>_. True"], fold rt_def)
      (intro rt_seq [OF rt_U32] rt_seq [OF rt_U64] rt_seq [OF rt_I64] rt_append [OF parents]
        rt_seq [OF rt_Bool] rt_seq [OF rt_prevEpochHash [OF prev]] rt_flags [OF flags],
       unfold any if_not_P [OF low],
       intro rt_append [OF rt_payloadHash [OF hash]] rt_seq [OF extra] rt_ret, simp_all add: header_of_def S)
qed

lemma marked_epoch:
  assumes "256 \<le> ep"
  shows "rtp (marked 2) (Writer_U32 ep) Reader_U32 ep"
proof (rule rtp_weaken [OF rtp_U32])
  let ?g = "ucast ep :: u64" and ?s = "word_of_nat (byte_len 1 (ucast ep :: u64) - 1) :: u64"
  have u: "unat ?g = unat ep"
    using unsigned_less [of ep, where ?'a = nat] by (simp add: unsigned_ucast_eq take_bit_nat_eq_self)
  have "unat ?g < 256 ^ 4" using unsigned_less [of ep, where ?'a = nat] by (simp add: u)
  then have "byte_len 1 ?g \<le> 4" by (intro byte_len_word) auto
  moreover have "1 < byte_len 1 ?g"
    using assms by (intro byte_len_large) (simp add: word_less_nat_alt word_le_nat_alt u)
  ultimately have k: "0 < byte_len 1 ?g - 1" "byte_len 1 ?g - 1 < 4" by auto
  then have "unat ?s = byte_len 1 ?g - 1" by (subst unat_of_nat) simp
  with k have "marked 2 (num_bits 2 ?s)"
    by (intro marked_num_bits) (auto simp: unat_gt_0 [symmetric])
  then show "bs = num_bits 2 ?s \<Longrightarrow> marked 2 bs" for bs by simp
qed

lemma rt_Event:
  assumes ok: "event_ok x e"
  shows "rt (Event_MarshalCSER x e) (eventUnmarshalCSER x e0) (header_of e0 e)"
proof (cases "e_version e = 0")
  case True
  then have v0: "256 \<le> e_Epoch e" "e_netForkID e = 0" using ok by (auto simp: event_ok_def)
  then have m: "Event_MarshalCSER x e = seqs (marshal_event_body x e)"
    using True by (auto simp: Event_MarshalCSER_def)
  have "rtp (marked 2) (seqs (marshal_event_body x e)) (unmarshal_event_body x 0 0 e0) (header_of e0 e)"
    using rt_event_body [OF ok marked_epoch [OF v0(1)], of "marked 2" e0] by (simp add: True v0 marked_append)
  then show ?thesis
    unfolding m eventUnmarshalCSER_def
    by (intro rt_view_marked) (auto simp: MaxSerializationVersion_def)
next
  case False
  then have v1: "e_version e > 0" "\<not> e_version e > MaxSerializationVersion" using ok by (auto simp: event_ok_def word_gt_0)
  let ?K = "\<lambda>version. if version > MaxSerializationVersion then throw ErrUnknownVersion
       else andThen (if version > 0 then Reader_U16 else ret 0) (\<lambda>netForkID. unmarshal_event_body x version netForkID e0)"
  have m: "Event_MarshalCSER x e = seqs (on_BitsW (bits_Write 2 0) # Writer_U8 (e_version e) #
      Writer_U16 (e_netForkID e) # marshal_event_body x e)"
    using v1 by (simp add: Event_MarshalCSER_def)
  have body: "rt (seqs (marshal_event_body x e)) (unmarshal_event_body x (e_version e) (e_netForkID e) e0) (header_of e0 e)"
    by (rule rt_rtp [OF rt_event_body [OF ok rt_U32 [unfolded rt_def]]]) (rule TrueI)
  have "rt (seqs (Writer_U8 (e_version e) # Writer_U16 (e_netForkID e) # marshal_event_body x e))
      (andThen Reader_U8 (\<lambda>version. andThen (if version = 0 then throw ErrNonCanonicalEncoding else ret version) ?K)) (header_of e0 e)"
    using False v1 by (intro rt_seq [OF rt_U8]) (simp, intro rt_seq [OF rt_U16] body)
  from rt_view_zero [OF this, of 2 "?K 0"] show ?thesis
    unfolding m eventUnmarshalCSER_def
    by (simp add: if_distrib [where f = "\<lambda>x. andThen x _"] andThen_assoc cong: if_cong)
qed

section \<open>The payload\<close>

lemma rlp_list_short: "length b \<le> ProtocolMaxMsgSize \<Longrightarrow> length b < 2 ^ 64 \<and> length b < 2 ^ 56"
  by (simp add: ProtocolMaxMsgSize_def)

definition as_decoded :: "transaction \<Rightarrow> decoded_tx" where
  "as_decoded tx = (tx, Some (length (binary_enc tx)))"

lemma txs_encodes:
  assumes "\<forall>tx \<in> set txs. tx_ok tx" and "length (txs_enc txs) \<le> ProtocolMaxMsgSize"
  shows "EncodeToBytes (makeSliceWriter Transaction_EncodeRLP txs) = Ok (txs_enc txs)"
    and "DecodeBytes (txs_enc txs) (decodeListSlice Transaction_DecodeRLP) = Ok (map as_decoded txs)"
proof -
  let ?ds = "map as_decoded txs"
  have ok: "\<forall>d \<in> set ?ds. decoded_ok d" using assms(1) by (auto simp: as_decoded_def decoded_ok_def)
  have enc: "rlp_list (concat (map decoded_enc ?ds)) = txs_enc txs"
    by (simp add: txs_enc_def decoded_enc_def as_decoded_def comp_def)
  have w: "makeSliceWriter (\<lambda>d. Transaction_EncodeRLP (fst d)) ?ds = makeSliceWriter Transaction_EncodeRLP txs"
    by (simp add: makeSliceWriter_def for_each_def as_decoded_def comp_def)
  have len: "length (rlp_list (concat (map decoded_enc ?ds))) < 2 ^ 64" using rlp_list_short [OF assms(2)] by (simp only: enc)
  show "EncodeToBytes (makeSliceWriter Transaction_EncodeRLP txs) = Ok (txs_enc txs)"
    using tx_rlp.slice.encodes [OF ok len] by (simp only: w enc)
  show "DecodeBytes (txs_enc txs) (decodeListSlice Transaction_DecodeRLP) = Ok ?ds"
    using tx_rlp.slice.decodes_back [OF ok len] by (simp only: enc)
qed

lemma rt_slice_of:
  assumes "length b \<le> ProtocolMaxMsgSize" and "EncodeToBytes W = Ok b" and "k b = ret v"
  shows "rt (andThen (embed (EncodeToBytes W)) Writer_SliceBytes) (andThen (Reader_SliceBytes ProtocolMaxMsgSize) k) v"
  unfolding assms(2) embed_Ok andThen_ret
  using assms rlp_list_short by (intro rt_then [OF rt_SliceBytes]) auto

lemma rt_txs:
  assumes "txs_ok version txs" and "version \<noteq> 0 \<or> txs \<noteq> []"
  shows "rt (if version = 0 then MarshalTxsCSER txs
      else andThen (embed (EncodeToBytes (makeSliceWriter Transaction_EncodeRLP txs))) Writer_SliceBytes)
    (unmarshal_txs version) txs"
proof (cases "version = 0")
  case True
  then have ok: "\<forall>tx \<in> set txs. tx_serializable tx" and len: "length txs \<le> ProtocolMaxMsgSize div 64"
    using assms by (auto simp: txs_ok_def)
  let ?n = "word_of_nat (length txs) :: u64"
  have n: "unat ?n = length txs" using len by (simp add: unat_of_nat ProtocolMaxMsgSize_def)
  have "unat ?n < 2 ^ 56" using len by (simp add: n ProtocolMaxMsgSize_def)
  moreover have "?n \<noteq> 0" using assms(2) True n by (metis length_0_conv unsigned_0)
  ultimately have "rt (MarshalTxsCSER txs) (andThen Reader_U56 (\<lambda>n.
        if n = 0 then throw ErrNonCanonicalEncoding
        else if unat n > ProtocolMaxMsgSize div 64 then throw ErrTooLargeAlloc
        else repeat_action (unat n) TransactionUnmarshalCSER)) txs"
    unfolding MarshalTxsCSER_def
    using len n txc.list_round_trip [OF ok] by (intro rt_seq [OF rt_U56] rt_last) (simp_all del: of_nat_eq_0_iff)
  with True show ?thesis by (simp add: unmarshal_txs_def)
next
  case False
  then have ok: "\<forall>tx \<in> set txs. tx_ok tx" and len: "length (txs_enc txs) \<le> ProtocolMaxMsgSize"
    using assms by (auto simp: txs_ok_def)
  show ?thesis
    unfolding unmarshal_txs_def if_not_P [OF False]
    by (rule rt_slice_of [OF len txs_encodes(1) [OF ok len]])
      (simp add: txs_encodes(2) [OF ok len] embed_Ok as_decoded_def comp_def)
qed

lemma rt_mps:
  assumes "mps_ok mps"
  shows "rt (andThen (embed (EncodeToBytes (makeSliceWriter writeMisbehaviourProof mps))) Writer_SliceBytes) unmarshal_mps mps"
proof -
  from assms have ok: "\<forall>mp \<in> set mps. MisbehaviourProof_ok mp" and len: "length (mps_enc mps) \<le> ProtocolMaxMsgSize"
    by (auto simp: mps_ok_def)
  have short: "length (rlp_list (concat (map MisbehaviourProof_enc mps))) < 2 ^ 64"
    using rlp_list_short [OF len] by (simp only: mps_enc_def)
  show ?thesis
    unfolding unmarshal_mps_def
    by (rule rt_slice_of [OF len mp_rlp.slice.encodes [OF ok short, folded mps_enc_def]])
      (simp only: mp_rlp.slice.decodes_back [OF ok short, folded mps_enc_def] embed_Ok)
qed

lemma rt_ev:
  assumes "epoch_vote_ok ev" and "ev_Epoch ev \<noteq> 0"
  shows "rt (LlrEpochVote_MarshalCSER ev) unmarshal_ev ev"
proof -
  have "rt (LlrEpochVote_MarshalCSER ev) LlrEpochVote_UnmarshalCSER ev"
    unfolding LlrEpochVote_MarshalCSER_def LlrEpochVote_UnmarshalCSER_def
    using assms by (auto intro!: codec_intros simp: epoch_vote_ok_def)
  then show ?thesis unfolding unmarshal_ev_def by (rule rt_then) (simp add: assms)
qed

lemma rt_bvs:
  assumes "block_votes_ok bvs" and "bv_Votes bvs \<noteq> []"
  shows "rt (LlrBlockVotes_MarshalCSER bvs) unmarshal_bvs bvs"
proof -
  from assms have len: "length (bv_Votes bvs) \<le> ProtocolMaxMsgSize div 32"
    and votes: "\<forall>v \<in> set (bv_Votes bvs). length v = 32" by (auto simp: block_votes_ok_def)
  have n: "unat (word_of_nat (length (bv_Votes bvs)) :: u32) = length (bv_Votes bvs)"
    using len by (intro unat_word32) simp
  have "rt (LlrBlockVotes_MarshalCSER bvs) LlrBlockVotes_UnmarshalCSER bvs"
    unfolding LlrBlockVotes_MarshalCSER_def LlrBlockVotes_UnmarshalCSER_def
    using len votes n by (auto intro!: codec_intros rt_seq [OF fixedc.list_round_trip])
  then show ?thesis unfolding unmarshal_bvs_def by (rule rt_then) (use assms in \<open>simp add: block_votes_ok_def\<close>)
qed

lemma rt_present: "(c \<Longrightarrow> rt W R v) \<Longrightarrow> (\<not> c \<Longrightarrow> v = z) \<Longrightarrow> rt (if c then W else ret ()) (if c then R else ret z) v"
  using rt_ret [of z v] by (auto simp: seqs.simps)

text \<open>What \<^verbatim>\<open>EventPayload.MarshalCSER\<close> writes once its four checks have passed.\<close>

definition payload_fields :: "vassalo \<Rightarrow> event_payload \<Rightarrow> (cser_writer, unit) action" where
  "payload_fields x e = seqs
     [Event_MarshalCSER x e, Writer_FixedBytes (e_sig e),
      (if e_anyTxs e then (if e_version e = 0 then MarshalTxsCSER (e_txs e)
        else andThen (embed (EncodeToBytes (makeSliceWriter Transaction_EncodeRLP (e_txs e)))) Writer_SliceBytes) else ret ()),
      (if e_anyMisbehaviourProofs e
        then andThen (embed (EncodeToBytes (makeSliceWriter writeMisbehaviourProof (e_misbehaviourProofs e)))) Writer_SliceBytes else ret ()),
      (if e_anyEpochVote e then LlrEpochVote_MarshalCSER (e_epochVote e) else ret ()),
      (if e_anyBlockVotes e then LlrBlockVotes_MarshalCSER (e_blockVotes e) else ret ())]"

lemma EventPayload_MarshalCSER_eq:
  "EventPayload_MarshalCSER x e = (if flags_ok e then payload_fields x e else throw ErrSerMalformedEvent)"
  by (auto simp: EventPayload_MarshalCSER_def flags_ok_def payload_fields_def)

text \<open>
  The reader asks less than the writer: an RLP list may be empty although its flag is set.
\<close>

definition lax_flags :: "event_payload \<Rightarrow> bool" where
  "lax_flags e \<longleftrightarrow> (e_txs e \<noteq> [] \<longrightarrow> e_anyTxs e) \<and> (e_anyTxs e \<longrightarrow> e_version e \<noteq> 0 \<or> e_txs e \<noteq> []) \<and>
     (e_misbehaviourProofs e \<noteq> [] \<longrightarrow> e_anyMisbehaviourProofs e) \<and>
     e_anyEpochVote e = (ev_Epoch (e_epochVote e) \<noteq> 0) \<and> e_anyBlockVotes e = (bv_Votes (e_blockVotes e) \<noteq> [])"

definition readable :: "vassalo \<Rightarrow> event_payload \<Rightarrow> bool" where
  "readable x e \<longleftrightarrow> event_ok x e \<and> lax_flags e \<and> length (e_sig e) = SigSize \<and>
     txs_ok (e_version e) (e_txs e) \<and> mps_ok (e_misbehaviourProofs e) \<and>
     epoch_vote_ok (e_epochVote e) \<and> block_votes_ok (e_blockVotes e)"

lemma payload_ok_readable: "payload_ok x e \<Longrightarrow> readable x e \<and> flags_ok e"
  by (auto simp: payload_ok_def readable_def flags_ok_def lax_flags_def)

lemma rt_payload_fields:
  assumes ok: "readable x e"
  shows "rt (payload_fields x e) (MutableEventPayload_UnmarshalCSER x e0) e"
proof -
  note o = ok [unfolded readable_def lax_flags_def]
  let ?h = "header_of e0 e"
  have h: "e_anyTxs ?h = e_anyTxs e" "e_anyMisbehaviourProofs ?h = e_anyMisbehaviourProofs e"
    "e_anyEpochVote ?h = e_anyEpochVote e" "e_anyBlockVotes ?h = e_anyBlockVotes e" "e_version ?h = e_version e"
    by (simp_all add: header_of_def)
  have ev0: "rt (Event_MarshalCSER x e) (eventUnmarshalCSER x e0) ?h" using o by (intro rt_Event) simp
  have sig: "rt (Writer_FixedBytes (e_sig e)) (Reader_FixedBytes 64) (e_sig e)"
    using o by (intro rt_FixedBytes) (simp add: SigSize_def)
  show ?thesis
    unfolding payload_fields_def MutableEventPayload_UnmarshalCSER_def
    by (rule rt_seq [OF ev0], unfold h, intro rt_seq [OF sig] rt_seq [OF rt_present [OF rt_txs]]
        rt_seq [OF rt_present [OF rt_mps]] rt_seq [OF rt_present [OF rt_ev]] rt_seq [OF rt_present [OF rt_bvs]] rt_ret)
      (use o in \<open>auto simp: header_of_def epoch_vote_ok_def block_votes_ok_def split: if_splits\<close>)
qed

section \<open>Size\<close>

lemma atmost_parent: "parent_ok x ep l p \<Longrightarrow> emits_at_most (marshal_parent x l p) 36"
  unfolding marshal_parent_def
  by (rule atmost_mono [OF atmost_if [OF atmost_throw atmost_Cons [OF atmost_U32 atmost_Cons [OF atmost_FixedBytes atmost_Nil]]]])
    (simp add: parent_ok_def)

definition event_most :: nat where "event_most = 3 * ProtocolMaxMsgSize + 1000"

lemma atmost_Event:
  assumes "event_ok x e"
  shows "emits_at_most (Event_MarshalCSER x e) event_most"
proof -
  note o = assms [unfolded event_ok_def payload_hash_ok_def]
  have parents: "emits_at_most (for_each (marshal_parent x (e_Lamport e)) (e_Parents e)) (2 * ProtocolMaxMsgSize)"
    by (rule atmost_mono [OF atmost_for_each [of "e_Parents e" _ 36]])
      (use o atmost_parent in \<open>auto simp: ProtocolMaxMsgSize_def\<close>)
  have prev: "emits_at_most (case e_prevEpochHash e of None \<Rightarrow> ret () | Some h \<Rightarrow> Writer_FixedBytes h) 32"
    using o by (intro atmost_option) (auto intro: atmost_mono [OF atmost_FixedBytes])
  have hash: "emits_at_most (seqs (if any_payload e then [Writer_FixedBytes (e_payloadHash e)] else [])) 32"
    using o by (cases "any_payload e")
      (auto intro!: atmost_mono [OF atmost_Cons [OF atmost_FixedBytes atmost_Nil]] atmost_mono [OF atmost_Nil])
  have body: "emits_at_most (seqs (marshal_event_body x e)) (3 * ProtocolMaxMsgSize + 500)"
    unfolding event_body_eq
    by (rule atmost_mono, (rule parents prev hash atmost_Cons atmost_append atmost_U32 atmost_U64 atmost_I64
        atmost_Bool atmost_if_seqs atmost_Nil atmost_SliceBytes)+) (use o in simp)
  have "emits_at_most (seqs (if e_version e > 0 then [on_BitsW (bits_Write 2 0), Writer_U8 (e_version e)]
      else if e_Epoch e < 256 then [throw ErrTooLowEpoch] else [])) 100"
    by (rule atmost_mono, (rule atmost_if_seqs atmost_Cons atmost_bits atmost_U8 atmost_throw atmost_Nil)+) simp
  moreover have "emits_at_most (seqs (if e_version e > 0 then [Writer_U16 (e_netForkID e)] else [])) 100"
    by (rule atmost_mono, (rule atmost_if_seqs atmost_Cons atmost_U16 atmost_Nil)+) simp
  ultimately show ?thesis
    unfolding Event_MarshalCSER_def event_most_def
    by (intro atmost_mono [OF atmost_append [OF _ atmost_append [OF _ body]]]) auto
qed

definition payload_most :: nat where
  "payload_most = event_most + (ProtocolMaxMsgSize div 64) * tx_most + 4 * ProtocolMaxMsgSize + 1000"

lemma atmost_slice_of:
  "length b \<le> ProtocolMaxMsgSize \<Longrightarrow> EncodeToBytes W = Ok b \<Longrightarrow>
    emits_at_most (andThen (embed (EncodeToBytes W)) Writer_SliceBytes) (ProtocolMaxMsgSize + 12)"
  by (simp add: embed_Ok) (rule atmost_mono [OF atmost_SliceBytes], simp)

lemma atmost_txs:
  assumes "txs_ok version txs"
  shows "emits_at_most (if version = 0 then MarshalTxsCSER txs
      else andThen (embed (EncodeToBytes (makeSliceWriter Transaction_EncodeRLP txs))) Writer_SliceBytes)
    ((ProtocolMaxMsgSize div 64) * tx_most + ProtocolMaxMsgSize + 12)"
proof (cases "version = 0")
  case True
  then have ok: "\<forall>tx \<in> set txs. tx_serializable tx" and len: "length txs \<le> ProtocolMaxMsgSize div 64"
    using assms by (auto simp: txs_ok_def)
  have each: "emits_at_most (for_each TransactionMarshalCSER txs) ((ProtocolMaxMsgSize div 64) * tx_most)"
    by (rule atmost_mono [OF atmost_for_each [of txs _ tx_most]])
      (use ok len atmost_TransactionMarshalCSER in \<open>auto intro: mult_right_mono\<close>)
  show ?thesis
    unfolding MarshalTxsCSER_def if_P [OF True]
    by (rule atmost_mono [OF atmost_Cons [OF atmost_U56 atmost_Cons [OF each atmost_Nil]]]) simp
next
  case False
  with assms have "length (txs_enc txs) \<le> ProtocolMaxMsgSize"
    "EncodeToBytes (makeSliceWriter Transaction_EncodeRLP txs) = Ok (txs_enc txs)"
    by (auto simp: txs_ok_def intro: txs_encodes(1))
  from atmost_slice_of [OF this] False show ?thesis by (auto intro: atmost_mono)
qed

lemma atmost_mps:
  assumes "mps_ok mps"
  shows "emits_at_most (andThen (embed (EncodeToBytes (makeSliceWriter writeMisbehaviourProof mps))) Writer_SliceBytes)
    (ProtocolMaxMsgSize + 12)"
proof (rule atmost_slice_of)
  from assms have ok: "\<forall>mp \<in> set mps. MisbehaviourProof_ok mp" and len: "length (mps_enc mps) \<le> ProtocolMaxMsgSize"
    by (auto simp: mps_ok_def)
  show "length (mps_enc mps) \<le> ProtocolMaxMsgSize" by (rule len)
  show "EncodeToBytes (makeSliceWriter writeMisbehaviourProof mps) = Ok (mps_enc mps)"
    using mp_rlp.slice.encodes [OF ok] rlp_list_short [OF len] by (simp only: mps_enc_def)
qed

lemma atmost_votes:
  "epoch_vote_ok ev \<Longrightarrow> emits_at_most (LlrEpochVote_MarshalCSER ev) 44"
  "block_votes_ok bvs \<Longrightarrow> emits_at_most (LlrBlockVotes_MarshalCSER bvs) (ProtocolMaxMsgSize + 36)"
proof -
  assume "epoch_vote_ok ev"
  then show "emits_at_most (LlrEpochVote_MarshalCSER ev) 44"
    unfolding LlrEpochVote_MarshalCSER_def
    by (intro atmost_mono [OF atmost_Cons [OF atmost_U32 atmost_Cons [OF atmost_FixedBytes atmost_Nil]]]) (simp add: epoch_vote_ok_def)
next
  assume ok: "block_votes_ok bvs"
  have "emits_at_most (for_each Writer_FixedBytes (bv_Votes bvs)) (length (bv_Votes bvs) * 32)"
    using ok by (intro atmost_FixedBytes_each) (auto simp: block_votes_ok_def LlrBlockVotes_zero_def split: if_splits)
  moreover have "length (bv_Votes bvs) * 32 \<le> ProtocolMaxMsgSize"
    using ok by (auto simp: block_votes_ok_def ProtocolMaxMsgSize_def split: if_splits)
  ultimately have "emits_at_most (for_each Writer_FixedBytes (bv_Votes bvs)) ProtocolMaxMsgSize" by (rule atmost_mono)
  then show "emits_at_most (LlrBlockVotes_MarshalCSER bvs) (ProtocolMaxMsgSize + 36)"
    unfolding LlrBlockVotes_MarshalCSER_def
    by (intro atmost_mono [OF atmost_Cons [OF atmost_U64 atmost_Cons [OF atmost_U32 atmost_Cons [OF atmost_U32
        atmost_Cons [OF _ atmost_Nil]]]]]) auto
qed

lemma atmost_payload:
  assumes "readable x e"
  shows "emits_at_most (payload_fields x e) payload_most"
proof -
  note o = assms [unfolded readable_def]
  have parts: "emits_at_most (Event_MarshalCSER x e) event_most" "length (e_sig e) = 64"
    using o atmost_Event by (auto simp: SigSize_def)
  have sig: "emits_at_most (Writer_FixedBytes (e_sig e)) 64" using atmost_FixedBytes [of "e_sig e"] parts by simp
  show ?thesis
    unfolding payload_fields_def
    by (rule atmost_mono [OF atmost_Cons [OF parts(1) atmost_Cons [OF sig
          atmost_Cons [OF atmost_if [OF atmost_txs atmost_ret] atmost_Cons [OF atmost_if [OF atmost_mps atmost_ret]
          atmost_Cons [OF atmost_if [OF atmost_votes(1) atmost_ret]
          atmost_Cons [OF atmost_if [OF atmost_votes(2) atmost_ret] atmost_Nil]]]]]]])
      (use o in \<open>simp_all add: payload_most_def\<close>)
qed

lemma payload_most_small: "payload_most < 2 ^ 62"
  by (simp add: payload_most_def event_most_def tx_most_def tuple_most_def ProtocolMaxMsgSize_def)

interpretation fieldsc: cser_bounded_codec "payload_fields x" "MutableEventPayload_UnmarshalCSER x e0" "readable x" payload_most for x e0
  by unfold_locales (rule rt_payload_fields atmost_payload payload_most_small, assumption?)+

interpretation eventc: cser_bounded_codec "EventPayload_MarshalCSER x" "MutableEventPayload_UnmarshalCSER x e0" "payload_ok x" payload_most for x e0
proof unfold_locales
  fix v assume "payload_ok x v"
  then have v: "readable x v" "flags_ok v" using payload_ok_readable by auto
  show "rt (EventPayload_MarshalCSER x v) (MutableEventPayload_UnmarshalCSER x e0) v"
    and "emits_at_most (EventPayload_MarshalCSER x v) payload_most"
    unfolding EventPayload_MarshalCSER_eq if_P [OF v(2)] by (rule rt_payload_fields [OF v(1)], rule atmost_payload [OF v(1)])
qed (rule payload_most_small)

interpretation headerc: cser_bounded_codec "Event_MarshalCSER x" "eventUnmarshalCSER x e0"
  "\<lambda>e. event_ok x e \<and> header_of e0 e = e" event_most for x e0
proof unfold_locales
  fix v assume v: "event_ok x v \<and> header_of e0 v = v"
  then show "rt (Event_MarshalCSER x v) (eventUnmarshalCSER x e0) v" using rt_Event [of x v e0] by simp
  show "emits_at_most (Event_MarshalCSER x v) event_most" using v atmost_Event by blast
qed (simp add: event_most_def ProtocolMaxMsgSize_def)

lemma marshal_header: "Event_MarshalCSER x (header_of e0 e) = Event_MarshalCSER x e"
  and ok_header: "event_ok x (header_of e0 e) = event_ok x e"
  by (simp_all add: header_of_def Event_MarshalCSER_def marshal_event_body_def any_payload_def event_ok_def payload_hash_ok_def)

lemma header_idem: "header_of e0 (header_of e0 e) = header_of e0 e"
  by (simp add: header_of_def)

lemma Event_MarshalBinary_total:
  fixes e :: event_payload
  shows "event_ok x e \<Longrightarrow> \<exists>b. Event_MarshalBinary x e = Ok b"
  using headerc.binary_total [of x "header_of e e" e]
  by (auto simp: Event_MarshalBinary_def marshal_header ok_header header_idem)

section \<open>The reader stays inside the body\<close>

lemma confined_embed [confined_intros]: "confined (embed r)"
  unfolding embed_cases by (auto intro: confined_intros split: outcome.split)

lemma confined_parents [confined_intros]: "confined (unmarshal_parents x ep l)"
  unfolding unmarshal_parents_def unmarshal_parent_def by (intro confined_intros)

lemma confined_event [confined_intros]: "confined (eventUnmarshalCSER x e0)"
  unfolding eventUnmarshalCSER_def unmarshal_event_body_def unmarshal_payloadHash_def by (intro confined_intros)

lemma confined_parts [confined_intros]:
  "confined (unmarshal_txs v)" "confined unmarshal_mps" "confined unmarshal_ev" "confined unmarshal_bvs"
  unfolding unmarshal_txs_def unmarshal_mps_def unmarshal_ev_def unmarshal_bvs_def
    LlrEpochVote_UnmarshalCSER_def LlrBlockVotes_UnmarshalCSER_def
  by (intro confined_intros)+

interpretation event_conf: cser_confined "MutableEventPayload_UnmarshalCSER x e0" for x e0
  by unfold_locales (unfold MutableEventPayload_UnmarshalCSER_def, intro confined_intros)

section \<open>A sample event\<close>

text \<open>
  Sample functions for those of other modules: checksums for the hashes, big-endian integers, and
  identifiers that carry the epoch and the Lamport time in their first eight bytes.
\<close>

definition checksum :: "byte list \<Rightarrow> hash" where
  "checksum bs = replicate 31 0 @ [sum_list bs]"

definition be32 :: "u32 \<Rightarrow> byte list" where
  "be32 w = [ucast (drop_bit 24 w), ucast (drop_bit 16 w), ucast (drop_bit 8 w), ucast w]"

definition of_be32 :: "byte list \<Rightarrow> u32" where
  "of_be32 bs = word_of_nat (be_num (take 4 bs))"

definition sample_lib :: vassalo where
  "sample_lib = \<lparr>hash_Of = (\<lambda>bss. checksum (concat bss)), sha256 = checksum,
     u16_Bytes = (\<lambda>w. drop 2 (be32 (ucast w))), u32_Bytes = be32,
     u64_Bytes = (\<lambda>w. be32 (ucast (drop_bit 32 w)) @ be32 (ucast w)),
     event_ID = (\<lambda>epoch lamport h. be32 epoch @ be32 lamport @ h),
     id_Epoch = of_be32, id_Lamport = (\<lambda>p. of_be32 (drop 4 p)), trie_Hash = (\<lambda>_. Zero_hash)\<rparr>"

definition sample_event :: event_payload where
  "sample_event = MutableEventPayload_zero\<lparr>e_version := 1, e_Epoch := 1, e_Seq := 2, e_Creator := 1, e_Lamport := 2,
     e_Parents := [be32 1 @ be32 1 @ replicate 24 7], e_creationTime := 5, e_medianTime := 9,
     e_anyEpochVote := True, e_epochVote := \<lparr>ev_Epoch = 1, ev_Vote = replicate 32 5\<rparr>,
     e_payloadHash := replicate 31 0 @ [0x61]\<rparr>"

lemma rlp_no_mps: "rlp_Encode (makeSliceWriter writeMisbehaviourProof []) = Ok [0xC0]"
  by code_simp

lemma mps_hash_Nil: "CalcMisbehaviourProofsHash x [] = Ok (sha256 x [0xC0])"
  by (simp add: CalcMisbehaviourProofsHash_def rlp_no_mps written_def)

lemmas zero_defs = MutableEventPayload_zero_def LlrEpochVote_zero_def LlrBlockVotes_zero_def Zero_hash_def

lemmas sample_hash_defs = CalcPayloadHash_def txs_mps_hash_def mps_hash_Nil CalcTxHash_def DeriveSha_def sample_lib_def
  checksum_def LlrEpochVote_Hash_def LlrBlockVotes_Hash_def be32_def sum_list_replicate

lemmas payload_ok_defs = event_ok_def payload_hash_ok_def any_payload_def MaxSerializationVersion_def SigSize_def
  ProtocolMaxMsgSize_def txs_ok_def mps_ok_def block_votes_ok_def epoch_vote_ok_def txs_enc_def mps_enc_def rlp_list_def rlp_head_def

lemma sample_empty_hash: "EmptyPayloadHash sample_lib 1 = Ok (replicate 31 0 @ [0xC0])"
  by (simp add: EmptyPayloadHash_def emptyPayloadHash1_def sample_hash_defs zero_defs)

lemma sample_parent_ok: "parent_ok sample_lib 1 2 (be32 1 @ be32 1 @ replicate 24 7)"
  by code_simp

lemma sample_event_ok: "payload_ok sample_lib sample_event"
  using sample_parent_ok sample_empty_hash
  by (simp add: payload_ok_def flags_ok_def sample_event_def zero_defs payload_ok_defs)

section \<open>Events as byte strings\<close>

text \<open>
  Property C28.  Every well-formed event, of either version, can be serialized, and deserializing
  the bytes returns the event, whatever the event variable held before and whatever bytes lie
  behind the string in memory.
\<close>

theorem event_binary_round_trip:
  assumes "payload_ok x e"
  shows "\<exists>raw. EventPayload_MarshalBinary x e = Ok raw \<and>
    (\<forall>spare e0. MutableEventPayload_UnmarshalBinary x raw spare e0 = Ok e)"
proof -
  obtain raw where raw: "EventPayload_MarshalBinary x e = Ok raw"
    using eventc.marshal_total [OF assms] by (auto simp: EventPayload_MarshalBinary_def)
  then show ?thesis
    using eventc.binary_round_trip_bounded [OF assms]
    by (auto simp: EventPayload_MarshalBinary_def MutableEventPayload_UnmarshalBinary_def)
qed

theorem event_binary_round_trip_witness:
  "payload_ok sample_lib sample_event \<and>
   (\<exists>raw. EventPayload_MarshalBinary sample_lib sample_event = Ok raw \<and>
     (\<forall>spare e0. MutableEventPayload_UnmarshalBinary sample_lib raw spare e0 = Ok sample_event))"
  using sample_event_ok event_binary_round_trip [OF sample_event_ok] by blast

lemma Build_total:
  assumes "payload_ok x e"
  shows "\<exists>b. Build x e = Ok b \<and> b_event b = e"
proof -
  obtain ser where "Event_MarshalBinary x e = Ok ser"
    using assms Event_MarshalBinary_total by (auto simp: payload_ok_def)
  moreover obtain raw where "EventPayload_MarshalBinary x e = Ok raw"
    using eventc.marshal_total [OF assms] by (auto simp: EventPayload_MarshalBinary_def)
  ultimately show ?thesis by (simp add: Build_def calcHashes_def written_def build_def split: prod.split)
qed

lemma received_as_built:
  assumes "payload_ok x e" and "EventPayload_MarshalBinary x e = Ok raw"
  shows "EventPayload_UnmarshalBinary x raw spare = Build x e"
proof -
  obtain ser where ser: "Event_MarshalBinary x e = Ok ser"
    using assms(1) Event_MarshalBinary_total by (auto simp: payload_ok_def)
  have "MutableEventPayload_UnmarshalBinary x raw spare MutableEventPayload_zero = Ok e"
    using eventc.binary_round_trip_bounded [OF assms(1)] assms(2)
    by (auto simp: EventPayload_MarshalBinary_def MutableEventPayload_UnmarshalBinary_def)
  then show ?thesis
    using ser assms(2)
    by (simp add: EventPayload_UnmarshalBinary_def Build_def calcHashes_def written_def build_def split: prod.split)
qed

text \<open>
  Property C29.  What a peer reconstructs from the bytes is the event its author built: the same
  identifier, locator hash, base hash and size.
\<close>

theorem received_event_is_the_built_one:
  assumes "payload_ok x e" and "EventPayload_MarshalBinary x e = Ok raw"
  shows "EventPayload_UnmarshalBinary x raw spare = Build x e \<and> (\<exists>b. Build x e = Ok b \<and> b_event b = e)"
  using received_as_built [OF assms] Build_total [OF assms(1)] by simp

theorem received_event_is_the_built_one_witness:
  "\<exists>raw b. EventPayload_UnmarshalBinary sample_lib raw [0xFF] = Ok b \<and> Build sample_lib sample_event = Ok b \<and>
     e_Parents (b_event b) = [be32 1 @ be32 1 @ replicate 24 7]"
proof -
  obtain raw where raw: "EventPayload_MarshalBinary sample_lib sample_event = Ok raw"
    using eventc.marshal_total [OF sample_event_ok] by (auto simp: EventPayload_MarshalBinary_def)
  from received_event_is_the_built_one [OF sample_event_ok raw, of "[0xFF]"] show ?thesis
    by (auto simp: sample_event_def)
qed





text \<open>
  Property C31.  Whether bytes are accepted as an event, and as which event, does not depend on the
  memory behind the string.
\<close>

theorem event_decode_ignores_spare:
  assumes "MutableEventPayload_UnmarshalBinary x raw spare e0 = Ok e"
  shows "MutableEventPayload_UnmarshalBinary x raw spare' e0 = Ok e"
  using event_conf.spare_irrelevant [OF assms [unfolded MutableEventPayload_UnmarshalBinary_def]]
  by (simp add: MutableEventPayload_UnmarshalBinary_def)

theorem event_decode_ignores_spare_witness:
  "\<exists>raw. MutableEventPayload_UnmarshalBinary sample_lib raw [] MutableEventPayload_zero = Ok sample_event \<and>
     MutableEventPayload_UnmarshalBinary sample_lib raw [1, 2] MutableEventPayload_zero = Ok sample_event"
proof -
  obtain raw where "MutableEventPayload_UnmarshalBinary sample_lib raw [] MutableEventPayload_zero = Ok sample_event"
    using eventc.binary_total [OF sample_event_ok] by (auto simp: MutableEventPayload_UnmarshalBinary_def)
  then show ?thesis using event_decode_ignores_spare by blast
qed

text \<open>
  What \<open>readable\<close> describes can be received, whether or not the writer would produce it; an event
  whose flags and contents disagree cannot be serialized again.
\<close>

lemma readable_received:
  assumes "readable x e"
  obtains raw where "\<And>spare e0. MutableEventPayload_UnmarshalBinary x raw spare e0 = Ok e"
proof -
  obtain raw where raw: "MarshalBinaryAdapter (payload_fields x e) = Ok raw"
    using fieldsc.marshal_total [OF assms] by blast
  show thesis
    using fieldsc.binary_round_trip_bounded [OF assms raw]
    by (intro that [of raw]) (simp add: MutableEventPayload_UnmarshalBinary_def)
qed

lemma malformed_not_serialized:
  "\<not> flags_ok e \<Longrightarrow> EventPayload_MarshalBinary x e = Fail ErrSerMalformedEvent"
  by (simp add: EventPayload_MarshalBinary_def EventPayload_MarshalCSER_eq MarshalBinaryAdapter_def throw_def)

end
