(* ===== verification/HeavyCheck.thy ===== *)
theory HeavyCheck
  imports EpochCheck EventRound
begin

text \<open>
  The checks of signatures and payload (\<^verbatim>\<open>eventcheck/heavycheck\<close>), the check against the parents
  (\<^verbatim>\<open>parentscheck\<close>), the sequence of all checks (\<^verbatim>\<open>all.go\<close>) and the classification of their errors
  (\<^verbatim>\<open>ban.go\<close>).  The reader of the node's state, the verification of an ECDSA signature and the recovery of a
  transaction's sender are arguments.
\<close>

section \<open>Public keys\<close>

record PubKey =
  pk_Type :: byte
  pk_Raw :: "byte list"

definition Secp256k1 :: byte where "Secp256k1 = 0xc0"

definition PubKey_Empty :: "PubKey \<Rightarrow> bool" where
  "PubKey_Empty pk = (length (pk_Raw pk) = 0 \<and> pk_Type pk = 0)"

definition PubKey_Bytes :: "PubKey \<Rightarrow> byte list" where
  "PubKey_Bytes pk = pk_Type pk # pk_Raw pk"

definition PubKey_FromBytes :: "byte list \<Rightarrow> PubKey option" where
  "PubKey_FromBytes b = (case b of [] \<Rightarrow> None | t # r \<Rightarrow> Some \<lparr>pk_Type = t, pk_Raw = r\<rparr>)"

lemma PubKey_Bytes_inject [simp]: "PubKey_Bytes a = PubKey_Bytes b \<longleftrightarrow> a = b"
  by (cases a; cases b) (simp add: PubKey_Bytes_def)

lemma PubKey_round_trip: "PubKey_FromBytes (PubKey_Bytes pk) = Some pk"
  by (simp add: PubKey_FromBytes_def PubKey_Bytes_def)

section \<open>The heavy check\<close>

type_synonym pubkeys = "(u32 \<times> PubKey) list"

record heavy_env =
  he_GetEpochPubKeys :: "pubkeys \<times> u32"
  he_GetEpochPubKeysOf :: "u32 \<Rightarrow> pubkeys"
  he_GetEpochBlockStart :: "u32 \<Rightarrow> u64"
  he_VerifySignature :: "byte list \<Rightarrow> hash \<Rightarrow> byte list \<Rightarrow> bool"
  he_Sender :: "transaction \<Rightarrow> address option"

definition MaxBlocksPerEpoch :: u64 where
  "MaxBlocksPerEpoch = ucast (MaxLiableEpochs - 128)"

definition verifySignature :: "heavy_env \<Rightarrow> hash \<Rightarrow> byte list \<Rightarrow> PubKey \<Rightarrow> bool" where
  "verifySignature h signedHash sig pubkey =
     (pk_Type pubkey = Secp256k1 \<and> he_VerifySignature h (pk_Raw pubkey) signedHash sig)"

definition ValidateEventLocator :: "vassalo \<Rightarrow> heavy_env \<Rightarrow> SignedEventLocator \<Rightarrow> u32 \<Rightarrow> check_error \<Rightarrow> bool option \<Rightarrow> verdict" where
  "ValidateEventLocator x h e authEpoch authErr checkPayload =
     (let pubkeys = he_GetEpochPubKeysOf h authEpoch in
      if length pubkeys = 0 then Reject authErr
      else case map_of pubkeys (lo_Creator (sl_Locator e)) of
        None \<Rightarrow> Reject ErrAuth
      | Some pubkey \<Rightarrow> first_of
          [reject_if (checkPayload = Some False) ErrWrongPayloadHash,
           reject_if (\<not> verifySignature h (HashToSign x (sl_Locator e)) (sl_Sig e) pubkey) ErrWrongEventSig])"

definition matchPubkey :: "heavy_env \<Rightarrow> u32 \<Rightarrow> u32 \<Rightarrow> byte list \<Rightarrow> check_error \<Rightarrow> verdict" where
  "matchPubkey h creator epoch want authErr =
     (let pubkeys = he_GetEpochPubKeysOf h epoch in
      if length pubkeys = 0 then Reject authErr
      else case map_of pubkeys creator of
        None \<Rightarrow> Reject ErrAuth
      | Some pubkey \<Rightarrow> reject_if (PubKey_Bytes pubkey \<noteq> want) ErrPubkeyChanged)"

definition validateBVsEpoch :: "heavy_env \<Rightarrow> LlrBlockVotes \<Rightarrow> verdict" where
  "validateBVsEpoch h bvs =
     (let actualEpochStart = he_GetEpochBlockStart h (bv_Epoch bvs) in first_of
       [reject_if (actualEpochStart = 0) ErrUnknownEpochBVs,
        reject_if (bv_Start bvs < actualEpochStart \<or> LastBlock bvs \<ge> actualEpochStart + MaxBlocksPerEpoch) ErrImpossibleBVsEpoch])"

definition heavy_ValidateBVs :: "vassalo \<Rightarrow> heavy_env \<Rightarrow> LlrSignedBlockVotes \<Rightarrow> verdict" where
  "heavy_ValidateBVs x h bvs = first_of
     [validateBVsEpoch h (sbv_Val bvs),
      ValidateEventLocator x h (sbv_Signed bvs) (bv_Epoch (sbv_Val bvs)) ErrUnknownEpochBVs
        (Some (LlrSignedBlockVotes_CalcPayloadHash x bvs = lo_PayloadHash (sl_Locator (sbv_Signed bvs))))]"

definition heavy_ValidateEV :: "vassalo \<Rightarrow> heavy_env \<Rightarrow> LlrSignedEpochVote \<Rightarrow> verdict" where
  "heavy_ValidateEV x h ev = ValidateEventLocator x h (sev_Signed ev) (ev_Epoch (sev_Val ev) - 1) ErrUnknownEpochEV
     (Some (LlrSignedEpochVote_CalcPayloadHash x ev = lo_PayloadHash (sl_Locator (sev_Signed ev))))"

definition heavy_validate_mp :: "vassalo \<Rightarrow> heavy_env \<Rightarrow> MisbehaviourProof \<Rightarrow> verdict" where
  "heavy_validate_mp x h mp = first_of
     [if_given (mp_EventsDoublesign mp) (\<lambda>(a, b). first_of (map (\<lambda>v.
        ValidateEventLocator x h v (lo_Epoch (sl_Locator v)) ErrUnknownEpochEventLocator None) [a, b])),
      if_given (mp_BlockVoteDoublesign mp) (\<lambda>p. case bvd_Pair p of (a, b) \<Rightarrow> first_of (map (heavy_ValidateBVs x h) [a, b])),
      if_given (mp_WrongBlockVote mp) (\<lambda>p. case wbv_Pals p of (a, b) \<Rightarrow> first_of (map (heavy_ValidateBVs x h) [a, b])),
      if_given (mp_EpochVoteDoublesign mp) (\<lambda>(a, b). first_of (map (heavy_ValidateEV x h) [a, b])),
      if_given (mp_WrongEpochVote mp) (\<lambda>(a, b). first_of (map (heavy_ValidateEV x h) [a, b]))]"

definition ValidateEvent :: "vassalo \<Rightarrow> heavy_env \<Rightarrow> built_event \<Rightarrow> verdict" where
  "ValidateEvent x h be =
     (let e = b_event be; pubkeys = fst (he_GetEpochPubKeys h); epoch = snd (he_GetEpochPubKeys h) in
      if e_Epoch e \<noteq> epoch then Reject ErrNotRelevant
      else case map_of pubkeys (e_Creator e) of
        None \<Rightarrow> Reject ErrAuth
      | Some pubkey \<Rightarrow> first_of
          [reject_if (\<not> verifySignature h (Event_HashToSign be) (e_sig e) pubkey) ErrWrongEventSig,
           first_of (map (heavy_validate_mp x h) (e_misbehaviourProofs e)),
           first_of (map (\<lambda>tx. reject_if (he_Sender h tx = None) ErrMalformedTxSig) (e_txs e)),
           on_ok (CalcPayloadHash x e) (\<lambda>p. reject_if (e_payloadHash e \<noteq> p) ErrWrongPayloadHash),
           if ev_Epoch (e_epochVote e) \<noteq> 0
           then matchPubkey h (e_Creator e) (ev_Epoch (e_epochVote e) - 1) (PubKey_Bytes pubkey) ErrUnknownEpochEV
           else Accept,
           if bv_Epoch (e_blockVotes e) \<noteq> 0
           then first_of [validateBVsEpoch h (e_blockVotes e),
             if bv_Epoch (e_blockVotes e) \<noteq> e_Epoch e
             then matchPubkey h (e_Creator e) (bv_Epoch (e_blockVotes e)) (PubKey_Bytes pubkey) ErrUnknownEpochBVs
             else Accept]
           else Accept])"

section \<open>Parents, and all checks in order\<close>

definition parents_Validate :: "base_checkers \<Rightarrow> event_payload \<Rightarrow> built_event list \<Rightarrow> verdict" where
  "parents_Validate vc e parents = first_of
     [of_base (base_parents vc e parents),
      if dag_SelfParent vc e \<noteq> None then
        (case parents of [] \<Rightarrow> Crash
         | selfParent # _ \<Rightarrow> first_of
             [reject_if (\<not> dag_IsSelfParent vc e (b_id selfParent)) ErrWrongSelfParent,
              reject_if (e_creationTime e \<le> e_creationTime (b_event selfParent)) ErrPastTime])
      else Accept]"

definition Checkers_Validate :: "vassalo \<Rightarrow> base_checkers \<Rightarrow> heavy_env \<Rightarrow> Rules \<Rightarrow> u32 \<Rightarrow> ValidationContext
    \<Rightarrow> built_event \<Rightarrow> built_event list \<Rightarrow> verdict" where
  "Checkers_Validate x vc h rules epoch ctx e parents = first_of
     [basic_Validate vc (b_event e),
      epoch_Validate vc rules epoch (b_event e),
      parents_Validate vc (b_event e) parents,
      if dag_SelfParent vc (b_event e) \<noteq> None
      then (case parents of [] \<Rightarrow> Crash | p # _ \<Rightarrow> gas_Validate vc ctx (b_event e) (Some (b_event p)))
      else gas_Validate vc ctx (b_event e) None,
      ValidateEvent x h e]"

text \<open>\<^verbatim>\<open>bvallcheck\<close> and \<^verbatim>\<open>evallcheck\<close>: the light check at once, then the heavy one.\<close>

definition bvall_check :: "vassalo \<Rightarrow> heavy_env \<Rightarrow> LlrSignedBlockVotes \<Rightarrow> verdict" where
  "bvall_check x h bvs = first_of [basic_ValidateBVs bvs, heavy_ValidateBVs x h bvs]"

definition evall_check :: "vassalo \<Rightarrow> heavy_env \<Rightarrow> LlrSignedEpochVote \<Rightarrow> verdict" where
  "evall_check x h ev = first_of [basic_ValidateEV ev, heavy_ValidateEV x h ev]"

definition IsBan :: "check_error option \<Rightarrow> bool" where
  "IsBan err =
     (if err = Some ErrNotRelevant \<or> err = Some ErrAlreadyConnectedEvent \<or> err = Some ErrAlreadyProcessedBVs
         \<or> err = Some ErrAlreadyProcessedBR \<or> err = Some ErrAlreadyProcessedEV \<or> err = Some ErrAlreadyProcessedER
         \<or> err = Some ErrUnknownEpochBVs \<or> err = Some ErrUndecidedBR \<or> err = Some ErrUnknownEpochEV
         \<or> err = Some ErrUndecidedER \<or> err = Some ErrSpilledEvent \<or> err = Some ErrDuplicateEvent
      then False else err \<noteq> None)"

section \<open>Votes of an accepted event\<close>

lemma Build_locator:
  assumes "Build x e = Ok be" and "e_version e \<noteq> 0"
  shows "b_event be = e" and "Event_HashToSign be = HashToSign x (Event_Locator be)"
proof -
  have v: "\<not> e_version e < 1" using assms(2) by (simp add: word_less_nat_alt unat_gt_0)
  show "b_event be = e" and "Event_HashToSign be = HashToSign x (Event_Locator be)"
    using assms(1) v by (auto simp: Build_def calcHashes_def build_def bind_outcome_eq_Ok calcEventHashes_def Let_def
        Event_HashToSign_def Event_Locator_def asLocator_def split: if_splits)
qed

text \<open>What the heavy check of an event establishes about its creator's key.\<close>

lemma ValidateEvent_Accept:
  assumes "ValidateEvent x h be = Accept"
  obtains pubkey where "snd (he_GetEpochPubKeys h) = e_Epoch (b_event be)"
    and "map_of (fst (he_GetEpochPubKeys h)) (e_Creator (b_event be)) = Some pubkey"
    and "verifySignature h (Event_HashToSign be) (e_sig (b_event be)) pubkey"
    and "CalcPayloadHash x (b_event be) = Ok (e_payloadHash (b_event be))"
    and "ev_Epoch (e_epochVote (b_event be)) \<noteq> 0 \<Longrightarrow>
      matchPubkey h (e_Creator (b_event be)) (ev_Epoch (e_epochVote (b_event be)) - 1) (PubKey_Bytes pubkey) ErrUnknownEpochEV = Accept"
    and "bv_Epoch (e_blockVotes (b_event be)) \<noteq> 0 \<Longrightarrow> validateBVsEpoch h (e_blockVotes (b_event be)) = Accept"
    and "bv_Epoch (e_blockVotes (b_event be)) \<noteq> 0 \<Longrightarrow> bv_Epoch (e_blockVotes (b_event be)) \<noteq> e_Epoch (b_event be) \<Longrightarrow>
      matchPubkey h (e_Creator (b_event be)) (bv_Epoch (e_blockVotes (b_event be))) (PubKey_Bytes pubkey) ErrUnknownEpochBVs = Accept"
proof -
  have ep: "snd (he_GetEpochPubKeys h) = e_Epoch (b_event be)"
    using assms by (auto simp: ValidateEvent_def Let_def split: if_splits)
  obtain pubkey where pk: "map_of (fst (he_GetEpochPubKeys h)) (e_Creator (b_event be)) = Some pubkey"
    using assms by (cases "map_of (fst (he_GetEpochPubKeys h)) (e_Creator (b_event be))")
      (auto simp: ValidateEvent_def Let_def split: if_splits)
  have f: "verifySignature h (Event_HashToSign be) (e_sig (b_event be)) pubkey"
    "CalcPayloadHash x (b_event be) = Ok (e_payloadHash (b_event be))"
    "(if ev_Epoch (e_epochVote (b_event be)) \<noteq> 0
      then matchPubkey h (e_Creator (b_event be)) (ev_Epoch (e_epochVote (b_event be)) - 1) (PubKey_Bytes pubkey) ErrUnknownEpochEV
      else Accept) = Accept"
    "(if bv_Epoch (e_blockVotes (b_event be)) \<noteq> 0
      then first_of [validateBVsEpoch h (e_blockVotes (b_event be)),
             if bv_Epoch (e_blockVotes (b_event be)) \<noteq> e_Epoch (b_event be)
             then matchPubkey h (e_Creator (b_event be)) (bv_Epoch (e_blockVotes (b_event be))) (PubKey_Bytes pubkey) ErrUnknownEpochBVs
             else Accept]
      else Accept) = Accept"
    using assms ep pk by (auto simp: ValidateEvent_def Let_def on_ok_Accept)
  show thesis
    by (rule that [OF ep pk f(1,2)]) (use f(3,4) in simp_all)
qed

lemma matchPubkey_Accept:
  "matchPubkey h c ep (PubKey_Bytes pk) err = Accept \<Longrightarrow> map_of (he_GetEpochPubKeysOf h ep) c = Some pk"
  by (auto simp: matchPubkey_def Let_def split: if_splits option.splits)

lemma ValidateEventLocator_intro:
  assumes "map_of (he_GetEpochPubKeysOf h ep) (lo_Creator (sl_Locator s)) = Some pk" and "p \<noteq> Some False"
    and "verifySignature h (HashToSign x (sl_Locator s)) (sl_Sig s) pk"
  shows "ValidateEventLocator x h s ep err p = Accept"
  using assms by (cases "he_GetEpochPubKeysOf h ep") (auto simp: ValidateEventLocator_def Let_def)

section \<open>A sample vote\<close>

definition sample_heavy :: heavy_env where
  "sample_heavy = (let keys = [(1, \<lparr>pk_Type = Secp256k1, pk_Raw = [2]\<rparr>)] in
     \<lparr>he_GetEpochPubKeys = (keys, 1), he_GetEpochPubKeysOf = (\<lambda>_. keys), he_GetEpochBlockStart = (\<lambda>_. 1),
      he_VerifySignature = (\<lambda>_ _ _. True), he_Sender = (\<lambda>_. None)\<rparr>)"

definition built_parent :: built_event where
  "built_parent = \<lparr>b_event = sample_parent, b_id = be32 1 @ be32 1 @ replicate 24 7, b_baseHash = Zero_hash,
     b_locatorHash = Zero_hash, b_size = 0\<rparr>"

text \<open>An event with an epoch vote; \<open>flag\<close> says whether it claims to have transactions, which it does not.\<close>

definition sample_voter :: "bool \<Rightarrow> event_payload" where
  "sample_voter flag = sample_child\<lparr>e_version := 1, e_Lamport := 2, e_Parents := [be32 1 @ be32 1 @ replicate 24 7],
     e_creationTime := 2, e_gasPowerUsed := 29536,
     e_gasPowerLeft := \<lparr>shortTermGas = 5570464, longTermGas = 2770464\<rparr>,
     e_anyTxs := flag, e_anyEpochVote := True, e_epochVote := \<lparr>ev_Epoch = 1, ev_Vote = replicate 32 5\<rparr>,
     e_payloadHash := replicate 31 0 @ [0x61]\<rparr>"

lemma sample_voter_readable: "readable sample_lib (sample_voter flag)"
  using sample_parent_ok sample_empty_hash
  by (simp add: readable_def lax_flags_def sample_voter_def sample_child_def sample_parent_def zero_defs payload_ok_defs)

lemma sample_voter_hash: "CalcPayloadHash sample_lib (sample_voter flag) = Ok (replicate 31 0 @ [0x61])"
  by (simp add: sample_hash_defs sample_voter_def sample_child_def sample_parent_def zero_defs)

lemma huge_not_le_one: "\<not> (2147483646 :: u32) \<le> 1" "\<not> (2 :: u64) \<le> 1"
  by (simp_all add: word_le_nat_alt)

lemma sample_voter_accepted:
  assumes "b_event be = sample_voter flag"
  shows "Checkers_Validate sample_lib sample_checkers sample_heavy MainNetRules 1 sample_context be [built_parent] = Accept"
proof -
  have "basic_Validate sample_checkers (sample_voter flag) = Accept"
    by (simp add: basic_Validate_def sample_voter_def sample_defs of_base_def GasPowerLeft_Max_eq checkTxs_def validateEV_def validateBVs_def
        LlrBlockVotes_zero_def MaxBlockVotesPerEvent_def Zero_hash_def huge_not_le_one)
  moreover have "epoch_Validate sample_checkers MainNetRules 1 (sample_voter flag) = Accept"
    by (simp add: epoch_Validate_def sample_voter_def sample_defs of_base_def checkGas_Accept CalcGasPowerUsed_def CheckTxs_def
        LlrEpochVote_zero_def LlrBlockVotes_zero_def rules_defs)
  moreover have "parents_Validate sample_checkers (sample_voter flag) [built_parent] = Accept"
    by (simp add: parents_Validate_def sample_voter_def sample_defs of_base_def built_parent_def huge_not_le_one)
  moreover have "gas_Validate sample_checkers sample_context (sample_voter flag) (Some sample_parent) = Accept"
    unfolding gas_Validate_Accept CalcGasPower_Inr
    by (rule exI [of _ "\<lparr>shortTermGas = 5600000, longTermGas = 2800000\<rparr>"])
       (simp add: calcGasPower_def CalcValidatorGasPower_def CalcValidatorGasPowerPerSec_def gas_at_def Gas_def sample_voter_def sample_defs rules_defs)
  moreover have "ValidateEvent sample_lib sample_heavy be = Accept"
    using sample_voter_hash [of flag]
    by (simp add: ValidateEvent_def Let_def assms on_ok_Accept sample_voter_def sample_defs sample_heavy_def verifySignature_def
        matchPubkey_def LlrBlockVotes_zero_def)
  moreover have "dag_SelfParent sample_checkers (sample_voter flag) \<noteq> None"
    by (simp add: sample_voter_def sample_defs)
  ultimately show ?thesis
    using assms by (simp add: Checkers_Validate_def built_parent_def)
qed

lemma sample_voter_ok: "payload_ok sample_lib (sample_voter False)"
  using sample_voter_readable [of False]
  by (auto simp: payload_ok_def readable_def flags_ok_def sample_voter_def sample_child_def sample_parent_def zero_defs)

text \<open>
  C32. Votes travel on their own after the event that carried them.  If an event built by \<^verbatim>\<open>Build\<close> passes all
  checks of a node whose rules have the LLR upgrade, then the block votes and the epoch vote extracted from it
  (\<^verbatim>\<open>AsSignedBlockVotes\<close>, \<^verbatim>\<open>AsSignedEpochVote\<close>) pass the light and the heavy check of votes on that node.
  The node's reader gives the current keys for the current epoch, and the basic checker of go-vassalo refuses
  huge sequence numbers, epochs and Lamport times.
\<close>

theorem votes_of_accepted_event_stand_alone:
  assumes built: "Build x e = Ok be" and acc: "Checkers_Validate x vc h rules epoch ctx be parents = Accept"
    and llr: "up_Llr (ru_Upgrades rules)"
    and reader: "he_GetEpochPubKeysOf h (snd (he_GetEpochPubKeys h)) = fst (he_GetEpochPubKeys h)"
    and base: "base_basic vc e = None \<Longrightarrow> unat (e_Seq e) < 2 ^ 31 - 2 \<and> unat (e_Epoch e) < 2 ^ 31 - 2 \<and> unat (e_Lamport e) < 2 ^ 31 - 2"
  shows "(bv_Epoch (e_blockVotes e) \<noteq> 0 \<longrightarrow> (\<exists>s. AsSignedBlockVotes x be = Ok s \<and> bvall_check x h s = Accept))
       \<and> (ev_Epoch (e_epochVote e) \<noteq> 0 \<longrightarrow> (\<exists>s. AsSignedEpochVote x be = Ok s \<and> evall_check x h s = Accept))"
proof -
  have v: "e_version (b_event be) = 1" and basic: "basic_Validate vc (b_event be) = Accept" and heavy: "ValidateEvent x h be = Accept"
    using acc llr by (simp_all add: Checkers_Validate_def epoch_Validate_def)
  have "b_event be = e" using built by (auto simp: Build_def build_def bind_outcome_eq_Ok)
  with v have v: "e_version e = 1" "b_event be = e" by simp_all
  note signed = Build_locator(2) [OF built]
  have lok: "locator_ok (Event_Locator be)"
    using basic base v by (simp add: basic_Validate_def of_base_def locator_ok_def Event_Locator_def asLocator_def split: option.splits)
  obtain pk where k: "snd (he_GetEpochPubKeys h) = e_Epoch e" "map_of (fst (he_GetEpochPubKeys h)) (e_Creator e) = Some pk"
      "verifySignature h (Event_HashToSign be) (e_sig e) pk" "CalcPayloadHash x e = Ok (e_payloadHash e)"
    and ev: "ev_Epoch (e_epochVote e) \<noteq> 0 \<Longrightarrow>
      matchPubkey h (e_Creator e) (ev_Epoch (e_epochVote e) - 1) (PubKey_Bytes pk) ErrUnknownEpochEV = Accept"
    and bv: "bv_Epoch (e_blockVotes e) \<noteq> 0 \<Longrightarrow> validateBVsEpoch h (e_blockVotes e) = Accept"
      "bv_Epoch (e_blockVotes e) \<noteq> 0 \<Longrightarrow> bv_Epoch (e_blockVotes e) \<noteq> e_Epoch e \<Longrightarrow>
        matchPubkey h (e_Creator e) (bv_Epoch (e_blockVotes e)) (PubKey_Bytes pk) ErrUnknownEpochBVs = Accept"
    using ValidateEvent_Accept [OF heavy] unfolding v(2) by metis
  have tm: "\<exists>t. txs_mps_hash x e = Ok t" using k(4) v by (auto simp: CalcPayloadHash_def bind_outcome_eq_Ok)
  have sig: "verifySignature h (HashToSign x (Event_Locator be)) (e_sig e) pk" using k(3) signed v by simp
  have loc: "lo_Creator (Event_Locator be) = e_Creator e" "lo_Epoch (Event_Locator be) = e_Epoch e"
      "lo_PayloadHash (Event_Locator be) = e_payloadHash e"
    by (simp_all add: Event_Locator_def asLocator_def v)
  show ?thesis
  proof (intro conjI impI)
    assume some: "bv_Epoch (e_blockVotes e) \<noteq> 0"
    obtain s where s: "AsSignedBlockVotes x be = Ok s" and val: "sbv_Val s = e_blockVotes e" and sl: "sbv_Signed s = AsSignedEventLocator be"
      using tm by (auto simp: AsSignedBlockVotes_def v)
    have key: "map_of (he_GetEpochPubKeysOf h (bv_Epoch (e_blockVotes e))) (e_Creator e) = Some pk"
      using some bv(2) [THEN matchPubkey_Accept] reader k(1,2) by (cases "bv_Epoch (e_blockVotes e) = e_Epoch e") auto
    have "LlrSignedBlockVotes_CalcPayloadHash x s = e_payloadHash e"
      using AsSignedBlockVotes_hash [OF _ s] k(4) v by simp
    then have "heavy_ValidateBVs x h s = Accept"
      using bv(1) [OF some] key sig
      by (auto simp: heavy_ValidateBVs_def val sl AsSignedEventLocator_def loc v intro!: ValidateEventLocator_intro)
    moreover have "basic_ValidateBVs s = Accept"
      using basic lok some by (auto simp: basic_ValidateBVs_def validateEventLocator_iff basic_Validate_def validateBVs_def val sl AsSignedEventLocator_def loc v)
    ultimately show "\<exists>s. AsSignedBlockVotes x be = Ok s \<and> bvall_check x h s = Accept"
      using s by (auto simp: bvall_check_def)
  next
    assume some: "ev_Epoch (e_epochVote e) \<noteq> 0"
    obtain s where s: "AsSignedEpochVote x be = Ok s" and val: "sev_Val s = e_epochVote e" and sl: "sev_Signed s = AsSignedEventLocator be"
      using tm by (auto simp: AsSignedEpochVote_def v)
    have "LlrSignedEpochVote_CalcPayloadHash x s = e_payloadHash e"
      using AsSignedEpochVote_hash [OF _ s] k(4) v by simp
    then have "heavy_ValidateEV x h s = Accept"
      using ev [OF some, THEN matchPubkey_Accept] sig
      by (auto simp: heavy_ValidateEV_def val sl AsSignedEventLocator_def loc v intro!: ValidateEventLocator_intro)
    moreover have "basic_ValidateEV s = Accept"
      using basic lok some by (auto simp: basic_ValidateEV_def validateEventLocator_iff basic_Validate_def validateEV_def val sl AsSignedEventLocator_def loc v)
    ultimately show "\<exists>s. AsSignedEpochVote x be = Ok s \<and> evall_check x h s = Accept"
      using s by (auto simp: evall_check_def)
  qed
qed

theorem votes_of_accepted_event_stand_alone_witness:
  "\<exists>be. Checkers_Validate sample_lib sample_checkers sample_heavy MainNetRules 1 sample_context be [built_parent] = Accept \<and>
     (\<exists>s. AsSignedEpochVote sample_lib be = Ok s \<and> evall_check sample_lib sample_heavy s = Accept)"
proof -
  obtain be where be: "Build sample_lib (sample_voter False) = Ok be" "b_event be = sample_voter False"
    using Build_total [OF sample_voter_ok] by blast
  note acc = sample_voter_accepted [OF be(2)]
  have "ev_Epoch (e_epochVote (sample_voter False)) \<noteq> 0" by (simp add: sample_voter_def)
  moreover have "unat (e_Seq (sample_voter False)) < 2 ^ 31 - 2 \<and> unat (e_Epoch (sample_voter False)) < 2 ^ 31 - 2 \<and>
      unat (e_Lamport (sample_voter False)) < 2 ^ 31 - 2"
    by (simp add: sample_voter_def sample_defs)
  moreover have "he_GetEpochPubKeysOf sample_heavy (snd (he_GetEpochPubKeys sample_heavy)) = fst (he_GetEpochPubKeys sample_heavy)"
      "up_Llr (ru_Upgrades MainNetRules)"
    by (simp_all add: sample_heavy_def rules_defs Let_def)
  ultimately show ?thesis
    using votes_of_accepted_event_stand_alone [OF be(1) acc] acc by blast
qed

end
