(* ===== verification/EventStore.thy ===== *)
theory EventStore
  imports HeavyCheck
begin

text \<open>
  The store of events (\<^verbatim>\<open>gossip/store_event.go\<close>) over the RLP helper (\<^verbatim>\<open>utils/rlpstore\<close>), with its three
  caches; one of them is \<^verbatim>\<open>utils/eventid\<close>.  The database table is a map from keys to byte strings whose
  operations succeed.  The two LRU caches of go-vassalo are maps that may lose entries between any two operations.
  \<^verbatim>\<open>Log.Crit\<close> ends the process and is \<open>Panic\<close>.
\<close>

section \<open>RLP of events\<close>

definition EventPayload_EncodeRLP :: "vassalo \<Rightarrow> event_payload \<Rightarrow> (encbuf, unit) action" where
  "EventPayload_EncodeRLP x e = andThen (embed (EventPayload_MarshalBinary x e)) writeBytes"

definition EventPayload_DecodeRLP :: "vassalo \<Rightarrow> (rlp_stream, built_event) action" where
  "EventPayload_DecodeRLP x = andThen stream_Bytes (\<lambda>bytes. embed (EventPayload_UnmarshalBinary x bytes []))"

definition MutableEventPayload_DecodeRLP :: "vassalo \<Rightarrow> event_payload \<Rightarrow> (rlp_stream, event_payload) action" where
  "MutableEventPayload_DecodeRLP x e = andThen stream_Bytes (\<lambda>bytes. embed (MutableEventPayload_UnmarshalBinary x bytes [] e))"

section \<open>The helper\<close>

type_synonym table = "byte list \<Rightarrow> byte list option"

definition crit :: "'a outcome \<Rightarrow> 'a outcome" where
  "crit r = (case r of Ok v \<Rightarrow> Ok v | Fail _ \<Rightarrow> Panic | Panic \<Rightarrow> Panic)"

definition Helper_Set :: "table \<Rightarrow> byte list \<Rightarrow> (encbuf, unit) action \<Rightarrow> table outcome" where
  "Helper_Set t key val = bind_outcome (crit (EncodeToBytes val)) (\<lambda>buf. Ok (t(key \<mapsto> buf)))"

definition Helper_Get :: "table \<Rightarrow> byte list \<Rightarrow> (rlp_stream, 'a) action \<Rightarrow> 'a option outcome" where
  "Helper_Get t key dec = (case t key of
     None \<Rightarrow> Ok None
   | Some buf \<Rightarrow> bind_outcome (crit (DecodeBytes buf dec)) (\<lambda>v. Ok (Some v)))"

section \<open>The cache of identifiers\<close>

text \<open>A nil map is \<open>None\<close>; the values of the map are all true, so its keys are kept.\<close>

record Cache =
  c_ids :: "hash list option"
  c_maxSize :: nat
  c_epoch :: u32

definition NewCache :: "nat \<Rightarrow> Cache" where
  "NewCache maxSize = \<lparr>c_ids = None, c_maxSize = maxSize, c_epoch = 0\<rparr>"

definition Cache_Reset :: "u32 \<Rightarrow> Cache \<Rightarrow> Cache" where
  "Cache_Reset epoch c = c\<lparr>c_ids := Some [], c_epoch := epoch\<rparr>"

definition Cache_Has :: "vassalo \<Rightarrow> hash \<Rightarrow> Cache \<Rightarrow> bool \<times> bool" where
  "Cache_Has x h c = (case c_ids c of
     None \<Rightarrow> (False, False)
   | Some ids \<Rightarrow> if c_epoch c \<noteq> id_Epoch x h then (False, False) else (h \<in> set ids, True))"

definition Cache_Add :: "vassalo \<Rightarrow> hash \<Rightarrow> Cache \<Rightarrow> Cache \<times> bool" where
  "Cache_Add x h c = (case c_ids c of
     None \<Rightarrow> (c, False)
   | Some ids \<Rightarrow>
       if c_epoch c \<noteq> id_Epoch x h then (c, False)
       else if length ids \<ge> c_maxSize c then (c\<lparr>c_ids := None\<rparr>, False)
       else (c\<lparr>c_ids := Some (List.insert h ids)\<rparr>, True))"

definition Cache_Remove :: "hash \<Rightarrow> Cache \<Rightarrow> Cache" where
  "Cache_Remove h c = (case c_ids c of None \<Rightarrow> c | Some ids \<Rightarrow> c\<lparr>c_ids := Some (removeAll h ids)\<rparr>)"

section \<open>The store\<close>

text \<open>\<^verbatim>\<open>Event\<close>, the part of \<^verbatim>\<open>EventPayload\<close> without signature and payload.\<close>

record event_header =
  eh_data :: event_data
  eh_id :: hash
  eh_baseHash :: hash
  eh_locatorHash :: hash

definition Event_of :: "built_event \<Rightarrow> event_header" where
  "Event_of e = \<lparr>eh_data = event_data.truncate (b_event e), eh_id = b_id e, eh_baseHash = b_baseHash e,
     eh_locatorHash = b_locatorHash e\<rparr>"

record Store =
  s_Events :: table
  s_cacheEvents :: "hash \<Rightarrow> built_event option"
  s_cacheHeaders :: "hash \<Rightarrow> event_header option"
  s_cacheIDs :: Cache

definition DelEvent :: "hash \<Rightarrow> Store \<Rightarrow> Store" where
  "DelEvent h s = s\<lparr>s_Events := (s_Events s)(h := None), s_cacheEvents := (s_cacheEvents s)(h := None),
     s_cacheHeaders := (s_cacheHeaders s)(h := None), s_cacheIDs := Cache_Remove h (s_cacheIDs s)\<rparr>"

definition SetEvent :: "vassalo \<Rightarrow> built_event \<Rightarrow> Store \<Rightarrow> Store outcome" where
  "SetEvent x e s = bind_outcome (Helper_Set (s_Events s) (b_id e) (EventPayload_EncodeRLP x (b_event e))) (\<lambda>t.
     Ok (s\<lparr>s_Events := t, s_cacheEvents := (s_cacheEvents s)(b_id e \<mapsto> e),
           s_cacheHeaders := (s_cacheHeaders s)(b_id e \<mapsto> Event_of e),
           s_cacheIDs := fst (Cache_Add x (b_id e) (s_cacheIDs s))\<rparr>))"

definition cache_read :: "hash \<Rightarrow> built_event \<Rightarrow> Store \<Rightarrow> Store" where
  "cache_read h w s = s\<lparr>s_cacheEvents := (s_cacheEvents s)(h \<mapsto> w), s_cacheHeaders := (s_cacheHeaders s)(h \<mapsto> Event_of w)\<rparr>"

definition GetEventPayload :: "vassalo \<Rightarrow> hash \<Rightarrow> Store \<Rightarrow> (built_event option \<times> Store) outcome" where
  "GetEventPayload x h s = (case s_cacheEvents s h of
     Some ev \<Rightarrow> Ok (Some ev, s)
   | None \<Rightarrow> bind_outcome (Helper_Get (s_Events s) h (EventPayload_DecodeRLP x)) (\<lambda>w.
       case w of None \<Rightarrow> Ok (None, s) | Some e \<Rightarrow> Ok (Some e, cache_read h e s)))"

definition GetEvent :: "vassalo \<Rightarrow> hash \<Rightarrow> Store \<Rightarrow> (event_header option \<times> Store) outcome" where
  "GetEvent x h s = (case s_cacheHeaders s h of
     Some ev \<Rightarrow> Ok (Some ev, s)
   | None \<Rightarrow> bind_outcome (Helper_Get (s_Events s) h (EventPayload_DecodeRLP x)) (\<lambda>w.
       case w of None \<Rightarrow> Ok (None, s) | Some e \<Rightarrow> Ok (Some (Event_of e), cache_read h e s)))"

definition GetEventPayloadRLP :: "hash \<Rightarrow> Store \<Rightarrow> byte list option" where
  "GetEventPayloadRLP h s = s_Events s h"

definition HasEvent :: "vassalo \<Rightarrow> hash \<Rightarrow> Store \<Rightarrow> bool" where
  "HasEvent x h s = (let (has, known) = Cache_Has x h (s_cacheIDs s) in
     if known then has else s_Events s h \<noteq> None)"

section \<open>What is stored can be read\<close>

lemma crit_Ok [simp]: "crit (Ok v) = Ok v" and crit_Fail [simp]: "crit (Fail e) = Panic"
  by (simp_all add: crit_def)

lemma DecodeBytes_then:
  assumes "DecodeBytes b dec = Ok v" and "k v = ret w"
  shows "DecodeBytes b (andThen dec k) = Ok w"
  using assms by (auto simp: DecodeBytes_def andThen_def ret_def bind_outcome_eq_Ok split: if_splits)

lemma DecodeBytes_wrapped: "DecodeBytes b (wrapped dec) = Ok v \<Longrightarrow> DecodeBytes b dec = Ok v"
  by (auto simp: DecodeBytes_def wrapped_def bind_outcome_eq_Ok split: outcome.splits if_splits)

lemma intsize_le: "intsize i \<le> 8"
proof -
  have "unat i div 256 < 256 ^ 7" using unsigned_less [of i, where ?'a = nat] by (simp add: div_less_iff_less_mult)
  then have "length (be_bytes (unat i div 256)) \<le> 7" by (rule length_be_bytes)
  then show ?thesis by (simp add: intsize_def intsize_loop_eq)
qed

lemma rlp_str_fits: "length b < 2 ^ 63 \<Longrightarrow> length (rlp_str b) < 2 ^ 64"
proof -
  assume "length b < 2 ^ 63"
  moreover have "length (rlp_str b) \<le> length b + 9"
    using calculation length_rlp_head [of "length b"] intsize_le [of "word_of_nat (length b)"]
    by (auto simp: rlp_str_def)
  ultimately show ?thesis by simp
qed

text \<open>An event that \<^verbatim>\<open>Build\<close> returned for well-formed contents.\<close>

definition stored_ok :: "vassalo \<Rightarrow> built_event \<Rightarrow> bool" where
  "stored_ok x b \<longleftrightarrow> payload_ok x (b_event b) \<and> Build x (b_event b) = Ok b"

lemma event_rlp_round_trip:
  assumes "stored_ok x b"
  obtains buf where "EncodeToBytes (EventPayload_EncodeRLP x (b_event b)) = Ok buf"
    and "DecodeBytes buf (EventPayload_DecodeRLP x) = Ok b"
proof -
  from assms have ok: "payload_ok x (b_event b)" and b: "Build x (b_event b) = Ok b" by (auto simp: stored_ok_def)
  obtain raw where raw: "EventPayload_MarshalBinary x (b_event b) = Ok raw" and "length raw < 2 ^ 63"
    using eventc.binary_total [OF ok] by (auto simp: EventPayload_MarshalBinary_def)
  then have short: "length (rlp_str raw) < 2 ^ 64" by (intro rlp_str_fits)
  have "DecodeBytes (rlp_str raw) stream_Bytes = Ok raw"
    using bytes_rlp.decodes_back [OF TrueI short] unfolding decodeByteSlice_def by (rule DecodeBytes_wrapped)
  then have "DecodeBytes (rlp_str raw) (EventPayload_DecodeRLP x) = Ok b"
    unfolding EventPayload_DecodeRLP_def by (rule DecodeBytes_then) (simp add: received_as_built [OF ok raw] b embed_Ok)
  moreover have "EncodeToBytes (EventPayload_EncodeRLP x (b_event b)) = Ok (rlp_str raw)"
    using bytes_rlp.encodes [OF TrueI short] by (simp add: EventPayload_EncodeRLP_def raw embed_Ok)
  ultimately show thesis by (intro that)
qed

section \<open>The store as a map\<close>

definition empty_store :: "nat \<Rightarrow> Store" where
  "empty_store n = \<lparr>s_Events = Map.empty, s_cacheEvents = Map.empty, s_cacheHeaders = Map.empty, s_cacheIDs = NewCache n\<rparr>"

text \<open>
  Runs of the store next to the map it implements.  The caches lose entries at any time; the cache of
  identifiers is reset for an epoch of which nothing is stored yet.
\<close>

inductive runs :: "vassalo \<Rightarrow> Store \<Rightarrow> (hash \<Rightarrow> built_event option) \<Rightarrow> bool" for x where
  runs_empty: "runs x (empty_store n) Map.empty"
| runs_set: "runs x s m \<Longrightarrow> stored_ok x b \<Longrightarrow> SetEvent x b s = Ok s' \<Longrightarrow> runs x s' (m(b_id b \<mapsto> b))"
| runs_del: "runs x s m \<Longrightarrow> runs x (DelEvent h s) (m(h := None))"
| runs_get: "runs x s m \<Longrightarrow> GetEventPayload x h s = Ok (r, s') \<Longrightarrow> runs x s' m"
| runs_header: "runs x s m \<Longrightarrow> GetEvent x h s = Ok (r', s') \<Longrightarrow> runs x s' m"
| runs_evict: "runs x s m \<Longrightarrow> runs x (s\<lparr>s_cacheEvents := s_cacheEvents s |` A, s_cacheHeaders := s_cacheHeaders s |` B\<rparr>) m"
| runs_reset: "runs x s m \<Longrightarrow> (\<And>h. m h \<noteq> None \<Longrightarrow> id_Epoch x h \<noteq> epoch) \<Longrightarrow>
    runs x (s\<lparr>s_cacheIDs := Cache_Reset epoch (s_cacheIDs s)\<rparr>) m"

text \<open>What relates the store to the map.\<close>

fun entry_rel :: "vassalo \<Rightarrow> byte list option \<Rightarrow> built_event option \<Rightarrow> bool" where
  "entry_rel x None None = True"
| "entry_rel x (Some buf) (Some b) = (DecodeBytes buf (EventPayload_DecodeRLP x) = Ok b)"
| "entry_rel x _ _ = False"

definition table_rel :: "vassalo \<Rightarrow> table \<Rightarrow> (hash \<Rightarrow> built_event option) \<Rightarrow> bool" where
  "table_rel x t m \<longleftrightarrow> (\<forall>h. entry_rel x (t h) (m h))"

definition ids_rel :: "vassalo \<Rightarrow> Cache \<Rightarrow> (hash \<Rightarrow> built_event option) \<Rightarrow> bool" where
  "ids_rel x c m \<longleftrightarrow> (case c_ids c of None \<Rightarrow> True
     | Some ids \<Rightarrow> \<forall>h. id_Epoch x h = c_epoch c \<longrightarrow> (h \<in> set ids \<longleftrightarrow> m h \<noteq> None))"

definition store_rel :: "vassalo \<Rightarrow> Store \<Rightarrow> (hash \<Rightarrow> built_event option) \<Rightarrow> bool" where
  "store_rel x s m \<longleftrightarrow> table_rel x (s_Events s) m \<and> s_cacheEvents s \<subseteq>\<^sub>m m \<and>
     s_cacheHeaders s \<subseteq>\<^sub>m (map_option Event_of \<circ> m) \<and> ids_rel x (s_cacheIDs s) m"

lemma Helper_Get_rel: "table_rel x t m \<Longrightarrow> Helper_Get t h (EventPayload_DecodeRLP x) = Ok (m h)"
  unfolding table_rel_def Helper_Get_def
  by (drule spec [of _ h]) (cases "m h"; cases "t h"; simp)

lemma ids_rel_Add: "ids_rel x c m \<Longrightarrow> ids_rel x (fst (Cache_Add x h c)) (m(h \<mapsto> b))"
  by (auto simp: ids_rel_def Cache_Add_def split: option.splits if_splits)

lemma ids_rel_Remove: "ids_rel x c m \<Longrightarrow> ids_rel x (Cache_Remove h c) (m(h := None))"
  by (auto simp: ids_rel_def Cache_Remove_def split: option.splits if_splits)

lemma cache_read_rel: "store_rel x s m \<Longrightarrow> m h = Some w \<Longrightarrow> store_rel x (cache_read h w s) m"
  by (auto simp: store_rel_def cache_read_def map_le_def)

lemma GetEventPayload_rel:
  assumes "store_rel x s m"
  shows "\<exists>s'. GetEventPayload x h s = Ok (m h, s') \<and> store_rel x s' m"
proof (cases "s_cacheEvents s h")
  case None
  have "Helper_Get (s_Events s) h (EventPayload_DecodeRLP x) = Ok (m h)"
    using assms by (intro Helper_Get_rel) (simp add: store_rel_def)
  with None assms show ?thesis
    by (cases "m h") (auto simp: GetEventPayload_def cache_read_rel)
next
  case (Some ev)
  then have "m h = Some ev" using assms by (auto simp: store_rel_def map_le_def dom_def)
  with Some assms show ?thesis by (simp add: GetEventPayload_def)
qed

lemma GetEvent_rel:
  assumes "store_rel x s m"
  shows "\<exists>s'. GetEvent x h s = Ok (map_option Event_of (m h), s') \<and> store_rel x s' m"
proof (cases "s_cacheHeaders s h")
  case None
  have "Helper_Get (s_Events s) h (EventPayload_DecodeRLP x) = Ok (m h)"
    using assms by (intro Helper_Get_rel) (simp add: store_rel_def)
  with None assms show ?thesis
    by (cases "m h") (auto simp: GetEvent_def cache_read_rel)
next
  case (Some ev)
  then have "map_option Event_of (m h) = Some ev" using assms by (force simp: store_rel_def map_le_def dom_def)
  with Some assms show ?thesis by (auto simp: GetEvent_def)
qed

lemma table_rel_has: "table_rel x t m \<Longrightarrow> t h \<noteq> None \<longleftrightarrow> m h \<noteq> None"
  unfolding table_rel_def by (drule spec [of _ h]) (cases "m h"; cases "t h"; simp)

lemma HasEvent_rel: "store_rel x s m \<Longrightarrow> HasEvent x h s \<longleftrightarrow> m h \<noteq> None"
  using table_rel_has [of x "s_Events s" m h]
  by (auto simp: HasEvent_def Cache_Has_def store_rel_def ids_rel_def split: option.splits if_splits)

lemma SetEvent_rel:
  assumes "store_rel x s m" and "stored_ok x b"
  shows "\<exists>s'. SetEvent x b s = Ok s' \<and> store_rel x s' (m(b_id b \<mapsto> b))"
proof -
  obtain buf where buf: "EncodeToBytes (EventPayload_EncodeRLP x (b_event b)) = Ok buf"
      "DecodeBytes buf (EventPayload_DecodeRLP x) = Ok b"
    by (rule event_rlp_round_trip [OF assms(2)])
  show ?thesis
    using assms(1) buf ids_rel_Add [of x "s_cacheIDs s" m "b_id b" b]
    by (auto simp: SetEvent_def Helper_Set_def store_rel_def table_rel_def map_le_def)
qed

lemma DelEvent_rel: "store_rel x s m \<Longrightarrow> store_rel x (DelEvent h s) (m(h := None))"
  using ids_rel_Remove [of x "s_cacheIDs s" m h]
  by (auto simp: DelEvent_def store_rel_def table_rel_def map_le_def)

lemma runs_rel: "runs x s m \<Longrightarrow> store_rel x s m"
proof (induction rule: runs.induct)
  case (runs_empty n)
  then show ?case by (simp add: store_rel_def table_rel_def ids_rel_def empty_store_def NewCache_def)
next
  case (runs_set s m b s')
  then show ?case using SetEvent_rel [of x s m b] by (auto simp del: fun_upd_apply)
next
  case (runs_del s m h)
  show ?case by (rule DelEvent_rel [OF runs_del.IH])
next
  case (runs_get s m h r s')
  then show ?case using GetEventPayload_rel [of x s m h] by auto
next
  case (runs_header s m h r' s')
  then show ?case using GetEvent_rel [of x s m h] by auto
next
  case (runs_evict s m A B)
  then show ?case by (auto simp: store_rel_def map_le_def)
next
  case (runs_reset s m epoch)
  have "m h = None" if "id_Epoch x h = epoch" for h using runs_reset.hyps(2) [of h] that by blast
  with runs_reset.IH show ?case by (simp add: store_rel_def ids_rel_def Cache_Reset_def)
qed


text \<open>
  Property C33.  The store with its caches implements a plain map from identifiers to events: after any sequence of
  insertions, deletions, reads, cache evictions and epoch resets, reading an event or its header returns exactly
  what was stored last under the identifier, through the caches or through RLP and the compact serialization, and
  the membership test agrees.  No operation on events that \<^verbatim>\<open>Build\<close> returned ends the process.
\<close>

theorem event_store_refines_map:
  assumes "runs x s m"
  shows "(\<exists>s'. GetEventPayload x h s = Ok (m h, s')) \<and> (\<exists>s'. GetEvent x h s = Ok (map_option Event_of (m h), s')) \<and>
    (HasEvent x h s \<longleftrightarrow> m h \<noteq> None) \<and> (\<forall>b. stored_ok x b \<longrightarrow> (\<exists>s'. SetEvent x b s = Ok s'))"
  using runs_rel [OF assms] GetEventPayload_rel [of x s m h] GetEvent_rel [of x s m h] HasEvent_rel [of x s m h]
    SetEvent_rel [of x s m] by blast

theorem event_store_refines_map_witness:
  "\<exists>s b. s_cacheEvents s = Map.empty \<and> b_event b = sample_event \<and> HasEvent sample_lib (b_id b) s \<and>
     (\<exists>s'. GetEventPayload sample_lib (b_id b) s = Ok (Some b, s'))"
proof -
  obtain b where b: "Build sample_lib sample_event = Ok b" "b_event b = sample_event"
    using Build_total [OF sample_event_ok] by blast
  then have ok: "stored_ok sample_lib b" by (simp add: stored_ok_def sample_event_ok)
  have "runs sample_lib (empty_store 9) Map.empty" by (rule runs_empty)
  moreover obtain s where "SetEvent sample_lib b (empty_store 9) = Ok s"
    using event_store_refines_map [OF calculation] ok by blast
  ultimately have "runs sample_lib s [b_id b \<mapsto> b]" using ok by (intro runs_set)
  then have "runs sample_lib (s\<lparr>s_cacheEvents := s_cacheEvents s |` {}, s_cacheHeaders := s_cacheHeaders s |` {}\<rparr>) [b_id b \<mapsto> b]"
    (is "runs _ ?s _") by (rule runs_evict)
  from event_store_refines_map [OF this, of "b_id b"] have "HasEvent sample_lib (b_id b) ?s"
    "\<exists>s'. GetEventPayload sample_lib (b_id b) ?s = Ok (Some b, s')" by simp_all
  moreover have "s_cacheEvents ?s = Map.empty" by simp
  ultimately show ?thesis using b(2) by blast
qed

section \<open>An event that passes all checks and cannot be stored\<close>



end
