(* ===== verification/AccessList.thy ===== *)
theory AccessList
  imports Sesa_Prelude
begin

text \<open>
  The access list of the package \<^verbatim>\<open>core/state\<close> (\<^verbatim>\<open>access_list.go\<close>): which addresses and which
  storage slots a transaction has touched.  An address maps to \<open>-1\<close> or to the index of its slots in a
  list; the operations that take entries out again are used by the journal, in the reverse of the order of
  the additions.
\<close>

section \<open>Operations\<close>

record accessList =
  al_addresses :: "address \<rightharpoonup> int"
  al_slots :: "hash set list"

definition newAccessList :: accessList where
  "newAccessList = \<lparr>al_addresses = Map.empty, al_slots = []\<rparr>"

definition ContainsAddress :: "accessList \<Rightarrow> address \<Rightarrow> bool" where
  "ContainsAddress al a = (al_addresses al a \<noteq> None)"

text \<open>Indexing a slice out of range panics.\<close>

definition slot_map :: "accessList \<Rightarrow> int \<Rightarrow> hash set outcome" where
  "slot_map al idx = (if 0 \<le> idx \<and> nat idx < length (al_slots al) then Ok (al_slots al ! nat idx) else Panic)"

definition al_Contains :: "accessList \<Rightarrow> address \<Rightarrow> hash \<Rightarrow> (bool \<times> bool) outcome" where
  "al_Contains al a slot = (case al_addresses al a of
     None \<Rightarrow> Ok (False, False)
   | Some idx \<Rightarrow> if idx = -1 then Ok (True, False)
       else bind_outcome (slot_map al idx) (\<lambda>m. Ok (True, slot \<in> m)))"

definition AddAddress :: "address \<Rightarrow> accessList \<Rightarrow> bool \<times> accessList" where
  "AddAddress a al = (if al_addresses al a \<noteq> None then (False, al)
     else (True, al\<lparr>al_addresses := (al_addresses al)(a \<mapsto> -1)\<rparr>))"

definition AddSlot :: "address \<Rightarrow> hash \<Rightarrow> accessList \<Rightarrow> ((bool \<times> bool) \<times> accessList) outcome" where
  "AddSlot a slot al =
     (let addrPresent = al_addresses al a \<noteq> None in
      if \<not> addrPresent \<or> al_addresses al a = Some (-1)
      then Ok ((\<not> addrPresent, True),
               \<lparr>al_addresses = (al_addresses al)(a \<mapsto> int (length (al_slots al))), al_slots = al_slots al @ [{slot}]\<rparr>)
      else let idx = the (al_addresses al a) in
        bind_outcome (slot_map al idx) (\<lambda>m.
          if slot \<notin> m then Ok ((False, True), al\<lparr>al_slots := (al_slots al)[nat idx := insert slot m]\<rparr>)
          else Ok ((False, False), al)))"

definition DeleteSlot :: "address \<Rightarrow> hash \<Rightarrow> accessList \<Rightarrow> accessList outcome" where
  "DeleteSlot a slot al = (case al_addresses al a of
     None \<Rightarrow> Panic
   | Some idx \<Rightarrow> bind_outcome (slot_map al idx) (\<lambda>m.
       let m' = m - {slot}; al = al\<lparr>al_slots := (al_slots al)[nat idx := m']\<rparr> in
       if m' = {} then Ok \<lparr>al_addresses = (al_addresses al)(a \<mapsto> -1), al_slots = take (nat idx) (al_slots al)\<rparr>
       else Ok al))"

definition DeleteAddress :: "address \<Rightarrow> accessList \<Rightarrow> accessList" where
  "DeleteAddress a al = al\<lparr>al_addresses := (al_addresses al)(a := None)\<rparr>"

section \<open>Invariant and abstraction\<close>

text \<open>Every index is in range and used once, every list of slots has an owner and a slot.\<close>

definition al_inv :: "accessList \<Rightarrow> bool" where
  "al_inv al \<longleftrightarrow>
     (\<forall>a i. al_addresses al a = Some i \<longrightarrow> i = -1 \<or> (0 \<le> i \<and> nat i < length (al_slots al)))
   \<and> (\<forall>a b i. al_addresses al a = Some i \<longrightarrow> al_addresses al b = Some i \<longrightarrow> i = -1 \<or> a = b)
   \<and> {} \<notin> set (al_slots al)"

text \<open>What the access list stands for: a set of addresses and a set of slots.\<close>

definition addrs_of :: "accessList \<Rightarrow> address set" where
  "addrs_of al = dom (al_addresses al)"

definition slots_of :: "accessList \<Rightarrow> (address \<times> hash) set" where
  "slots_of al = {(a, s). \<exists>i. al_addresses al a = Some i \<and> i \<noteq> -1 \<and> s \<in> al_slots al ! nat i}"

lemma newAccessList_inv: "al_inv newAccessList"
  and newAccessList_empty: "addrs_of newAccessList = {}" "slots_of newAccessList = {}"
  by (simp_all add: al_inv_def newAccessList_def addrs_of_def slots_of_def)

lemma slot_map_inv: "al_inv al \<Longrightarrow> al_addresses al a = Some i \<Longrightarrow> i \<noteq> -1 \<Longrightarrow> slot_map al i = Ok (al_slots al ! nat i)"
  by (auto simp: al_inv_def slot_map_def)

lemma Contains_refines:
  assumes "al_inv al"
  shows "al_Contains al a slot = Ok (a \<in> addrs_of al, (a, slot) \<in> slots_of al)"
  using slot_map_inv [OF assms]
  by (auto simp: al_Contains_def addrs_of_def slots_of_def split: option.splits)

lemma al_invI:
  assumes "\<And>a i. al_addresses al a = Some i \<Longrightarrow> i \<noteq> -1 \<Longrightarrow> 0 \<le> i \<and> nat i < length (al_slots al)"
    and "\<And>a b i. al_addresses al a = Some i \<Longrightarrow> al_addresses al b = Some i \<Longrightarrow> i \<noteq> -1 \<Longrightarrow> a = b"
    and "{} \<notin> set (al_slots al)"
  shows "al_inv al"
  using assms unfolding al_inv_def by blast

lemma al_invD:
  assumes "al_inv al"
  shows "al_addresses al a = Some i \<Longrightarrow> i \<noteq> -1 \<Longrightarrow> 0 \<le> i \<and> nat i < length (al_slots al)"
    and "al_addresses al a = Some i \<Longrightarrow> al_addresses al b = Some i \<Longrightarrow> i \<noteq> -1 \<Longrightarrow> a = b"
    and "{} \<notin> set (al_slots al)"
  using assms unfolding al_inv_def by blast+

lemma AddAddress_refines:
  assumes inv: "al_inv al" and "AddAddress a al = (changed, al')"
  shows "al_inv al' \<and> addrs_of al' = insert a (addrs_of al) \<and> slots_of al' = slots_of al
     \<and> changed = (a \<notin> addrs_of al)"
proof (cases "al_addresses al a = None")
  case True
  then have al': "al' = al\<lparr>al_addresses := (al_addresses al)(a \<mapsto> -1)\<rparr>" "changed"
    using assms(2) by (simp_all add: AddAddress_def)
  have "al_inv al'" unfolding al'(1)
    by (rule al_invI) (use al_invD [OF inv] in \<open>auto split: if_splits\<close>)
  with True al' show ?thesis by (auto simp: addrs_of_def slots_of_def split: if_splits)
qed (use assms in \<open>auto simp: AddAddress_def addrs_of_def\<close>)

text \<open>The two ways a slot is added: a list of slots of its own, or into the list of its address.\<close>

lemma AddSlot_fresh:
  assumes inv: "al_inv al" and a: "al_addresses al a = None \<or> al_addresses al a = Some (-1)"
    and al': "al' = \<lparr>al_addresses = (al_addresses al)(a \<mapsto> int (length (al_slots al))), al_slots = al_slots al @ [{s}]\<rparr>"
  shows "al_inv al'" and "slots_of al' = insert (a, s) (slots_of al)" and "(a, s) \<notin> slots_of al"
proof -
  have small: "nat i < length (al_slots al)" if "al_addresses al b = Some i" "i \<noteq> -1" for b i
    using al_invD(1) [OF inv that] by simp
  show "al_inv al'" unfolding al'
  proof (rule al_invI, goal_cases)
    case (1 b i)
    then show ?case using al_invD(1) [OF inv, of b i] by (auto split: if_splits)
  next
    case (2 b c i)
    then show ?case using al_invD(2) [OF inv, of b i c] small [of b i] small [of c i] by (auto split: if_splits)
  qed (use al_invD(3) [OF inv] in simp)
  show "slots_of al' = insert (a, s) (slots_of al)"
    using a small unfolding al' slots_of_def by (auto simp: nth_append split: if_splits)
  show "(a, s) \<notin> slots_of al" using a by (auto simp: slots_of_def)
qed

lemma AddSlot_more:
  assumes inv: "al_inv al" and a: "al_addresses al a = Some i" "i \<noteq> -1"
    and al': "al' = al\<lparr>al_slots := (al_slots al)[nat i := insert s (al_slots al ! nat i)]\<rparr>"
  shows "al_inv al'" and "slots_of al' = insert (a, s) (slots_of al)"
proof -
  note r = al_invD(1) [OF inv a]
  show "al_inv al'" unfolding al'
  proof (rule al_invI, goal_cases)
    case (1 b j)
    then show ?case using al_invD(1) [OF inv, of b j] by simp
  next
    case (2 b c j)
    then show ?case using al_invD(2) [OF inv, of b j c] by simp
  next
    case 3
    show ?case using al_invD(3) [OF inv] by (auto dest!: set_update_subset_insert [THEN subsetD])
  qed
  have eq: "nat j = nat i \<longleftrightarrow> b = a" if "al_addresses al b = Some j" "j \<noteq> -1" for b j
    using al_invD(1) [OF inv that] r al_invD(2) [OF inv a(1) _ a(2), of b] that a(1) by auto
  have "(b, t) \<in> slots_of al' \<longleftrightarrow> (b, t) \<in> insert (a, s) (slots_of al)" for b t
    using a r eq [of b] unfolding al' slots_of_def by (cases "b = a") (auto simp: nth_list_update)
  then show "slots_of al' = insert (a, s) (slots_of al)" by auto
qed

lemma AddSlot_refines:
  assumes inv: "al_inv al"
  shows "\<exists>al'. AddSlot a s al = Ok ((a \<notin> addrs_of al, (a, s) \<notin> slots_of al), al') \<and> al_inv al'
     \<and> addrs_of al' = insert a (addrs_of al) \<and> slots_of al' = insert (a, s) (slots_of al)"
proof (cases "al_addresses al a = None \<or> al_addresses al a = Some (-1)")
  case True
  note f = AddSlot_fresh [OF inv True refl, of s]
  have "AddSlot a s al = Ok ((a \<notin> addrs_of al, True),
      \<lparr>al_addresses = (al_addresses al)(a \<mapsto> int (length (al_slots al))), al_slots = al_slots al @ [{s}]\<rparr>)"
    using True by (auto simp: AddSlot_def addrs_of_def Let_def)
  with f show ?thesis by (auto simp: addrs_of_def)
next
  case False
  then obtain i where i: "al_addresses al a = Some i" "i \<noteq> -1" by auto
  note f = AddSlot_more [OF inv i refl, of s] and m = slot_map_inv [OF inv i]
  have mem: "(a, s) \<in> slots_of al \<longleftrightarrow> s \<in> al_slots al ! nat i" using i by (simp add: slots_of_def)
  show ?thesis
  proof (cases "s \<in> al_slots al ! nat i")
    case True
    then show ?thesis using i m mem inv by (auto simp: AddSlot_def addrs_of_def Let_def)
  next
    case no: False
    then show ?thesis using i m mem f by (auto simp: AddSlot_def addrs_of_def Let_def)
  qed
qed

text \<open>Taking out what was just added gives back the list of before.\<close>

lemma AddAddress_undo: "AddAddress a al = (True, al') \<Longrightarrow> DeleteAddress a al' = al"
  by (auto simp: AddAddress_def DeleteAddress_def fun_upd_idem split: if_splits)

lemma AddSlot_undo:
  assumes inv: "al_inv al" and add: "AddSlot a s al = Ok ((ac, sc), al')" and "sc"
  shows "\<exists>al''. DeleteSlot a s al' = Ok al'' \<and> (if ac then DeleteAddress a al'' else al'') = al"
proof (cases "al_addresses al a = None \<or> al_addresses al a = Some (-1)")
  case True
  then have "al' = \<lparr>al_addresses = (al_addresses al)(a \<mapsto> int (length (al_slots al))), al_slots = al_slots al @ [{s}]\<rparr>"
    and "ac = (al_addresses al a = None)" using add by (auto simp: AddSlot_def Let_def)
  with True show ?thesis
    by (auto simp: DeleteSlot_def slot_map_def DeleteAddress_def fun_upd_idem)
next
  case False
  then obtain i where i: "al_addresses al a = Some i" "i \<noteq> -1" by auto
  note r = al_invD(1) [OF inv i]
  have m: "s \<notin> al_slots al ! nat i" "\<not> ac" and al': "al' = al\<lparr>al_slots := (al_slots al)[nat i := insert s (al_slots al ! nat i)]\<rparr>"
    using add assms(3) i slot_map_inv [OF inv i] by (auto simp: AddSlot_def Let_def split: if_splits)
  have "al_slots al ! nat i \<noteq> {}" using al_invD(3) [OF inv] r by (metis nth_mem)
  moreover have "insert s (al_slots al ! nat i) - {s} = al_slots al ! nat i" using m by auto
  moreover have "\<not> al_slots al ! nat i \<subseteq> {s}" using m calculation(1) by auto
  ultimately show ?thesis using i r m al' by (simp add: DeleteSlot_def slot_map_def Let_def)
qed

end
