(* ===== verification/Spec2Isabelle.thy ===== *)
theory Spec2Isabelle
  imports EventStore AccessList
begin

text \<open>
  A verification development for go-sesa, a node of a DAG-based proof-of-stake chain with an EVM.

  \<^bold>\<open>The program.\<close>  Validators emit \<^emph>\<open>events\<close>: signed DAG vertices that carry transactions, votes on blocks and
  epochs and proofs of misbehaviour.  A node receives events as bytes, decodes and checks them, orders them (in
  another module, go-vassalo), and executes the transactions of decided blocks on an EVM state.  The
  development follows an event along this way: the byte encodings it arrives in, the hashes and locators that
  identify it, the checks that decide whether it is accepted, the rules those checks read, and pieces of the
  EVM state.

  \<^bold>\<open>Conventions\<close> (\<^verbatim>\<open>Sesa_Prelude\<close>).  Go's fixed-width integers are words, so sums, differences and products
  wrap as in Go; \<^verbatim>\<open>*big.Int\<close> is \<open>int\<close>; \<^verbatim>\<open>int\<close> values that only count or index are \<open>nat\<close>.  A result is an
  \<open>outcome\<close> (\<open>Ok\<close>, a returned error \<open>Fail\<close>, or \<open>Panic\<close>); code with state is a function from the state to an
  outcome of the result and the new state.  Functions of go-vassalo, hash functions and signature checks are
  arguments: the records \<open>vassalo\<close>, \<open>base_checkers\<close>, \<open>Validators\<close> and \<open>heavy_env\<close>.  No definition uses fuel:
  every loop is structural recursion or has a termination proof.

  \<^bold>\<open>Compact serialization.\<close>

  \<^item> \<^verbatim>\<open>BitArray\<close>, \<^verbatim>\<open>FastBuf\<close>: the bit arrays of \<^verbatim>\<open>utils/bits\<close> and the byte buffers of
    \<^verbatim>\<open>utils/fast\<close>, with their cursors.
  \<^item> \<^verbatim>\<open>Cser\<close>: the readers and writers of \<^verbatim>\<open>utils/cser/read_writer.go\<close>.
  \<^item> \<^verbatim>\<open>CserCodec\<close>: a calculus of the bits and bytes a writer appends and a reader consumes, the locale
    \<open>cser_codec\<close> and its interpretations for every field type.
  \<^item> \<^verbatim>\<open>CserBinary\<close>, \<^verbatim>\<open>CserSize\<close>, \<^verbatim>\<open>CserSafety\<close>: the binary container of \<^verbatim>\<open>binary.go\<close>, sizes, and that decoding
    stays within the input.
  \<^item> \<^verbatim>\<open>Transaction\<close>, \<^verbatim>\<open>TxSerializer\<close>: transactions (\<^verbatim>\<open>core/types\<close>) and \<^verbatim>\<open>native/transaction_serializer.go\<close>; round
    trip, injectivity, refusals.

  \<^bold>\<open>RLP.\<close>

  \<^item> \<^verbatim>\<open>RlpEncode\<close>, \<^verbatim>\<open>RlpDecode\<close>: the encoder buffer and the stream of \<^verbatim>\<open>rlp/encode.go\<close> and \<^verbatim>\<open>decode.go\<close>.
  \<^item> \<^verbatim>\<open>RlpItem\<close>, \<^verbatim>\<open>RlpCodec\<close>, \<^verbatim>\<open>RlpRound\<close>, \<^verbatim>\<open>RlpTypes\<close>, \<^verbatim>\<open>RlpFields\<close>: what an encoder emits, what a decoder accepts,
    and the locales \<open>rlp_codec\<close> and \<open>rlp_elem\<close> that turn the two into round trips and canonicity for structs,
    slices and pointers.
  \<^item> \<^verbatim>\<open>RlpRaw\<close>: values in byte slices (\<^verbatim>\<open>raw.go\<close>, \<^verbatim>\<open>iterator.go\<close>) against the stream.
  \<^item> \<^verbatim>\<open>TxRlp\<close>, \<^verbatim>\<open>DeriveSha\<close>, \<^verbatim>\<open>MpsRlp\<close>: transactions in RLP and as typed envelopes, the order of the updates
    \<^verbatim>\<open>DeriveSha\<close> feeds to a trie hasher, misbehaviour proofs.

  \<^bold>\<open>Events.\<close>

  \<^item> \<^verbatim>\<open>NativeEvent\<close>: the records of package \<^verbatim>\<open>native\<close>.
  \<^item> \<^verbatim>\<open>EventHash\<close>: payload hashes, locators, identifiers, vote envelopes.
  \<^item> \<^verbatim>\<open>EventSerializer\<close>, \<^verbatim>\<open>EventRound\<close>: \<^verbatim>\<open>native/event_serializer.go\<close>.  Well-formed events of both versions survive
    serialization, different events differ as bytes, and a receiver reconstructs what \<^verbatim>\<open>Build\<close> made.
  \<^item> \<^verbatim>\<open>EventStore\<close>: \<^verbatim>\<open>gossip/store_event.go\<close> with its caches as a refinement of a map from identifiers to
    events, and an event that passes every check but cannot be stored.

  \<^bold>\<open>Rules and checks.\<close>

  \<^item> \<^verbatim>\<open>ChainConfig\<close>: \<^verbatim>\<open>params/config.go\<close>.  A schedule that is compatible keeps the history of
    a node; the search for the block to rewind to ends and finds one.
  \<^item> \<^verbatim>\<open>Rules\<close>: \<^verbatim>\<open>sesa/rules.go\<close>, and the schedule derived from upgrade heights against the upgrades in force.
  \<^item> \<^verbatim>\<open>Intrinsic\<close>: \<^verbatim>\<open>IntrinsicGas\<close> against the price in unbounded arithmetic.
  \<^item> \<^verbatim>\<open>BasicCheck\<close>, \<^verbatim>\<open>GasPowerCheck\<close>, \<^verbatim>\<open>EpochCheck\<close>, \<^verbatim>\<open>HeavyCheck\<close>: the packages under \<^verbatim>\<open>eventcheck\<close>.  A check is a
    \<open>verdict\<close>; \<open>first_of\<close> is the early return of Go.  Misbehaviour proofs are accepted exactly when they prove a
    crime; gas power bounds the rate of a validator; votes of an accepted event are accepted without it.

  \<^bold>\<open>EVM state.\<close>

  \<^item> \<^verbatim>\<open>AccessList\<close>: \<^verbatim>\<open>core/state/access_list.go\<close> as a set of addresses and slots, with exact undo.

  \<^bold>\<open>Not modelled.\<close>  Networking (\<^verbatim>\<open>p2p\<close>, \<^verbatim>\<open>gossip/handler\<close>, \<^verbatim>\<open>eth\<close>, \<^verbatim>\<open>rpc\<close>), command line and node assembly
  (\<^verbatim>\<open>cmd\<close>, \<^verbatim>\<open>node\<close>, \<^verbatim>\<open>console\<close>), key stores and signers (\<^verbatim>\<open>accounts\<close>, \<^verbatim>\<open>valkeystore\<close>), metrics and logging, which
  are input and output; generated contract bindings (\<^verbatim>\<open>gossip/contract\<close>); the cryptography of \<^verbatim>\<open>crypto\<close>, which is
  mostly bindings to libraries and enters as arguments; the EVM interpreter \<^verbatim>\<open>core/vm\<close>, the tries of \<^verbatim>\<open>trie\<close> and
  the databases under them; the ordering of events, which belongs to go-vassalo; goroutines, queues and locks.
\<close>

end
